(* ===== verification/Prelude.thy ===== *)
theory Prelude
  imports Main "HOL-Library.Word" "HOL-Library.AList" "HOL-Library.Sublist"
begin

text \<open>
  The prelude of the gosu development: the names of the model's basic types, the collections
  the component proofs are tagged with, Go's integer division, and the generic lemmas on
  lists and words that several components share.

  Go's \<open>error\<close> results are options over an error type (\<open>nil\<close> is \<open>None\<close>); a Go function that
  returns \<open>(T, error)\<close> is a function into a sum, the error on the left. A Go text is a
  \<open>string\<close>, its characters standing for bytes and, where the code ranges over runes, for the
  code points below 256: no code of the repository treats a code point above 127 specially.
\<close>

unbundle bit_operations_syntax

named_theorems go_std \<open>models of the functions of Go's standard library\<close>
named_theorems inv_intros \<open>preservation of the components' invariants\<close>
named_theorems frame \<open>fields an operation leaves alone\<close>

type_synonym u8 = "8 word"
type_synonym u32 = "32 word"
type_synonym u64 = "64 word"

section \<open>Go's integers\<close>

text \<open>Signed division of Go truncates towards zero.\<close>

definition go_div :: "int \<Rightarrow> int \<Rightarrow> int" where
  "go_div a b = sgn a * sgn b * (\<bar>a\<bar> div \<bar>b\<bar>)"

lemma go_div_nonneg [simp]: "0 \<le> a \<Longrightarrow> 0 < b \<Longrightarrow> go_div a b = a div b"
  by (cases "a = 0") (simp_all add: go_div_def sgn_if)

text \<open>The value of a 64-bit signed integer after wrap-around.\<close>

definition wrap64 :: "int \<Rightarrow> int" where
  "wrap64 i = (i + 2 ^ 63) mod 2 ^ 64 - 2 ^ 63"

definition int64_ok :: "int \<Rightarrow> bool" where
  "int64_ok i \<longleftrightarrow> - (2 ^ 63) \<le> i \<and> i < 2 ^ 63"

lemma wrap64_id [simp]: "int64_ok i \<Longrightarrow> wrap64 i = i"
  by (simp add: wrap64_def int64_ok_def)

lemma int64_ok_wrap64 [simp]: "int64_ok (wrap64 i)"
  using pos_mod_bound [of "2 ^ 64" "i + 2 ^ 63"] pos_mod_sign [of "2 ^ 64" "i + 2 ^ 63"]
  by (simp add: wrap64_def int64_ok_def)

section \<open>Lists\<close>

lemma takeWhile_append_hit:
  "\<forall>x \<in> set xs. P x \<Longrightarrow> \<not> P y \<Longrightarrow> takeWhile P (xs @ y # ys) = xs"
  by (induction xs) auto

lemma dropWhile_append_hit:
  "\<forall>x \<in> set xs. P x \<Longrightarrow> \<not> P y \<Longrightarrow> dropWhile P (xs @ y # ys) = y # ys"
  by (induction xs) auto

lemma drop_eq_Cons_nth: "i < length xs \<Longrightarrow> drop i xs = xs ! i # drop (Suc i) xs"
  by (rule Cons_nth_drop_Suc [symmetric])

section \<open>The contract of a text codec\<close>

text \<open>
  Go's \<open>MarshalText\<close>/\<open>UnmarshalText\<close> pairs (and the pairs of plain functions that play their
  role): encoding may fail or panic (\<open>None\<close>), and decoding what was encoded gives the value
  back for the values \<open>wf\<close> the code writes.
\<close>

locale text_codec =
  fixes enc :: "'a \<Rightarrow> string option"
    and dec :: "string \<Rightarrow> 'a option"
    and wf :: "'a \<Rightarrow> bool"
  assumes enc_total: "wf x \<Longrightarrow> enc x \<noteq> None"
    and dec_enc: "wf x \<Longrightarrow> enc x = Some t \<Longrightarrow> dec t = Some x"
begin

lemma roundtrip: "wf x \<Longrightarrow> Option.bind (enc x) dec = Some x"
  using enc_total [of x] dec_enc [of x] by auto

lemma enc_inj: "wf x \<Longrightarrow> wf y \<Longrightarrow> enc x = enc y \<Longrightarrow> x = y"
  using enc_total [of x] dec_enc [of x] dec_enc [of y] by auto

lemma dec_onto: "wf x \<Longrightarrow> \<exists>t. dec t = Some x"
  using enc_total [of x] dec_enc [of x] by auto

end

section \<open>Event systems\<close>

text \<open>
  A component whose goroutines interleave is a partial step function over events, \<open>None\<close> where an
  event is not enabled; \<open>exec\<close> runs a list of events. The interface \<open>guarded_system\<close> is what an
  invariant needs: every event of a class keeps it.
\<close>

fun exec :: "('ev \<Rightarrow> 's \<Rightarrow> 's option) \<Rightarrow> 'ev list \<Rightarrow> 's \<Rightarrow> 's option" where
  "exec act [] s = Some s"
| "exec act (ev # evs) s = (case act ev s of Some s' \<Rightarrow> exec act evs s' | None \<Rightarrow> None)"

lemma exec_append:
  "exec act (es @ fs) s = (case exec act es s of Some s' \<Rightarrow> exec act fs s' | None \<Rightarrow> None)"
  by (induction es arbitrary: s) (auto split: option.splits)

locale guarded_system =
  fixes act :: "'ev \<Rightarrow> 's \<Rightarrow> 's option" and guard :: "'ev \<Rightarrow> bool" and inv :: "'s \<Rightarrow> bool"
  assumes keeps: "guard ev \<Longrightarrow> act ev s = Some s' \<Longrightarrow> inv s \<Longrightarrow> inv s'"
begin

lemma exec_keeps: "exec act evs s = Some s' \<Longrightarrow> \<forall>ev \<in> set evs. guard ev \<Longrightarrow> inv s \<Longrightarrow> inv s'"
  by (induction evs arbitrary: s) (auto split: option.splits intro: keeps)

lemma reached_keeps:
  assumes "exec act (es @ fs) s = Some s'" and "\<forall>ev \<in> set (es @ fs). guard ev" and "inv s"
  shows "\<exists>t. exec act es s = Some t \<and> inv t \<and> exec act fs t = Some s'"
  using assms by (auto simp: exec_append split: option.splits intro: exec_keeps)

end

section \<open>Simulations\<close>

text \<open>
  A component with a contract: \<open>step\<close> answers a request, \<open>None\<close> when it panics, and \<open>spec\<close> is what it
  promises on the abstract state. A component that simulates its contract request by request does so on
  any list of them, with the same answers.
\<close>

fun run_steps :: "('op \<Rightarrow> 'c \<Rightarrow> ('o \<times> 'c) option) \<Rightarrow> 'op list \<Rightarrow> 'c \<Rightarrow> ('o list \<times> 'c) option" where
  "run_steps step [] c = Some ([], c)"
| "run_steps step (op # ops) c =
     (case step op c of
        None \<Rightarrow> None
      | Some (out, c') \<Rightarrow> (case run_steps step ops c' of None \<Rightarrow> None | Some (outs, c'') \<Rightarrow> Some (out # outs, c'')))"

fun run_spec :: "('op \<Rightarrow> 'a \<Rightarrow> 'o \<times> 'a) \<Rightarrow> 'op list \<Rightarrow> 'a \<Rightarrow> 'o list \<times> 'a" where
  "run_spec spec [] a = ([], a)"
| "run_spec spec (op # ops) a =
     (case spec op a of (out, a') \<Rightarrow> (case run_spec spec ops a' of (outs, a'') \<Rightarrow> (out # outs, a'')))"

locale simulation =
  fixes step :: "'op \<Rightarrow> 'c \<Rightarrow> ('o \<times> 'c) option"
    and spec :: "'op \<Rightarrow> 'a \<Rightarrow> 'o \<times> 'a"
    and abs :: "'c \<Rightarrow> 'a"
    and inv :: "'c \<Rightarrow> bool"
    and ok :: "'op \<Rightarrow> bool"
  assumes simulates: "inv c \<Longrightarrow> ok op \<Longrightarrow> \<exists>c'. step op c = Some (fst (spec op (abs c)), c') \<and> inv c' \<and> abs c' = snd (spec op (abs c))"
begin

lemma run_refines:
  "inv c \<Longrightarrow> list_all ok ops \<Longrightarrow>
   \<exists>c'. run_steps step ops c = Some (fst (run_spec spec ops (abs c)), c') \<and> inv c' \<and> abs c' = snd (run_spec spec ops (abs c))"
proof (induction ops arbitrary: c)
  case (Cons op ops)
  obtain c1 where c1: "step op c = Some (fst (spec op (abs c)), c1)" "inv c1" "abs c1 = snd (spec op (abs c))"
    using simulates [OF Cons.prems(1), of op] Cons.prems(2) by auto
  obtain c2 where "run_steps step ops c1 = Some (fst (run_spec spec ops (abs c1)), c2)" "inv c2"
      "abs c2 = snd (run_spec spec ops (abs c1))"
    using Cons.IH [OF c1(2)] Cons.prems(2) by auto
  with c1 show ?case by (simp add: case_prod_unfold)
qed simp

end

end
