(* ===== verification/Sync_Map.thy ===== *)
theory Sync_Map
  imports Prelude
begin

text \<open>
  Go's maps as the program uses them (\<open>sync.Map\<close>, and the built-in maps under a mutex): finite
  partial functions with \<open>Load\<close>, \<open>Store\<close>, \<open>Delete\<close> and the deletion of the keys a test selects.
  \<open>map_store\<close> is the contract the components rely on.
\<close>

locale map_store =
  fixes load :: "'m \<Rightarrow> 'k \<Rightarrow> 'v option"
    and store :: "'m \<Rightarrow> 'k \<Rightarrow> 'v \<Rightarrow> 'm"
    and delete :: "'m \<Rightarrow> 'k \<Rightarrow> 'm"
    and delete_if :: "'m \<Rightarrow> ('k \<Rightarrow> bool) \<Rightarrow> 'm"
  assumes load_store: "load (store m k v) j = (if j = k then Some v else load m j)"
    and load_delete: "load (delete m k) j = (if j = k then None else load m j)"
    and load_delete_if: "load (delete_if m P) j = (if P j then None else load m j)"
begin

lemma store_other [simp]: "j \<noteq> k \<Longrightarrow> load (store m k v) j = load m j"
  by (simp add: load_store)

lemma store_store: "load (store (store m k v) k w) j = load (store m k w) j"
  by (simp add: load_store)

lemma delete_store: "load (delete (store m k v) k) j = load (delete m k) j"
  by (simp add: load_store load_delete)

lemma delete_if_store: "\<not> P k \<Longrightarrow> load (delete_if (store m k v) P) k = Some v"
  by (simp add: load_store load_delete_if)

end

definition sm_Load :: "('k \<Rightarrow> 'v option) \<Rightarrow> 'k \<Rightarrow> 'v option" where
  "sm_Load m k = m k"

definition sm_Store :: "('k \<Rightarrow> 'v option) \<Rightarrow> 'k \<Rightarrow> 'v \<Rightarrow> ('k \<Rightarrow> 'v option)" where
  "sm_Store m k v = m(k \<mapsto> v)"

definition sm_Delete :: "('k \<Rightarrow> 'v option) \<Rightarrow> 'k \<Rightarrow> ('k \<Rightarrow> 'v option)" where
  "sm_Delete m k = m(k := None)"

definition sm_DeleteIf :: "('k \<Rightarrow> 'v option) \<Rightarrow> ('k \<Rightarrow> bool) \<Rightarrow> ('k \<Rightarrow> 'v option)" where
  "sm_DeleteIf m P = (\<lambda>k. if P k then None else m k)"

interpretation sm: map_store sm_Load sm_Store sm_Delete sm_DeleteIf
  by unfold_locales (simp_all add: sm_Load_def sm_Store_def sm_Delete_def sm_DeleteIf_def)

lemma sm_raw: "m k = sm_Load m k"
  by (simp add: sm_Load_def)

lemmas sm_laws = sm.load_store sm.load_delete sm.load_delete_if

end
