(* ===== verification/LoadBalancer.thy ===== *)
theory LoadBalancer
  imports Sync_Map Go_Strings "HOL-Library.Word"
begin

unbundle bit_operations_syntax

text \<open>
  \<open>pkg/revproxy\<close>: the HTTP load balancer. Upstreams and client sessions are pointers, so numbers
  here, and what they point to is in the record: the connection counts and the sticky upstream of
  each session. \<open>Next\<close> runs in two atomic parts, the choice (session loaded, list read under the
  lock) and the deferred update of the session, whose compare-and-swap loop takes effect in one
  step; requests interleave between them. The random draw of \<open>rand.Intn\<close> is an argument, and so
  are \<open>lo.MinBy\<close> and \<open>lo.Without\<close>, which are third-party code.
\<close>

section \<open>Addresses\<close>

text \<open>\<open>getClientIp\<close>: the first proxy header that is set, else the address up to its last colon.\<close>

definition realIpHeaders :: "string list" where
  "realIpHeaders = [''Cf-Connecting-Ip'', ''X-Forwarded-For'', ''X-Real-Ip'']"

definition upto_last_colon :: "string \<Rightarrow> string option" where
  "upto_last_colon a =
     (if CHR '':'' \<in> set a then Some (rev (tl (dropWhile (\<lambda>c. c \<noteq> CHR '':'') (rev a)))) else None)"

definition getClientIp :: "(string \<Rightarrow> string) \<Rightarrow> string \<Rightarrow> string" where
  "getClientIp header remoteAddr =
     (case find (\<lambda>h. header h \<noteq> []) realIpHeaders of
        Some h \<Rightarrow> header h
      | None \<Rightarrow> (case upto_last_colon remoteAddr of Some ip \<Rightarrow> ip | None \<Rightarrow> remoteAddr))"

text \<open>The Castagnoli checksum, bit by bit with the reversed polynomial.\<close>

definition crc_bit :: "u32 \<Rightarrow> u32" where
  "crc_bit c = (if c AND 1 = 1 then drop_bit 1 c XOR 0x82F63B78 else drop_bit 1 c)"

definition crc_byte :: "u32 \<Rightarrow> nat \<Rightarrow> u32" where
  "crc_byte c b = (crc_bit ^^ 8) (c XOR of_nat b)"

definition crc32c :: "string \<Rightarrow> u32" where
  "crc32c s = NOT (foldl (\<lambda>c ch. crc_byte c (ord ch)) (NOT 0) s)"

definition fastHash :: "string \<Rightarrow> int" where
  "fastHash s = uint (crc32c s)"

section \<open>State\<close>

record lb_options =
  lbo_Host :: string
  lbo_Listen :: string
  lbo_Sticky :: bool
  lbo_Method :: string
  lbo_RetryMax :: int
  lbo_RetryBackoff :: int

text \<open>The values of \<open>sessions\<close> have type \<open>any\<close>: a pointer with its dynamic type.\<close>

datatype lb_any = AnySession nat | AnyUpstream nat

record lb =
  lb_opts :: lb_options
  lb_Upstreams :: "nat list"
  lb_sessions :: "string \<Rightarrow> lb_any option"
  lb_session :: "nat \<Rightarrow> nat option"
  lb_fresh :: nat
  lb_conns :: "nat \<Rightarrow> int"

definition NewLoadBalancer :: "lb_options \<Rightarrow> lb" where
  "NewLoadBalancer opt = \<lparr>lb_opts = opt, lb_Upstreams = [], lb_sessions = (\<lambda>_. None), lb_session = (\<lambda>_. None),
     lb_fresh = 0, lb_conns = (\<lambda>_. 0)\<rparr>"

definition AddUpstream :: "lb \<Rightarrow> nat \<Rightarrow> lb" where
  "AddUpstream b u = b\<lparr>lb_Upstreams := lb_Upstreams b @ [u]\<rparr>"

definition RemoveUpstream :: "(nat list \<Rightarrow> nat \<Rightarrow> nat list) \<Rightarrow> lb \<Rightarrow> nat \<Rightarrow> lb" where
  "RemoveUpstream without b u =
     b\<lparr>lb_Upstreams := without (lb_Upstreams b) u,
       lb_sessions := sm_DeleteIf (lb_sessions b) (\<lambda>ip. sm_Load (lb_sessions b) ip = Some (AnyUpstream u))\<rparr>"

section \<open>Next\<close>

text \<open>The session of a client, created when there is none.\<close>

definition session_of :: "lb \<Rightarrow> string \<Rightarrow> nat \<times> lb" where
  "session_of b ip =
     (case sm_Load (lb_sessions b) ip of
        Some (AnySession s) \<Rightarrow> (s, b)
      | _ \<Rightarrow> (lb_fresh b, b\<lparr>lb_sessions := sm_Store (lb_sessions b) ip (AnySession (lb_fresh b)),
                 lb_session := (lb_session b)(lb_fresh b := None), lb_fresh := Suc (lb_fresh b)\<rparr>))"

definition fewer_conns :: "lb \<Rightarrow> nat option \<Rightarrow> nat \<Rightarrow> nat \<Rightarrow> bool" where
  "fewer_conns b retry x y =
     (if Some x = retry then False else if Some y = retry then True else lb_conns b x < lb_conns b y)"

text \<open>The scan from \<open>n\<close> for an upstream that is not the one to avoid; the last one tried otherwise.\<close>

fun scan_from :: "nat list \<Rightarrow> nat \<Rightarrow> nat option \<Rightarrow> nat \<Rightarrow> nat \<Rightarrow> nat" where
  "scan_from us n retry up 0 = up"
| "scan_from us n retry up (Suc left) =
     (let up = us ! ((n + (length us - Suc left)) mod length us) in
      if Some up \<noteq> retry then up else scan_from us n retry up left)"

definition choose_upstream :: "((nat \<Rightarrow> nat \<Rightarrow> bool) \<Rightarrow> nat list \<Rightarrow> nat) \<Rightarrow> lb \<Rightarrow> string \<Rightarrow> nat option \<Rightarrow> nat \<Rightarrow> nat option" where
  "choose_upstream MinBy b ip retry draw =
     (let us = lb_Upstreams b in
      if us = [] then None
      else if length us = 1 then Some (us ! 0)
      else if lbo_Method (lb_opts b) = ''conn''
      then let up = MinBy (fewer_conns b retry) us in (if Some up = retry then None else Some up)
      else let n = (if lbo_Method (lb_opts b) = ''hash'' then nat (fastHash ip mod int (length us)) else draw mod length us);
               up = us ! n
        in Some (if Some up = retry then scan_from us n retry up (length us - 1) else up))"

text \<open>
  The first part of \<open>Next\<close>: the result before the deferred update, and the session the update is
  about when the balancer is sticky.
\<close>

definition next_choose :: "((nat \<Rightarrow> nat \<Rightarrow> bool) \<Rightarrow> nat list \<Rightarrow> nat) \<Rightarrow> lb \<Rightarrow> string \<Rightarrow> nat option \<Rightarrow> nat \<Rightarrow> nat option \<times> nat option \<times> lb" where
  "next_choose MinBy b ip retry draw =
     (if lbo_Sticky (lb_opts b)
      then let (s, b) = session_of b ip in
        (case lb_session b s of
           Some u \<Rightarrow>
             if Some u = retry
             then let b = b\<lparr>lb_session := (lb_session b)(s := None)\<rparr> in (choose_upstream MinBy b ip retry draw, Some s, b)
             else (Some u, Some s, b)
         | None \<Rightarrow> (choose_upstream MinBy b ip retry draw, Some s, b))
      else (choose_upstream MinBy b ip retry draw, None, b))"

text \<open>The deferred update, which may replace the result by the session's upstream.\<close>

definition next_update :: "nat option \<Rightarrow> nat option \<Rightarrow> nat option \<Rightarrow> lb \<Rightarrow> nat option \<times> lb" where
  "next_update us session retry b =
     (case (us, session) of
        (Some u, Some s) \<Rightarrow>
          (case lb_session b s of
             Some v \<Rightarrow> if Some v \<noteq> retry then (Some v, b) else (Some u, b\<lparr>lb_session := (lb_session b)(s := Some u)\<rparr>)
           | None \<Rightarrow> (Some u, b\<lparr>lb_session := (lb_session b)(s := Some u)\<rparr>))
      | _ \<Rightarrow> (us, b))"

definition lb_Next :: "((nat \<Rightarrow> nat \<Rightarrow> bool) \<Rightarrow> nat list \<Rightarrow> nat) \<Rightarrow> lb \<Rightarrow> string \<Rightarrow> nat option \<Rightarrow> nat \<Rightarrow> nat option \<times> lb" where
  "lb_Next MinBy b ip retry draw =
     (let (us, s, b) = next_choose MinBy b ip retry draw in next_update us s retry b)"

lemma session_of_frame [simp]:
  "session_of b ip = (s, b') \<Longrightarrow> lb_opts b' = lb_opts b \<and> lb_Upstreams b' = lb_Upstreams b \<and> lb_conns b' = lb_conns b"
  by (auto simp: session_of_def split: option.splits lb_any.splits)

lemma next_update_frame:
  "next_update us s retry b = (us', b') \<Longrightarrow>
   lb_opts b' = lb_opts b \<and> lb_Upstreams b' = lb_Upstreams b \<and> lb_conns b' = lb_conns b \<and> lb_sessions b' = lb_sessions b
   \<and> (us = None \<longleftrightarrow> us' = None)"
  by (auto simp: next_update_def split: option.splits if_splits) metis

lemma next_choose_frame:
  "next_choose MinBy b ip retry draw = (us, s, b') \<Longrightarrow>
   lb_opts b' = lb_opts b \<and> lb_Upstreams b' = lb_Upstreams b \<and> lb_conns b' = lb_conns b"
  by (auto simp: next_choose_def Let_def split: prod.splits option.splits if_splits)

lemma lb_Next_frame:
  "lb_Next MinBy b ip retry draw = (us, b') \<Longrightarrow>
   lb_opts b' = lb_opts b \<and> lb_Upstreams b' = lb_Upstreams b \<and> lb_conns b' = lb_conns b"
  unfolding lb_Next_def Let_def using next_choose_frame next_update_frame by (fastforce split: prod.splits)

section \<open>Requests\<close>

record lb_request =
  rq_Ip :: string
  rq_RetryCount :: int
  rq_Previous :: "nat option"

datatype proxy_result = Served | ClientGone | UpstreamError

datatype lb_response = Response nat | NoResponse | BadGateway

text \<open>
  \<open>ServeHTTP\<close> and the error handler of the upstream, which calls it again. \<open>proxy k\<close> is how the
  attempt number \<open>k\<close> at an upstream ends, \<open>gone k\<close> whether the client gives up during the back-off
  after it, \<open>draws k\<close> the random draw. The result is the response, the upstreams tried and the
  balancer.
\<close>

function lb_serve :: "((nat \<Rightarrow> nat \<Rightarrow> bool) \<Rightarrow> nat list \<Rightarrow> nat) \<Rightarrow> (int \<Rightarrow> proxy_result) \<Rightarrow> (int \<Rightarrow> bool) \<Rightarrow> (int \<Rightarrow> nat) \<Rightarrow>
    lb \<Rightarrow> lb_request \<Rightarrow> lb_response \<times> nat list \<times> lb" where
  "lb_serve MinBy proxy gone draws b rq =
     (let k = rq_RetryCount rq; (us, b) = lb_Next MinBy b (rq_Ip rq) (rq_Previous rq) (draws k) in
      case us of
        None \<Rightarrow> (BadGateway, [], b)
      | Some u \<Rightarrow>
          let b = b\<lparr>lb_conns := (lb_conns b)(u := lb_conns b u + 1)\<rparr>;
              (resp, tried, b) =
                (case proxy k of
                   Served \<Rightarrow> (Response u, [], b)
                 | ClientGone \<Rightarrow> (NoResponse, [], b)
                 | UpstreamError \<Rightarrow>
                     if gone k then (BadGateway, [], b)
                     else if k + 1 \<ge> lbo_RetryMax (lb_opts b) then (BadGateway, [], b)
                     else lb_serve MinBy proxy gone draws b (rq\<lparr>rq_RetryCount := k + 1, rq_Previous := Some u\<rparr>))
          in (resp, u # tried, b\<lparr>lb_conns := (lb_conns b)(u := lb_conns b u - 1)\<rparr>))"
  by pat_completeness auto

termination lb_serve
proof (relation "measure (\<lambda>(MinBy, proxy, gone, draws, b, rq). nat (lbo_RetryMax (lb_opts b) - rq_RetryCount rq))", goal_cases)
  case (2 MinBy proxy gone draws b rq k x us b1 u b2)
  then have "lb_opts b1 = lb_opts b" using lb_Next_frame by metis
  with 2 show ?case by simp
qed simp

declare lb_serve.simps [simp del]

definition ServeHTTP :: "((nat \<Rightarrow> nat \<Rightarrow> bool) \<Rightarrow> nat list \<Rightarrow> nat) \<Rightarrow> (int \<Rightarrow> proxy_result) \<Rightarrow> (int \<Rightarrow> bool) \<Rightarrow> (int \<Rightarrow> nat) \<Rightarrow>
    lb \<Rightarrow> (string \<Rightarrow> string) \<Rightarrow> string \<Rightarrow> lb_response \<times> nat list \<times> lb" where
  "ServeHTTP MinBy proxy gone draws b header remoteAddr =
     lb_serve MinBy proxy gone draws b
       \<lparr>rq_Ip = getClientIp header remoteAddr, rq_RetryCount = 0, rq_Previous = None\<rparr>"

section \<open>The choice\<close>

text \<open>
  \<open>lo.MinBy\<close> as documented: for a strict weak order an element that no other is below.
\<close>

definition strict_weak :: "(nat \<Rightarrow> nat \<Rightarrow> bool) \<Rightarrow> bool" where
  "strict_weak lt \<longleftrightarrow> (\<forall>x. \<not> lt x x) \<and> (\<forall>x y z. lt x y \<longrightarrow> lt y z \<longrightarrow> lt x z)
     \<and> (\<forall>x y z. lt x z \<longrightarrow> lt x y \<or> lt y z)"

definition min_by_spec :: "((nat \<Rightarrow> nat \<Rightarrow> bool) \<Rightarrow> nat list \<Rightarrow> nat) \<Rightarrow> bool" where
  "min_by_spec MinBy \<longleftrightarrow> (\<forall>lt xs. strict_weak lt \<longrightarrow> xs \<noteq> [] \<longrightarrow>
     MinBy lt xs \<in> set xs \<and> (\<forall>x \<in> set xs. \<not> lt x (MinBy lt xs)))"

lemma fewer_conns_weak: "strict_weak (fewer_conns b retry)"
  by (auto simp: strict_weak_def fewer_conns_def)

lemma scan_from_in: "us \<noteq> [] \<Longrightarrow> up \<in> set us \<Longrightarrow> scan_from us n retry up left \<in> set us"
  by (induction us n retry up left rule: scan_from.induct) (simp add: Let_def)+

lemma scan_from_hit:
  "us \<noteq> [] \<Longrightarrow> left \<le> length us \<Longrightarrow> length us - left \<le> i \<Longrightarrow> i < length us \<Longrightarrow> Some (us ! ((n + i) mod length us)) \<noteq> retry \<Longrightarrow>
   Some (scan_from us n retry up left) \<noteq> retry"
proof (induction us n retry up left rule: scan_from.induct)
  case (2 us n retry up left)
  show ?case
  proof (cases "Some (us ! ((n + (length us - Suc left)) mod length us)) \<noteq> retry")
    case False
    with 2(6) have "i \<noteq> length us - Suc left" by auto
    with 2(4) have "length us - left \<le> i" by simp
    with 2 False show ?thesis by (simp add: Let_def)
  qed (simp add: Let_def)
qed simp

lemma rotate_index:
  fixes n m l :: nat
  assumes "n < l" and "m < l" and "m \<noteq> n"
  shows "\<exists>i. 1 \<le> i \<and> i < l \<and> (n + i) mod l = m"
proof (cases "n < m")
  case True
  with assms show ?thesis by (intro exI [of _ "m - n"]) auto
next
  case False
  with assms have "m < n" by simp
  with assms show ?thesis by (intro exI [of _ "m + l - n"]) auto
qed

lemma scan_avoids:
  assumes "n < length us" and "u \<in> set us" and "Some u \<noteq> retry" and "Some (us ! n) = retry"
  shows "Some (scan_from us n retry (us ! n) (length us - 1)) \<noteq> retry"
proof -
  obtain m where m: "m < length us" "us ! m = u" using assms(2) by (auto simp: in_set_conv_nth)
  with assms have "m \<noteq> n" by auto
  then obtain i where "1 \<le> i" "i < length us" "(n + i) mod length us = m"
    using rotate_index [OF assms(1) m(1)] by blast
  with m assms(1,3) show ?thesis by (intro scan_from_hit [where i = i]) auto
qed

text \<open>
  With at least two upstreams of which one is not the one to avoid, the choice is an upstream
  of the list and not the one to avoid, for every method and every random draw; the method
  \<open>conn\<close> chooses one with the fewest connections among those.
\<close>

theorem choice_avoids_failed:
  assumes "min_by_spec MinBy" and "2 \<le> length (lb_Upstreams b)" and "u \<in> set (lb_Upstreams b)" and "Some u \<noteq> retry"
  shows "\<exists>v. choose_upstream MinBy b ip retry draw = Some v \<and> v \<in> set (lb_Upstreams b) \<and> Some v \<noteq> retry
    \<and> (lbo_Method (lb_opts b) = ''conn'' \<longrightarrow>
        (\<forall>x \<in> set (lb_Upstreams b). Some x \<noteq> retry \<longrightarrow> lb_conns b v \<le> lb_conns b x))"
proof (cases "lbo_Method (lb_opts b) = ''conn''")
  case True
  let ?v = "MinBy (fewer_conns b retry) (lb_Upstreams b)"
  have ne: "lb_Upstreams b \<noteq> []" using assms(2) by auto
  have v: "?v \<in> set (lb_Upstreams b)" "\<forall>x \<in> set (lb_Upstreams b). \<not> fewer_conns b retry x ?v"
    using assms(1) fewer_conns_weak ne unfolding min_by_spec_def by blast+
  have "Some ?v \<noteq> retry" using v(2) assms(3,4) by (auto simp: fewer_conns_def)
  moreover have "lb_conns b ?v \<le> lb_conns b x" if "x \<in> set (lb_Upstreams b)" "Some x \<noteq> retry" for x
    using v(2) that calculation by (auto simp: fewer_conns_def not_less)
  ultimately show ?thesis using True v ne assms(2) by (simp add: choose_upstream_def Let_def)
next
  case False
  let ?us = "lb_Upstreams b"
  let ?n = "if lbo_Method (lb_opts b) = ''hash'' then nat (fastHash ip mod int (length ?us)) else draw mod length ?us"
  have n: "?n < length ?us" using assms(2) pos_mod_bound [of "int (length ?us)" "fastHash ip"]
    by (cases "lb_Upstreams b") (auto simp: nat_less_iff)
  define n where "n = ?n"
  define v where "v = (if Some (?us ! n) = retry then scan_from ?us n retry (?us ! n) (length ?us - 1) else ?us ! n)"
  have "v \<in> set ?us" using n assms(2) unfolding v_def n_def [symmetric] by (auto intro!: scan_from_in nth_mem)
  moreover have "Some v \<noteq> retry"
    using scan_avoids [OF _ assms(3,4), of n] n unfolding v_def n_def [symmetric] by auto
  moreover have "choose_upstream MinBy b ip retry draw = Some v"
    using False assms(2) by (auto simp: choose_upstream_def Let_def v_def n_def)
  ultimately show ?thesis using False by blast
qed

text \<open>The fold of \<open>lo.MinBy\<close>, for the examples.\<close>

definition min_fold :: "(nat \<Rightarrow> nat \<Rightarrow> bool) \<Rightarrow> nat list \<Rightarrow> nat" where
  "min_fold lt xs = foldl (\<lambda>m x. if lt x m then x else m) (hd xs) (tl xs)"

lemma foldl_min:
  assumes "strict_weak lt"
  shows "foldl (\<lambda>m x. if lt x m then x else m) m xs \<in> insert m (set xs)
    \<and> (\<forall>x \<in> insert m (set xs). \<not> lt x (foldl (\<lambda>m x. if lt x m then x else m) m xs))"
proof (induction xs arbitrary: m)
  case Nil
  then show ?case using assms by (simp add: strict_weak_def)
next
  case (Cons x xs)
  define f where "f = foldl (\<lambda>m x. if lt x m then x else m) (if lt x m then x else m) xs"
  have IH: "f \<in> insert (if lt x m then x else m) (set xs)" "\<forall>y \<in> set xs. \<not> lt y f" "\<not> lt (if lt x m then x else m) f"
    using Cons.IH [of "if lt x m then x else m"] by (auto simp: f_def)
  have "\<not> lt m f" "\<not> lt x f"
    using IH(3) assms unfolding strict_weak_def by (metis (full_types))+
  moreover have "f \<in> insert m (set (x # xs))" using IH(1) by (auto split: if_splits)
  ultimately show ?case using IH(2) by (simp add: f_def)
qed

lemma min_fold_spec: "min_by_spec min_fold"
  unfolding min_by_spec_def
proof (intro allI impI)
  fix lt :: "nat \<Rightarrow> nat \<Rightarrow> bool" and xs :: "nat list"
  assume "strict_weak lt" "xs \<noteq> []"
  then show "min_fold lt xs \<in> set xs \<and> (\<forall>x \<in> set xs. \<not> lt x (min_fold lt xs))"
    using foldl_min [of lt "hd xs" "tl xs"] by (cases xs) (simp_all add: min_fold_def)
qed

theorem choice_avoids_failed_witness:
  "\<exists>v. choose_upstream min_fold
        ((NewLoadBalancer \<lparr>lbo_Host = [], lbo_Listen = [], lbo_Sticky = False, lbo_Method = ''hash'', lbo_RetryMax = 3, lbo_RetryBackoff = 0\<rparr>)
          \<lparr>lb_Upstreams := [7, 8]\<rparr>) ''10.0.0.1'' (Some 7) 0 = Some v \<and> v \<noteq> 7"
  using choice_avoids_failed [OF min_fold_spec, of "(NewLoadBalancer \<lparr>lbo_Host = [], lbo_Listen = [], lbo_Sticky = False,
      lbo_Method = ''hash'', lbo_RetryMax = 3, lbo_RetryBackoff = 0\<rparr>) \<lparr>lb_Upstreams := [7, 8]\<rparr>" 8 "Some 7" "''10.0.0.1''" 0]
  by auto

section \<open>Sticky sessions under concurrent requests\<close>

text \<open>
  Calls of \<open>Next\<close> that have chosen and not yet updated, with the client, the upstream to avoid, the
  choice and the session; and the results so far.
\<close>

record lbs =
  ls_lb :: lb
  ls_pending :: "(string \<times> nat option \<times> nat option \<times> nat option) list"
  ls_results :: "(string \<times> nat option) list"

datatype lb_ev =
    NextChooses string "nat option" nat
  | NextUpdates nat
  | Adds nat
  | Removes nat

fun lb_act :: "((nat \<Rightarrow> nat \<Rightarrow> bool) \<Rightarrow> nat list \<Rightarrow> nat) \<Rightarrow> (nat list \<Rightarrow> nat \<Rightarrow> nat list) \<Rightarrow> lb_ev \<Rightarrow> lbs \<Rightarrow> lbs option" where
  "lb_act MinBy without (NextChooses ip retry draw) st =
     (let (us, s, b) = next_choose MinBy (ls_lb st) ip retry draw in
      Some (st\<lparr>ls_lb := b, ls_pending := ls_pending st @ [(ip, retry, us, s)]\<rparr>))"
| "lb_act MinBy without (NextUpdates i) st =
     (if i < length (ls_pending st)
      then let (ip, retry, us, s) = ls_pending st ! i; (us, b) = next_update us s retry (ls_lb st) in
        Some (st\<lparr>ls_lb := b, ls_pending := take i (ls_pending st) @ drop (Suc i) (ls_pending st),
                 ls_results := ls_results st @ [(ip, us)]\<rparr>)
      else None)"
| "lb_act MinBy without (Adds u) st = Some (st\<lparr>ls_lb := AddUpstream (ls_lb st) u\<rparr>)"
| "lb_act MinBy without (Removes u) st = Some (st\<lparr>ls_lb := RemoveUpstream without (ls_lb st) u\<rparr>)"

definition lb_start :: "lb_options \<Rightarrow> lbs" where
  "lb_start opt = \<lparr>ls_lb = NewLoadBalancer opt, ls_pending = [], ls_results = []\<rparr>"

text \<open>The sessions are pointers to distinct objects, and a pending update is about its client's session.\<close>

definition sessions_ok :: "lb \<Rightarrow> bool" where
  "sessions_ok b \<longleftrightarrow>
     (\<forall>ip x. sm_Load (lb_sessions b) ip = Some x \<longrightarrow> (\<exists>s. x = AnySession s \<and> s < lb_fresh b))
     \<and> (\<forall>ip ip' s. sm_Load (lb_sessions b) ip = Some (AnySession s) \<longrightarrow>
          sm_Load (lb_sessions b) ip' = Some (AnySession s) \<longrightarrow> ip = ip')"

definition pending_ok :: "lb \<Rightarrow> (string \<times> nat option \<times> nat option \<times> nat option) \<Rightarrow> bool" where
  "pending_ok b p = (case p of (ip, retry, us, s) \<Rightarrow>
     s = (if lbo_Sticky (lb_opts b) then s else None) \<and>
     (lbo_Sticky (lb_opts b) \<longrightarrow> (\<exists>k. s = Some k \<and> sm_Load (lb_sessions b) ip = Some (AnySession k))))"

definition lbs_ok :: "lbs \<Rightarrow> bool" where
  "lbs_ok st \<longleftrightarrow> sessions_ok (ls_lb st) \<and> (\<forall>p \<in> set (ls_pending st). pending_ok (ls_lb st) p)"

lemma session_of_ok:
  assumes "sessions_ok b" and "session_of b ip = (s, b')"
  shows "sessions_ok b' \<and> sm_Load (lb_sessions b') ip = Some (AnySession s)
    \<and> (\<forall>ip' x. sm_Load (lb_sessions b) ip' = Some x \<longrightarrow> sm_Load (lb_sessions b') ip' = Some x)
    \<and> (\<forall>k < lb_fresh b. lb_session b' k = lb_session b k)"
proof (cases "sm_Load (lb_sessions b) ip")
  case None
  then have b': "b' = b\<lparr>lb_sessions := sm_Store (lb_sessions b) ip (AnySession (lb_fresh b)),
                 lb_session := (lb_session b)(lb_fresh b := None), lb_fresh := Suc (lb_fresh b)\<rparr>" "s = lb_fresh b"
    using assms(2) by (auto simp: session_of_def)
  show ?thesis
  proof -
    have f: "x = AnySession k \<Longrightarrow> k < lb_fresh b" "\<exists>k. x = AnySession k"
      if "sm_Load (lb_sessions b) ip' = Some x" for ip' x k
      using assms(1) that unfolding sessions_ok_def by blast+
    have g: "ip1 = ip2" if "sm_Load (lb_sessions b) ip1 = Some (AnySession k)" "sm_Load (lb_sessions b) ip2 = Some (AnySession k)"
      for ip1 ip2 k
      using assms(1) that unfolding sessions_ok_def by blast
    have l: "sm_Load (lb_sessions b') j = (if j = ip then Some (AnySession (lb_fresh b)) else sm_Load (lb_sessions b) j)" for j
      by (simp add: b' sm_laws)
    have "sessions_ok b'"
      unfolding sessions_ok_def
    proof (intro conjI allI impI)
      fix j x assume x: "sm_Load (lb_sessions b') j = Some x"
      have n: "lb_fresh b' = Suc (lb_fresh b)" by (simp add: b')
      show "\<exists>k. x = AnySession k \<and> k < lb_fresh b'"
      proof (cases "j = ip")
        case True
        with x l have "x = AnySession (lb_fresh b)" by simp
        with n show ?thesis by simp
      next
        case False
        with x l have j: "sm_Load (lb_sessions b) j = Some x" by simp
        then obtain k where k: "x = AnySession k" using f(2) by blast
        from f(1) [OF j k] n k show ?thesis by simp
      qed
    next
      fix j j' k assume "sm_Load (lb_sessions b') j = Some (AnySession k)" "sm_Load (lb_sessions b') j' = Some (AnySession k)"
      then show "j = j'"
        using f(1) [of j "AnySession k" k] f(1) [of j' "AnySession k" k] g [of j k j']
        unfolding l by (cases "j = ip"; cases "j' = ip") simp_all
    qed
    moreover have "\<forall>k < lb_fresh b. lb_session b' k = lb_session b k" by (simp add: b'(1))
    moreover have "\<forall>j x. sm_Load (lb_sessions b) j = Some x \<longrightarrow> sm_Load (lb_sessions b') j = Some x"
      using None by (simp add: l)
    moreover have "sm_Load (lb_sessions b') ip = Some (AnySession s)" by (simp add: l b'(2))
    ultimately show ?thesis by blast
  qed
next
  case (Some x)
  then obtain k where k: "x = AnySession k" using assms(1) unfolding sessions_ok_def by blast
  with Some assms(2) have "s = k" "b' = b" by (simp_all add: session_of_def)
  with Some k assms(1) show ?thesis by simp
qed

lemma next_choose_ok:
  assumes "sessions_ok b" and "next_choose MinBy b ip retry draw = (us, s, b')"
  shows "sessions_ok b' \<and> pending_ok b' (ip, retry, us, s)
    \<and> (\<forall>ip' x. sm_Load (lb_sessions b) ip' = Some x \<longrightarrow> sm_Load (lb_sessions b') ip' = Some x)"
proof (cases "lbo_Sticky (lb_opts b)")
  case True
  obtain k b1 where k: "session_of b ip = (k, b1)" by fastforce
  have o: "lb_opts b1 = lb_opts b" using session_of_frame [OF k] by simp
  have "s = Some k \<and> lb_sessions b' = lb_sessions b1 \<and> lb_fresh b' = lb_fresh b1 \<and> lb_opts b' = lb_opts b"
    using assms(2) True k o by (auto simp: next_choose_def Let_def split: option.splits if_splits)
  with session_of_ok [OF assms(1) k] True show ?thesis by (auto simp: sessions_ok_def pending_ok_def)
next
  case False
  with assms show ?thesis by (auto simp: next_choose_def pending_ok_def)
qed

lemma next_update_ok:
  "next_update us s retry b = (us', b') \<Longrightarrow> lb_sessions b' = lb_sessions b \<and> lb_fresh b' = lb_fresh b \<and> lb_opts b' = lb_opts b"
  by (auto simp: next_update_def split: option.splits if_splits)

lemma RemoveUpstream_sessions:
  "sessions_ok b \<Longrightarrow> sm_Load (lb_sessions (RemoveUpstream without b u)) ip = sm_Load (lb_sessions b) ip"
  unfolding RemoveUpstream_def sessions_ok_def by (auto simp: sm_laws)

lemma lb_act_ok:
  assumes "lb_act MinBy without ev st = Some st'" and "lbs_ok st"
  shows "lbs_ok st'"
proof (cases ev)
  case (NextChooses ip retry draw)
  obtain us s b where n: "next_choose MinBy (ls_lb st) ip retry draw = (us, s, b)" by (cases "next_choose MinBy (ls_lb st) ip retry draw")
  have "lb_opts b = lb_opts (ls_lb st)" using next_choose_frame [OF n] by simp
  with assms NextChooses n next_choose_ok [OF _ n] show ?thesis
    by (fastforce simp: lbs_ok_def pending_ok_def)
next
  case (NextUpdates i)
  with assms next_update_ok show ?thesis
    by (fastforce simp: lbs_ok_def pending_ok_def sessions_ok_def Let_def split: prod.splits if_splits dest: in_set_takeD in_set_dropD)
next
  case (Removes u)
  with assms RemoveUpstream_sessions [of "ls_lb st" without u] show ?thesis
    by (auto simp: lbs_ok_def pending_ok_def sessions_ok_def RemoveUpstream_def)
qed (use assms in \<open>auto simp: lbs_ok_def pending_ok_def sessions_ok_def AddUpstream_def\<close>)

text \<open>
  The state after which a client sticks: its session holds \<open>v\<close>, no pending call of it retries from
  \<open>v\<close>, and the results since the first \<open>m\<close> are \<open>v\<close>, or none where the choice found no upstream.
\<close>

definition sticks :: "string \<Rightarrow> nat \<Rightarrow> nat \<Rightarrow> nat \<Rightarrow> lbs \<Rightarrow> bool" where
  "sticks ip v k m st \<longleftrightarrow> lbs_ok st \<and> lbo_Sticky (lb_opts (ls_lb st))
     \<and> sm_Load (lb_sessions (ls_lb st)) ip = Some (AnySession k) \<and> lb_session (ls_lb st) k = Some v
     \<and> (\<forall>us s. (ip, Some v, us, s) \<notin> set (ls_pending st))
     \<and> m \<le> length (ls_results st) \<and> (\<forall>r. (ip, r) \<in> set (drop m (ls_results st)) \<longrightarrow> r = Some v \<or> r = None)"

fun not_retried :: "string \<Rightarrow> nat \<Rightarrow> lb_ev \<Rightarrow> bool" where
  "not_retried ip v (NextChooses ip' retry draw) = (ip' = ip \<longrightarrow> retry \<noteq> Some v)"
| "not_retried ip v ev = True"

lemma sessions_ok_inj:
  "sessions_ok b \<Longrightarrow> sm_Load (lb_sessions b) ip = Some (AnySession k) \<Longrightarrow> sm_Load (lb_sessions b) ip' = Some (AnySession k') \<Longrightarrow>
   ip \<noteq> ip' \<Longrightarrow> k \<noteq> k'"
  unfolding sessions_ok_def by blast

lemma sessions_ok_fresh: "sessions_ok b \<Longrightarrow> sm_Load (lb_sessions b) ip = Some (AnySession k) \<Longrightarrow> k < lb_fresh b"
  unfolding sessions_ok_def by blast

lemma choose_keeps_session:
  assumes "sessions_ok b" and "sm_Load (lb_sessions b) ip = Some (AnySession k)" and "lb_session b k = Some v"
    and "ip' = ip \<longrightarrow> retry \<noteq> Some v" and "next_choose MinBy b ip' retry draw = (us, s, b')"
  shows "lb_session b' k = Some v"
proof (cases "lbo_Sticky (lb_opts b)")
  case True
  obtain k1 b1 where k1: "session_of b ip' = (k1, b1)" by fastforce
  note o = session_of_ok [OF assms(1) k1]
  have v1: "lb_session b1 k = Some v" using o sessions_ok_fresh [OF assms(1,2)] assms(3) by simp
  have c: "b' = b1 \<or> (b' = b1\<lparr>lb_session := (lb_session b1)(k1 := None)\<rparr> \<and> lb_session b1 k1 = retry \<and> retry \<noteq> None)"
    using assms(5) True k1 by (auto simp: next_choose_def Let_def split: option.splits if_splits)
  show ?thesis
  proof (cases "ip' = ip")
    case True
    then have "k1 = k" using o assms(2) by (metis lb_any.inject(1) option.inject)
    with c v1 assms(4) True show ?thesis by auto
  next
    case False
    then have "k1 \<noteq> k" using sessions_ok_inj [of b1 ip' k1 ip k] o assms(2) by blast
    with c v1 show ?thesis by auto
  qed
qed (use assms in \<open>simp add: next_choose_def\<close>)

lemma update_keeps_session:
  assumes "sessions_ok b" and "sm_Load (lb_sessions b) ip = Some (AnySession k)" and "lb_session b k = Some v"
    and "lbo_Sticky (lb_opts b)" and "pending_ok b (ip', retry, us, s)" and "ip' = ip \<longrightarrow> retry \<noteq> Some v"
    and "next_update us s retry b = (us', b')"
  shows "lb_session b' k = Some v \<and> (ip' = ip \<longrightarrow> us' = Some v \<or> us' = None)"
proof -
  obtain k1 where k1: "s = Some k1" "sm_Load (lb_sessions b) ip' = Some (AnySession k1)"
    using assms(4,5) by (auto simp: pending_ok_def)
  show ?thesis
  proof (cases "ip' = ip")
    case True
    then have "k1 = k" using k1 assms(2) by simp
    with assms(3,6,7) k1 True show ?thesis by (auto simp: next_update_def split: option.splits if_splits)
  next
    case False
    then have "k1 \<noteq> k" using sessions_ok_inj [OF assms(1) k1(2) assms(2)] by blast
    with assms(3,7) k1 False show ?thesis by (auto simp: next_update_def split: option.splits if_splits)
  qed
qed

lemma sticks_keeps:
  assumes "not_retried ip v ev" and "lb_act MinBy without ev st = Some st'" and "sticks ip v k m st"
  shows "sticks ip v k m st'"
proof -
  have ok: "lbs_ok st'" using lb_act_ok [OF assms(2)] assms(3) by (simp add: sticks_def)
  have so: "sessions_ok (ls_lb st)" using assms(3) by (simp add: sticks_def lbs_ok_def)
  show ?thesis
  proof (cases ev)
    case (NextChooses ip' retry draw)
    obtain us s b where n: "next_choose MinBy (ls_lb st) ip' retry draw = (us, s, b)"
      by (cases "next_choose MinBy (ls_lb st) ip' retry draw")
    have st': "st' = st\<lparr>ls_lb := b, ls_pending := ls_pending st @ [(ip', retry, us, s)]\<rparr>"
      using assms(2) NextChooses n by simp
    have "lb_session b k = Some v"
      using choose_keeps_session [OF so _ _ _ n] assms(1,3) NextChooses by (auto simp: sticks_def)
    then show ?thesis
      using assms(1,3) ok NextChooses next_choose_frame [OF n] next_choose_ok [OF so n]
      by (auto simp: sticks_def st')
  next
    case (NextUpdates i)
    obtain ip' retry us s where p: "i < length (ls_pending st)" "ls_pending st ! i = (ip', retry, us, s)"
      using assms(2) NextUpdates by (cases "ls_pending st ! i") (auto split: if_splits)
    obtain us' b where n: "next_update us s retry (ls_lb st) = (us', b)" by fastforce
    have st': "st' = st\<lparr>ls_lb := b, ls_pending := take i (ls_pending st) @ drop (Suc i) (ls_pending st),
                 ls_results := ls_results st @ [(ip', us')]\<rparr>"
      using assms(2) NextUpdates p n by simp
    have mem: "(ip', retry, us, s) \<in> set (ls_pending st)" using p nth_mem by metis
    then have "pending_ok (ls_lb st) (ip', retry, us, s)" "ip' = ip \<longrightarrow> retry \<noteq> Some v"
      using assms(3) by (auto simp: sticks_def lbs_ok_def)
    from update_keeps_session [OF so _ _ _ this n]
    have u: "lb_session b k = Some v" "ip' = ip \<longrightarrow> us' = Some v \<or> us' = None"
      using assms(3) by (auto simp: sticks_def)
    have sub: "set (ls_pending st') \<subseteq> set (ls_pending st)"
      by (auto simp: st' dest: in_set_takeD in_set_dropD)
    have "(ip, Some v, us, s) \<notin> set (ls_pending st')" for us s
      using assms(3) sub unfolding sticks_def by blast
    moreover have "drop m (ls_results st') = drop m (ls_results st) @ [(ip', us')]"
      using assms(3) by (simp add: sticks_def st')
    ultimately show ?thesis
      using assms(3) ok u next_update_frame [OF n] unfolding sticks_def by (auto simp: st')
  next
    case (Removes u)
    then have st': "st' = st\<lparr>ls_lb := RemoveUpstream without (ls_lb st) u\<rparr>" using assms(2) by simp
    have "lb_opts (RemoveUpstream without (ls_lb st) u) = lb_opts (ls_lb st)"
      "lb_session (RemoveUpstream without (ls_lb st) u) = lb_session (ls_lb st)"
      by (simp_all add: RemoveUpstream_def)
    then show ?thesis
      using assms(3) ok RemoveUpstream_sessions [OF so, of without u] unfolding sticks_def by (simp add: st')
  qed (use assms ok in \<open>auto simp: sticks_def AddUpstream_def\<close>)
qed

interpretation sticky: guarded_system "lb_act MinBy without" "not_retried ip v" "sticks ip v k m"
  for MinBy without ip v k m
  by unfold_locales (rule sticks_keeps)

interpretation balancer: guarded_system "lb_act MinBy without" "\<lambda>_. True" lbs_ok for MinBy without
  by unfold_locales (rule lb_act_ok)

text \<open>
  C35. Sticky sessions agree however requests interleave: once the session of a client holds an
  upstream \<open>v\<close>, and unless a request of this client retries away from \<open>v\<close>, every call of \<open>Next\<close>
  for the client that finishes afterwards returns \<open>v\<close> (or nothing, where it had found no upstream
  before), also when it had chosen another one concurrently, and the session keeps \<open>v\<close>.
\<close>

theorem sticky_agreement:
  assumes "exec (lb_act MinBy without) es (lb_start opt) = Some st" and "lbo_Sticky opt"
    and "sm_Load (lb_sessions (ls_lb st)) ip = Some (AnySession k)" and "lb_session (ls_lb st) k = Some v"
    and "\<forall>us s. (ip, Some v, us, s) \<notin> set (ls_pending st)"
    and "exec (lb_act MinBy without) fs st = Some st'" and "\<forall>ev \<in> set fs. not_retried ip v ev"
    and "(ip, r) \<in> set (drop (length (ls_results st)) (ls_results st'))"
  shows "(r = Some v \<or> r = None) \<and> lb_session (ls_lb st') k = Some v"
proof -
  have "lbs_ok (lb_start opt) \<and> lb_opts (ls_lb (lb_start opt)) = opt"
    by (simp add: lbs_ok_def lb_start_def NewLoadBalancer_def sessions_ok_def sm_Load_def)
  moreover have "lb_opts (ls_lb st) = lb_opts (ls_lb st0)" if "exec (lb_act MinBy without) es st0 = Some st" for st0
    using that
  proof (induction es arbitrary: st0)
    case (Cons ev es)
    then obtain st1 where "lb_act MinBy without ev st0 = Some st1" "exec (lb_act MinBy without) es st1 = Some st"
      by (auto split: option.splits)
    moreover from this(1) have "lb_opts (ls_lb st1) = lb_opts (ls_lb st0)"
      by (cases ev) (auto simp: AddUpstream_def RemoveUpstream_def Let_def dest: next_choose_frame next_update_frame
          split: prod.splits if_splits)
    ultimately show ?case using Cons.IH by simp
  qed simp
  ultimately have "sticks ip v k (length (ls_results st)) st"
    using balancer.exec_keeps [OF assms(1)] assms(1-5) by (auto simp: sticks_def)
  from sticky.exec_keeps [OF assms(6,7) this] assms(8) show ?thesis by (auto simp: sticks_def)
qed

definition sticky_opts :: lb_options where
  "sticky_opts = \<lparr>lbo_Host = [], lbo_Listen = [], lbo_Sticky = True, lbo_Method = ''random'', lbo_RetryMax = 3, lbo_RetryBackoff = 0\<rparr>"

text \<open>Two first requests of one client choose different upstreams; the first to update wins.\<close>

theorem sticky_agreement_witness:
  "\<exists>st st'. exec (lb_act min_fold (\<lambda>us u. filter (\<lambda>x. x \<noteq> u) us))
        [Adds 7, Adds 8, NextChooses ''c'' None 0, NextChooses ''c'' None 1, NextUpdates 1] (lb_start sticky_opts) = Some st
     \<and> ls_pending st = [(''c'', None, Some 7, Some 0)]
     \<and> exec (lb_act min_fold (\<lambda>us u. filter (\<lambda>x. x \<noteq> u) us)) [NextUpdates 0] st = Some st'
     \<and> ls_results st' = [(''c'', Some 8), (''c'', Some 8)]"
proof -
  let ?act = "lb_act min_fold (\<lambda>us u. filter (\<lambda>x. x \<noteq> u) us)"
  obtain st where st: "exec ?act [Adds 7, Adds 8, NextChooses ''c'' None 0, NextChooses ''c'' None 1, NextUpdates 1] (lb_start sticky_opts) = Some st"
    "ls_pending st = [(''c'', None, Some 7, Some 0)]" "ls_results st = [(''c'', Some 8)]"
    "sm_Load (lb_sessions (ls_lb st)) ''c'' = Some (AnySession 0)" "lb_session (ls_lb st) 0 = Some 8"
    by (simp add: lb_start_def sticky_opts_def NewLoadBalancer_def AddUpstream_def next_choose_def session_of_def sm_laws
        sm_Load_def choose_upstream_def next_update_def sm_Store_def)
  obtain st' r where st': "exec ?act [NextUpdates 0] st = Some st'" "ls_results st' = [(''c'', Some 8), (''c'', Some r)]"
    using st by (auto simp: next_update_def)
  have "Some r = Some 8 \<or> Some r = None"
    using sticky_agreement [OF st(1) _ st(4,5) _ st'(1), of "Some r"] st(2,3) st'(2)
    by (auto simp: sticky_opts_def)
  with st st' show ?thesis by auto
qed

text \<open>
  Removing an upstream does not end the sessions that stick to it: the test that should find
  them compares the session with the upstream, which are never equal. A client whose session holds
  the removed upstream is sent to it still, however many others there are.
\<close>

theorem removed_upstream_still_used:
  assumes "lbo_Sticky (lb_opts b)" and "sm_Load (lb_sessions b) ip = Some (AnySession k)" and "lb_session b k = Some u"
    and "retry \<noteq> Some u"
  shows "fst (lb_Next MinBy (RemoveUpstream without b u) ip retry draw) = Some u"
  using assms by (simp add: lb_Next_def RemoveUpstream_def next_choose_def session_of_def sm_laws next_update_def)

theorem removed_upstream_still_used_witness:
  "\<exists>b. b = (NewLoadBalancer sticky_opts)\<lparr>lb_Upstreams := [7, 8], lb_sessions := [''c'' \<mapsto> AnySession 0],
         lb_session := [0 \<mapsto> 7], lb_fresh := 1\<rparr>
     \<and> lb_Upstreams (RemoveUpstream (\<lambda>us u. filter (\<lambda>x. x \<noteq> u) us) b 7) = [8]
     \<and> fst (lb_Next min_fold (RemoveUpstream (\<lambda>us u. filter (\<lambda>x. x \<noteq> u) us) b 7) ''c'' None 0) = Some 7"
  using removed_upstream_still_used [of "(NewLoadBalancer sticky_opts)\<lparr>lb_Upstreams := [7, 8],
      lb_sessions := [''c'' \<mapsto> AnySession 0], lb_session := [0 \<mapsto> 7], lb_fresh := 1\<rparr>" "''c''" 0 7 None min_fold "\<lambda>us u. filter (\<lambda>x. x \<noteq> u) us" 0]
  by (simp add: NewLoadBalancer_def sticky_opts_def sm_Load_def RemoveUpstream_def)

section \<open>Retries\<close>

lemma lb_serve_frame:
  "lb_serve MinBy proxy gone draws b rq = (resp, tried, b') \<Longrightarrow>
   lb_opts b' = lb_opts b \<and> lb_Upstreams b' = lb_Upstreams b \<and> lb_conns b' = lb_conns b
   \<and> int (length tried) \<le> max 1 (lbo_RetryMax (lb_opts b) - rq_RetryCount rq)"
proof (induction MinBy proxy gone draws b rq arbitrary: resp tried b' rule: lb_serve.induct)
  case (1 MinBy proxy gone draws b rq)
  obtain us b1 where n: "lb_Next MinBy b (rq_Ip rq) (rq_Previous rq) (draws (rq_RetryCount rq)) = (us, b1)"
    by fastforce
  note fr = lb_Next_frame [OF n]
  show ?case
  proof (cases us)
    case None
    with 1(2) n fr show ?thesis by (subst (asm) lb_serve.simps) auto
  next
    case (Some u)
    define b2 where "b2 = b1\<lparr>lb_conns := (lb_conns b1)(u := lb_conns b1 u + 1)\<rparr>"
    show ?thesis
    proof (cases "proxy (rq_RetryCount rq) = UpstreamError \<and> \<not> gone (rq_RetryCount rq)
        \<and> rq_RetryCount rq + 1 < lbo_RetryMax (lb_opts b2)")
      case True
      obtain resp2 tried2 b3 where r: "lb_serve MinBy proxy gone draws b2
          (rq\<lparr>rq_RetryCount := rq_RetryCount rq + 1, rq_Previous := Some u\<rparr>) = (resp2, tried2, b3)"
        by (metis prod_cases3)
      have IH: "lb_opts b3 = lb_opts b2 \<and> lb_Upstreams b3 = lb_Upstreams b2 \<and> lb_conns b3 = lb_conns b2
          \<and> int (length tried2) \<le> max 1 (lbo_RetryMax (lb_opts b2) - (rq_RetryCount rq + 1))"
        using 1(1) [OF refl n [symmetric] refl Some b2_def, of resp2 tried2 b3] True r by simp
      have "resp = resp2 \<and> tried = u # tried2 \<and> b' = b3\<lparr>lb_conns := (lb_conns b3)(u := lb_conns b3 u - 1)\<rparr>"
        using 1(2) n Some True [unfolded b2_def] r [unfolded b2_def] by (subst (asm) lb_serve.simps) (auto simp: Let_def)
      with IH True fr show ?thesis by (auto simp: b2_def)
    next
      case False
      then have "tried = [u] \<and> b' = b2\<lparr>lb_conns := (lb_conns b2)(u := lb_conns b2 u - 1)\<rparr>"
        using 1(2) n Some by (subst (asm) lb_serve.simps)
          (auto simp: Let_def b2_def split: proxy_result.splits if_splits)
      with fr show ?thesis by (auto simp: b2_def)
    qed
  qed
qed

text \<open>
  C37. A request leaves the connection counts and the list of upstreams as they were, and tries at
  most \<open>RetryMax\<close> upstreams (but always one): each failed attempt counts against \<open>RetryMax\<close>, the
  first one too.
\<close>

theorem request_balanced:
  assumes "ServeHTTP MinBy proxy gone draws b header remoteAddr = (resp, tried, b')"
  shows "lb_conns b' = lb_conns b \<and> lb_Upstreams b' = lb_Upstreams b
    \<and> int (length tried) \<le> max 1 (lbo_RetryMax (lb_opts b))"
  using lb_serve_frame [OF assms [unfolded ServeHTTP_def]] by simp

theorem request_balanced_witness:
  "\<exists>resp tried b'. ServeHTTP min_fold (\<lambda>_. UpstreamError) (\<lambda>_. False) nat
      ((NewLoadBalancer (sticky_opts\<lparr>lbo_Sticky := False\<rparr>))\<lparr>lb_Upstreams := [7, 8]\<rparr>) (\<lambda>_. []) ''1.2.3.4:5'' = (resp, tried, b')
    \<and> lb_conns b' = (\<lambda>_. 0) \<and> length tried \<le> 3"
proof -
  let ?b = "(NewLoadBalancer (sticky_opts\<lparr>lbo_Sticky := False\<rparr>))\<lparr>lb_Upstreams := [7, 8]\<rparr>"
  obtain resp tried b' where r: "ServeHTTP min_fold (\<lambda>_. UpstreamError) (\<lambda>_. False) nat ?b (\<lambda>_. []) ''1.2.3.4:5'' = (resp, tried, b')"
    by (metis prod_cases3)
  with request_balanced [OF r] show ?thesis by (simp add: NewLoadBalancer_def sticky_opts_def)
qed

text \<open>
  The maximum number of retries is one too few: a balancer configured with \<open>retry_max\<close> 1 answers
  a request whose first upstream fails with an error at once, without any retry.
\<close>

theorem one_retry_is_none:
  "lbo_RetryMax (lb_opts b) = 1 \<Longrightarrow> proxy 0 = UpstreamError \<Longrightarrow>
   fst (ServeHTTP MinBy proxy gone draws b header remoteAddr) = BadGateway
   \<and> length (fst (snd (ServeHTTP MinBy proxy gone draws b header remoteAddr))) \<le> 1"
  unfolding ServeHTTP_def
  by (subst (1 2) lb_serve.simps)
     (auto simp: Let_def dest!: lb_Next_frame split: prod.splits option.splits)

theorem one_retry_is_none_witness:
  "fst (ServeHTTP min_fold (\<lambda>_. UpstreamError) (\<lambda>_. False) nat
      ((NewLoadBalancer (sticky_opts\<lparr>lbo_RetryMax := 1\<rparr>))\<lparr>lb_Upstreams := [7, 8]\<rparr>) (\<lambda>_. []) ''1.2.3.4:5'') = BadGateway"
  using one_retry_is_none [of "(NewLoadBalancer (sticky_opts\<lparr>lbo_RetryMax := 1\<rparr>))\<lparr>lb_Upstreams := [7, 8]\<rparr>" "\<lambda>_. UpstreamError"
      min_fold "\<lambda>_. False" nat "\<lambda>_. []" "''1.2.3.4:5''"]
  by (simp add: NewLoadBalancer_def sticky_opts_def)

end
