(* ===== verification/Events.thy ===== *)
theory Events
  imports Sync_Map "HOL-Library.Word" "HOL-Library.Multiset"
begin

text \<open>
  \<open>pkg/events/event.go\<close>: typed events with numbered callbacks. The store of an event maps the
  numbers to the callbacks; \<open>emit\<close> starts a goroutine for every callback, or for the one that the
  iteration happens to visit first. The range over a \<open>sync.Map\<close> visits each key once in an order
  that is not specified: the order is the argument.
\<close>

record 'cb event =
  ev_nextId :: u32
  ev_store :: "u32 \<Rightarrow> 'cb option"

definition NewEvent :: "'cb event" where
  "NewEvent = \<lparr>ev_nextId = 0, ev_store = (\<lambda>_. None)\<rparr>"

definition ev_On :: "'cb event \<Rightarrow> 'cb \<Rightarrow> u32 \<times> 'cb event" where
  "ev_On e cb =
     (let n = ev_nextId e + 1 in (n, e\<lparr>ev_nextId := n, ev_store := sm_Store (ev_store e) n cb\<rparr>))"

definition ev_Off :: "'cb event \<Rightarrow> u32 \<Rightarrow> 'cb event" where
  "ev_Off e h = e\<lparr>ev_store := sm_Delete (ev_store e) h\<rparr>"

text \<open>The callbacks started, in the order of the iteration.\<close>

definition ev_emit :: "u32 list \<Rightarrow> bool \<Rightarrow> 'cb event \<Rightarrow> 'cb list" where
  "ev_emit order broadcast e =
     (let started = List.map_filter (sm_Load (ev_store e)) order in if broadcast then started else take 1 started)"

text \<open>An order a range over the store may take: every key once.\<close>

definition range_order :: "'cb event \<Rightarrow> u32 list \<Rightarrow> bool" where
  "range_order e order \<longleftrightarrow> distinct order \<and> set order = dom (ev_store e)"

text \<open>The listener: a channel of capacity eight, fed by goroutines that block while it is full.\<close>

record 'a listener =
  li_buffer :: "'a list"
  li_blocked :: "'a list"
  li_handle :: u32

definition NewListener :: "'cb event \<Rightarrow> 'cb \<Rightarrow> 'a listener \<times> 'cb event" where
  "NewListener e cb = (let (h, e) = ev_On e cb in (\<lparr>li_buffer = [], li_blocked = [], li_handle = h\<rparr>, e))"

definition li_Stop :: "'a listener \<Rightarrow> 'cb event \<Rightarrow> 'cb event" where
  "li_Stop l e = ev_Off e (li_handle l)"

definition li_send :: "'a listener \<Rightarrow> 'a \<Rightarrow> 'a listener" where
  "li_send l v = (if length (li_buffer l) < 8 then l\<lparr>li_buffer := li_buffer l @ [v]\<rparr> else l\<lparr>li_blocked := li_blocked l @ [v]\<rparr>)"

text \<open>A receive takes the oldest value; a blocked sender then gets its place.\<close>

definition li_receive :: "'a listener \<Rightarrow> ('a \<times> 'a listener) option" where
  "li_receive l =
     (case li_buffer l of
        [] \<Rightarrow> None
      | v # vs \<Rightarrow> Some (v, case li_blocked l of
            [] \<Rightarrow> l\<lparr>li_buffer := vs\<rparr>
          | b # bs \<Rightarrow> l\<lparr>li_buffer := vs @ [b], li_blocked := bs\<rparr>))"

section \<open>Registrations\<close>

text \<open>The registrations and removals of an event, up to the wrap-around of its counter.\<close>

datatype 'cb ev_op = On 'cb | Off u32

fun ev_apply :: "'cb event \<Rightarrow> 'cb ev_op list \<Rightarrow> 'cb event" where
  "ev_apply e [] = e"
| "ev_apply e (On cb # ops) = ev_apply (snd (ev_On e cb)) ops"
| "ev_apply e (Off h # ops) = ev_apply (ev_Off e h) ops"

definition ev_ok :: "nat \<Rightarrow> 'cb event \<Rightarrow> bool" where
  "ev_ok n e \<longleftrightarrow> n < 2 ^ 32 \<and> unat (ev_nextId e) = n \<and> (\<forall>h \<in> dom (ev_store e). 0 < unat h \<and> unat h \<le> n)"

lemma unat_next: "n + 1 < 2 ^ 32 \<Longrightarrow> unat (w :: u32) = n \<Longrightarrow> unat (w + 1) = n + 1"
  by (simp add: unat_word_ariths)

lemma ev_ok_On: "ev_ok n e \<Longrightarrow> n + 1 < 2 ^ 32 \<Longrightarrow> ev_ok (n + 1) (snd (ev_On e cb))"
  using unat_next [of n "ev_nextId e"]
  by (auto simp: ev_ok_def ev_On_def Let_def sm_Store_def intro: le_SucI split: if_splits)

lemma ev_ok_Off: "ev_ok n e \<Longrightarrow> ev_ok n (ev_Off e h)"
  by (auto simp: ev_ok_def ev_Off_def sm_Delete_def split: if_splits)

lemma ev_ok_apply:
  "ev_ok n e \<Longrightarrow> n + length ops < 2 ^ 32 \<Longrightarrow> \<exists>m. m \<le> n + length ops \<and> ev_ok m (ev_apply e ops)"
proof (induction ops arbitrary: n e)
  case (Cons op ops)
  show ?case
  proof (cases op)
    case (On cb)
    with Cons.IH [of "n + 1" "snd (ev_On e cb)"] Cons.prems ev_ok_On [OF Cons.prems(1), of cb] show ?thesis by simp
  next
    case (Off h)
    with Cons.IH [of n "ev_Off e h"] Cons.prems ev_ok_Off [OF Cons.prems(1), of h] show ?thesis
      by (auto intro: le_SucI)
  qed
qed auto

lemma ev_ok_fresh: "ev_ok n e \<Longrightarrow> n + 1 < 2 ^ 32 \<Longrightarrow> ev_store e (ev_nextId e + 1) = None"
  using unat_next [of n "ev_nextId e"] unfolding ev_ok_def by force

text \<open>
  After any history of fewer than \<open>2 ^ 32 - 1\<close> registrations and removals, registering a
  callback leaves every other registration alone, a broadcast starts it exactly once next to what
  it started before, and its handle removes exactly it.
\<close>

theorem event_registration:
  assumes "length ops + 1 < 2 ^ 32" and "e = ev_apply NewEvent ops" and "ev_On e cb = (h, e')"
  shows "ev_store (ev_Off e' h) = ev_store e
    \<and> (\<forall>order. range_order e' order \<longrightarrow> mset (ev_emit order True e') = add_mset cb (mset (ev_emit (filter (\<lambda>k. k \<noteq> h) order) True e))
          \<and> range_order e (filter (\<lambda>k. k \<noteq> h) order))"
proof -
  have "ev_ok 0 NewEvent" by (simp add: ev_ok_def NewEvent_def)
  then obtain m where m: "m \<le> length ops" "ev_ok m e"
    using ev_ok_apply [of 0 NewEvent ops] assms(1,2) by auto
  then have fresh: "ev_store e (ev_nextId e + 1) = None" using ev_ok_fresh assms(1) by fastforce
  have h: "h = ev_nextId e + 1" and e': "ev_store e' = (ev_store e)(h \<mapsto> cb)"
    using assms(3) by (auto simp: ev_On_def Let_def sm_Store_def)
  have "mset (ev_emit order True e') = add_mset cb (mset (ev_emit (filter (\<lambda>k. k \<noteq> h) order) True e))
      \<and> range_order e (filter (\<lambda>k. k \<noteq> h) order)" if r: "range_order e' order" for order
  proof -
    have "h \<in> set order" "distinct order" using r e' by (auto simp: range_order_def)
    then obtain a b where o: "order = a @ h # b" "h \<notin> set a" "h \<notin> set b"
      by (metis split_list distinct_append distinct.simps(2) disjoint_iff list.set_intros(1))
    have keep: "List.map_filter (sm_Load (ev_store e')) xs = List.map_filter (sm_Load (ev_store e)) xs" if "h \<notin> set xs" for xs
      using that by (induction xs) (auto simp: List.map_filter_simps e' sm_Load_def split: option.splits)
    have f: "filter (\<lambda>k. k \<noteq> h) order = a @ b" using o by (auto simp: filter_id_conv intro!: arg_cong2 [where f = append])
    have app: "List.map_filter g (xs @ ys) = List.map_filter g xs @ List.map_filter g ys" for g :: "u32 \<Rightarrow> 'a option" and xs ys
      by (simp add: List.map_filter_def)
    have "List.map_filter (sm_Load (ev_store e')) order
        = List.map_filter (sm_Load (ev_store e)) a @ cb # List.map_filter (sm_Load (ev_store e)) b"
      unfolding o(1) app using keep [OF o(2)] keep [OF o(3)] by (simp add: List.map_filter_simps e' sm_Load_def)
    then have "mset (ev_emit order True e') = add_mset cb (mset (ev_emit (a @ b) True e))"
      by (simp add: ev_emit_def app)
    moreover have "range_order e (a @ b)"
    proof -
      have "h \<notin> dom (ev_store e)" using fresh h by auto
      moreover have "insert h (set (a @ b)) = insert h (dom (ev_store e))" using r o(1) e' by (simp add: range_order_def)
      ultimately have "set (a @ b) = dom (ev_store e)" using o(2,3) by (simp add: insert_ident)
      then show ?thesis using r o(1) by (simp add: range_order_def)
    qed
    ultimately show ?thesis by (simp add: f)
  qed
  then show ?thesis using fresh by (auto simp: ev_Off_def sm_Delete_def e' h)
qed

theorem event_registration_witness:
  "\<exists>e'. ev_On (ev_apply NewEvent [On (5::nat)]) 6 = (2, e') \<and> ev_store (ev_Off e' 2) = [1 \<mapsto> 5]"
proof -
  obtain e' where e': "ev_On (ev_apply NewEvent [On (5::nat)]) 6 = (2, e')"
    by (simp add: ev_On_def NewEvent_def)
  have "ev_store (ev_apply NewEvent [On (5::nat)]) = [1 \<mapsto> 5]"
    by (simp add: ev_On_def NewEvent_def sm_Store_def)
  with event_registration [OF _ refl e'] e' show ?thesis by simp
qed

fun li_run :: "'a listener \<Rightarrow> 'a option list \<Rightarrow> 'a list \<times> 'a listener" where
  "li_run l [] = ([], l)"
| "li_run l (Some v # ops) = li_run (li_send l v) ops"
| "li_run l (None # ops) =
     (case li_receive l of
        None \<Rightarrow> li_run l ops
      | Some (v, l) \<Rightarrow> (let (vs, l) = li_run l ops in (v # vs, l)))"

definition li_content :: "'a listener \<Rightarrow> 'a list" where
  "li_content l = li_buffer l @ li_blocked l"

definition li_ok :: "'a listener \<Rightarrow> bool" where
  "li_ok l \<longleftrightarrow> length (li_buffer l) \<le> 8 \<and> (li_blocked l \<noteq> [] \<longrightarrow> length (li_buffer l) = 8)"

lemma li_send_content: "li_ok l \<Longrightarrow> li_content (li_send l v) = li_content l @ [v] \<and> li_ok (li_send l v)"
  by (auto simp: li_content_def li_send_def li_ok_def)

lemma li_receive_content:
  "li_ok l \<Longrightarrow> li_receive l = Some (v, l') \<Longrightarrow> li_content l = v # li_content l' \<and> li_ok l'"
  by (auto simp: li_content_def li_receive_def li_ok_def split: list.splits)

text \<open>
  A listener delivers in order and loses nothing: what it has received, then what is buffered,
  then what its blocked senders hold is what was sent, and a sender only blocks while the channel
  is full.
\<close>

theorem listener_fifo:
  assumes "li_run l ops = (vs, l')" and "li_ok l"
  shows "vs @ li_content l' = li_content l @ List.map_filter id ops \<and> li_ok l'"
  using assms
proof (induction l ops arbitrary: vs l' rule: li_run.induct)
  case (2 l v ops)
  from "2.IH" [of vs l'] 2(2,3) li_send_content [of l v] show ?case by (simp add: List.map_filter_simps)
next
  case (3 l ops)
  show ?case
  proof (cases "li_receive l")
    case None
    with 3 show ?thesis by (simp add: List.map_filter_simps)
  next
    case (Some x)
    obtain v l1 where x: "x = (v, l1)" by fastforce
    obtain ws l2 where r: "li_run l1 ops = (ws, l2)" by fastforce
    note c = li_receive_content [OF 3(4) Some [unfolded x]]
    have "vs = v # ws" "l' = l2" using 3(3) Some x r by auto
    with "3.IH"(2) [OF Some x [symmetric], of ws l2] r c show ?thesis by (simp add: List.map_filter_simps)
  qed
qed (simp add: List.map_filter_simps)

theorem listener_fifo_witness:
  "\<exists>vs l'. li_run \<lparr>li_buffer = [], li_blocked = [], li_handle = 1\<rparr> (map Some [1..<11] @ [None, None]) = (vs, l')
     \<and> vs @ li_content l' = [1..<11]"
proof -
  obtain vs l' where r: "li_run \<lparr>li_buffer = [], li_blocked = [], li_handle = 1\<rparr> (map Some [1..<11] @ [None, None]) = (vs, l')"
    by fastforce
  from listener_fifo [OF r] r show ?thesis
    by (simp add: li_ok_def li_content_def List.map_filter_simps upt_rec)
qed

end
