(* ===== verification/Go_Float.thy ===== *)
theory Go_Float
  imports Prelude Complex_Main "HOL-Library.Log_Nat"
begin

text \<open>
  Go's \<open>float64\<close>: the rationals of IEEE 754 binary64 with infinities and NaN, each operation
  the exact result rounded to nearest even (53-bit significand, exponents from -1074, overflow
  to an infinity). The sign of zero is not kept: no code of the repository divides by a
  negative zero or looks at a sign bit. Conversions to integers truncate; Go leaves a value
  out of range to the platform, and the model follows amd64 (\<open>CVTTSD2SQ\<close>).
\<close>

datatype f64 = Fin rat | PInf | NInf | NaN

definition ilog2 :: "rat \<Rightarrow> int" where
  "ilog2 x =
     (let (p, q) = quotient_of x; k = bitlen p - bitlen q
      in if 2 powi k \<le> x then k else k - 1)"

definition round_even :: "rat \<Rightarrow> int" where
  "round_even x =
     (let n = \<lfloor>x\<rfloor>; r = x - of_int n
      in if r < 1 / 2 then n else if r > 1 / 2 then n + 1 else if even n then n else n + 1)"

definition ulp_exp :: "rat \<Rightarrow> int" where
  "ulp_exp x = max (ilog2 x - 52) (- 1074)"

definition fl_pos :: "rat \<Rightarrow> rat" where
  "fl_pos x = of_int (round_even (x / 2 powi (ulp_exp x))) * 2 powi (ulp_exp x)"

definition fl_rat :: "rat \<Rightarrow> rat" where
  "fl_rat x = (if x = 0 then 0 else if x < 0 then - fl_pos (- x) else fl_pos x)"

definition fl :: "rat \<Rightarrow> f64" where
  "fl x = (let y = fl_rat x in if y \<ge> 2 ^ 1024 then PInf else if y \<le> - (2 ^ 1024) then NInf else Fin y)"

section \<open>Rounding\<close>

lemma powi_of_int:
  assumes "0 \<le> n"
  shows "(2 :: rat) powi n = of_int (2 ^ nat n)"
  using assms by (simp add: power_int_def)

lemma ilog2_bounds:
  assumes "0 < x"
  shows "2 powi (ilog2 x) \<le> x" and "x < 2 powi (ilog2 x + 1)"
proof -
  obtain p q where pq: "quotient_of x = (p, q)" by (cases "quotient_of x")
  have q: "0 < q" using quotient_of_denom_pos [OF pq] .
  have x: "x = of_int p / of_int q" using quotient_of_div [OF pq] .
  have p: "0 < p" using assms q by (simp add: x zero_less_divide_iff)
  let ?a = "bitlen p" and ?b = "bitlen q"
  have a1: "1 \<le> ?a" and b1: "1 \<le> ?b"
    using bitlen_bounds [OF p] bitlen_bounds [OF q] p q by (auto simp: bitlen_def floorlog_def)
  have pb: "2 ^ nat (?a - 1) \<le> p" "p < 2 ^ nat ?a" using bitlen_bounds [OF p] by auto
  have qb: "2 ^ nat (?b - 1) \<le> q" "q < 2 ^ nat ?b" using bitlen_bounds [OF q] by auto
  have P: "2 powi (?a - 1) \<le> (of_int p :: rat)" "(of_int p :: rat) < 2 powi ?a"
    using pb a1 by (simp_all only: powi_of_int of_int_le_iff of_int_less_iff)
  have Q: "2 powi (?b - 1) \<le> (of_int q :: rat)" "(of_int q :: rat) < 2 powi ?b"
    using qb b1 by (simp_all only: powi_of_int of_int_le_iff of_int_less_iff)
  have qpos: "(0 :: rat) < of_int q" using q by simp
  have "2 powi (?a - ?b - 1) * of_int q \<le> (2 powi (?a - ?b - 1) * 2 powi ?b :: rat)"
    by (rule mult_left_mono) (use Q in auto)
  also have "\<dots> = 2 powi (?a - 1)" by (simp add: power_int_add [symmetric])
  also have "\<dots> \<le> of_int p" using P by simp
  finally have lo: "2 powi (?a - ?b - 1) \<le> x" unfolding x by (simp only: pos_le_divide_eq [OF qpos])
  have "of_int p < (2 powi (?a - ?b + 1) * 2 powi (?b - 1) :: rat)"
    using P by (simp add: power_int_add [symmetric])
  also have "\<dots> \<le> 2 powi (?a - ?b + 1) * of_int q"
    by (rule mult_left_mono) (use Q in auto)
  finally have hi: "x < 2 powi (?a - ?b + 1)" unfolding x by (simp only: pos_divide_less_eq [OF qpos])
  show "2 powi (ilog2 x) \<le> x" using lo by (simp add: ilog2_def pq Let_def)
  show "x < 2 powi (ilog2 x + 1)" using hi by (simp add: ilog2_def pq Let_def)
qed

lemma powi_strict_mono: "a < b \<longleftrightarrow> (2 :: rat) powi a < 2 powi b"
  by (metis less_irrefl less_le_not_le linorder_cases one_less_numeral_iff power_int_strict_increasing semiring_norm(76))

lemma ilog2_unique:
  assumes "0 < x" and "2 powi k \<le> x" and "x < 2 powi (k + 1)"
  shows "ilog2 x = k"
proof -
  have "(2 :: rat) powi k < 2 powi (ilog2 x + 1)" "(2 :: rat) powi (ilog2 x) < 2 powi (k + 1)"
    using ilog2_bounds [OF assms(1)] assms(2,3) by linarith+
  then show ?thesis by (simp flip: powi_strict_mono)
qed

lemma ilog2_mono:
  assumes "0 < x" and "x \<le> y"
  shows "ilog2 x \<le> ilog2 y"
proof -
  have "(2 :: rat) powi (ilog2 x) < 2 powi (ilog2 y + 1)"
    using ilog2_bounds [of x] ilog2_bounds [of y] assms by linarith
  then show ?thesis by (simp flip: powi_strict_mono)
qed

lemma ulp_exp_mono: "0 < x \<Longrightarrow> x \<le> y \<Longrightarrow> ulp_exp x \<le> ulp_exp y"
  using ilog2_mono [of x y] by (simp add: ulp_exp_def)

lemma round_even_of_int [simp]: "round_even (of_int n) = n"
  by (simp add: round_even_def)

lemma round_even_mono:
  assumes "x \<le> y"
  shows "round_even x \<le> round_even y"
proof -
  have f: "\<lfloor>x\<rfloor> \<le> \<lfloor>y\<rfloor>" using assms by (rule floor_mono)
  have b: "\<lfloor>x\<rfloor> \<le> round_even x" "round_even x \<le> \<lfloor>x\<rfloor> + 1"
          "\<lfloor>y\<rfloor> \<le> round_even y" "round_even y \<le> \<lfloor>y\<rfloor> + 1"
    by (simp_all add: round_even_def Let_def)
  show ?thesis
  proof (cases "\<lfloor>x\<rfloor> = \<lfloor>y\<rfloor>")
    case True
    then show ?thesis using assms by (auto simp: round_even_def Let_def)
  next
    case False
    then show ?thesis using f b by linarith
  qed
qed

lemma round_even_sandwich:
  "of_int a \<le> x \<Longrightarrow> a \<le> round_even x" "x \<le> of_int b \<Longrightarrow> round_even x \<le> b"
  using round_even_mono [of "of_int a" x] round_even_mono [of x "of_int b"] by simp_all

lemma fl_pos_scale: "0 < (2 :: rat) powi e" "\<not> (2 :: rat) powi e < 0"
  using zero_less_power_int [of "2 :: rat" e] by (auto simp del: zero_less_power_int)

lemma fl_pos_nonneg: "0 \<le> x \<Longrightarrow> 0 \<le> fl_pos x"
  using round_even_sandwich(1) [of 0 "x / 2 powi (ulp_exp x)"] by (simp add: fl_pos_def)

text \<open>A value on the grid of its own binade is its own rounding.\<close>

lemma fl_pos_exact:
  assumes m: "0 < m" "m \<le> 2 ^ 53" and k: "- 1074 \<le> k" and x: "x = of_int m * 2 powi k"
  shows "fl_pos x = x"
proof -
  have xpos: "0 < x" using m by (simp add: x)
  have "\<exists>n :: int. x / 2 powi (ulp_exp x) = of_int n"
  proof (cases "m = 2 ^ 53")
    case True
    have "x = 2 powi (k + 53)" by (simp add: x True power_int_add)
    then have "ilog2 x = k + 53" using xpos by (intro ilog2_unique) (simp_all add: power_int_add)
    then have "ulp_exp x = k + 1" using k by (simp add: ulp_exp_def)
    then have "x / 2 powi (ulp_exp x) = of_int (2 ^ 52)"
      by (simp add: x True power_int_add)
    then show ?thesis by blast
  next
    case False
    with m have "(of_int m :: rat) < of_int (2 ^ 53)" by (subst of_int_less_iff) simp
    then have "x < 2 ^ 53 * 2 powi k" by (simp add: x)
    also have "(2 :: rat) ^ 53 * 2 powi k = 2 powi (k + 53)" by (simp add: power_int_add)
    finally have "(2 :: rat) powi (ilog2 x) < 2 powi (k + 53)"
      using ilog2_bounds(1) [OF xpos] by linarith
    then have "ilog2 x < k + 53" by (simp flip: powi_strict_mono)
    then have e: "ulp_exp x \<le> k" using k by (simp add: ulp_exp_def)
    have "x / 2 powi (ulp_exp x) = of_int m * 2 powi (k - ulp_exp x)"
      by (simp add: x power_int_diff)
    also have "\<dots> = of_int (m * 2 ^ nat (k - ulp_exp x))"
      using e by (simp add: power_int_def)
    finally show ?thesis by blast
  qed
  then obtain n :: int where n: "x / 2 powi (ulp_exp x) = of_int n" by blast
  then have "x = of_int n * 2 powi (ulp_exp x)" by (simp add: divide_eq_eq)
  then show ?thesis by (simp add: fl_pos_def n)
qed

lemma fl_pos_mono:
  assumes "0 < x" and "x \<le> y"
  shows "fl_pos x \<le> fl_pos y"
proof (cases "ulp_exp x = ulp_exp y")
  case True
  have "x / 2 powi (ulp_exp y) \<le> y / 2 powi (ulp_exp y)"
    using assms by (simp add: divide_right_mono)
  then have "round_even (x / 2 powi (ulp_exp y)) \<le> round_even (y / 2 powi (ulp_exp y))"
    by (rule round_even_mono)
  then show ?thesis by (simp add: fl_pos_def True mult_right_mono)
next
  case False
  let ?ex = "ulp_exp x" and ?ey = "ulp_exp y"
  have lt: "?ex < ?ey" using False ulp_exp_mono [OF assms] by simp
  have y: "0 < y" using assms by simp
  have ey: "?ey = ilog2 y - 52" using lt by (auto simp: ulp_exp_def max_def split: if_splits)
  have lx: "ilog2 x - 52 \<le> ?ex" by (simp add: ulp_exp_def)
  have "x < 2 powi (ilog2 x + 1)" by (rule ilog2_bounds [OF assms(1)])
  also have "\<dots> \<le> 2 powi (?ex + 53)" using lx by (intro power_int_increasing) simp_all
  also have "\<dots> = of_int (2 ^ 53) * 2 powi ?ex" by (simp add: power_int_add)
  finally have "x / 2 powi ?ex \<le> of_int (2 ^ 53)"
    by (simp add: pos_divide_le_eq)
  then have "round_even (x / 2 powi ?ex) \<le> 2 ^ 53" by (rule round_even_sandwich)
  then have "(of_int (round_even (x / 2 powi ?ex)) :: rat) \<le> of_int (2 ^ 53)"
    by (subst of_int_le_iff)
  then have "fl_pos x \<le> of_int (2 ^ 53) * 2 powi ?ex"
    unfolding fl_pos_def by (rule mult_right_mono) simp
  also have "\<dots> = 2 powi (?ex + 53)" by (simp add: power_int_add)
  also have "\<dots> \<le> 2 powi (?ey + 52)" using lt by (intro power_int_increasing) simp_all
  also have "\<dots> = of_int (2 ^ 52) * 2 powi ?ey" by (simp add: power_int_add)
  also have "\<dots> \<le> fl_pos y"
  proof -
    have "2 powi (?ey + 52) \<le> y" using ilog2_bounds(1) [OF y] by (simp add: ey)
    then have "of_int (2 ^ 52) \<le> y / 2 powi ?ey"
      by (simp add: pos_le_divide_eq power_int_add)
    then have "2 ^ 52 \<le> round_even (y / 2 powi ?ey)" by (rule round_even_sandwich)
    then have "(of_int (2 ^ 52) :: rat) \<le> of_int (round_even (y / 2 powi ?ey))"
      by (subst of_int_le_iff)
    then show ?thesis unfolding fl_pos_def by (rule mult_right_mono) simp
  qed
  finally show ?thesis .
qed

lemma fl_rat_mono: "x \<le> y \<Longrightarrow> fl_rat x \<le> fl_rat y"
  using fl_pos_mono [of x y] fl_pos_mono [of "- y" "- x"] fl_pos_nonneg [of y] fl_pos_nonneg [of "- x"]
  by (simp add: fl_rat_def) linarith?

lemma fl_rat_exact:
  assumes "\<bar>m\<bar> \<le> 2 ^ 53" and "- 1074 \<le> k"
  shows "fl_rat (of_int m * 2 powi k) = of_int m * 2 powi k"
proof -
  have sgn: "of_int m * (2 :: rat) powi k < 0 \<longleftrightarrow> m < 0" "of_int m * (2 :: rat) powi k = 0 \<longleftrightarrow> m = 0"
    using fl_pos_scale [of k] by (auto simp: mult_less_0_iff simp del: zero_less_power_int)
  consider "m = 0" | "0 < m" | "m < 0" by linarith
  then show ?thesis
  proof cases
    case 2
    then show ?thesis using fl_pos_exact [of m k] assms sgn by (simp add: fl_rat_def)
  next
    case 3
    then show ?thesis using fl_pos_exact [of "- m" k] assms sgn by (simp add: fl_rat_def)
  qed (simp add: fl_rat_def)
qed

lemma fl_rat_of_int [simp]: "\<bar>m\<bar> \<le> 2 ^ 53 \<Longrightarrow> fl_rat (of_int m) = of_int m"
  using fl_rat_exact [of m 0] by simp

lemma fl_rat_0 [simp]: "fl_rat 0 = 0"
  and fl_rat_1 [simp]: "fl_rat 1 = 1"
  and fl_rat_numeral: "numeral k \<le> (2 ^ 53 :: int) \<Longrightarrow> fl_rat (numeral k) = numeral k"
  using fl_rat_of_int [of 0] fl_rat_of_int [of 1] fl_rat_of_int [of "numeral k"] by simp_all

lemma fl_rat_half [simp]: "fl_rat (1 / 2) = 1 / 2"
  using fl_rat_exact [of 1 "- 1"] by (simp add: power_int_minus)

lemma fl_Fin:
  assumes "\<bar>x\<bar> \<le> of_int m" and "m \<le> 2 ^ 53"
  shows "fl x = Fin (fl_rat x)"
proof -
  have m: "\<bar>m\<bar> \<le> 2 ^ 53"
  proof -
    have "(0 :: rat) \<le> of_int m" using assms(1) abs_ge_zero [of x] by linarith
    then show ?thesis using assms(2) by simp
  qed
  have "fl_rat x \<le> of_int m" "of_int (- m) \<le> fl_rat x"
    using fl_rat_mono [of x "of_int m"] fl_rat_mono [of "of_int (- m)" x] assms(1) m
      fl_rat_of_int [of m] fl_rat_of_int [of "- m"] by (simp_all add: abs_le_iff)
  moreover have "(of_int m :: rat) \<le> of_int (2 ^ 53)" using assms(2) by (subst of_int_le_iff)
  moreover have "(2 :: rat) ^ 53 < 2 ^ 1024" by (rule power_strict_increasing) simp_all
  ultimately show ?thesis by (simp add: fl_def Let_def)
qed

lemma fl_of_int_exact: "\<bar>m\<bar> \<le> 2 ^ 53 \<Longrightarrow> fl (of_int m) = Fin (of_int m)"
  using fl_Fin [of "of_int m" "\<bar>m\<bar>"] by simp

lemma fl_numeral: "numeral k \<le> (2 ^ 53 :: int) \<Longrightarrow> fl (numeral k) = Fin (numeral k)"
  using fl_of_int_exact [of "numeral k"] by simp

lemma round_even_near:
  assumes "\<bar>x - of_int n\<bar> < 1 / 2"
  shows "round_even x = n"
proof -
  have "\<lfloor>x\<rfloor> = n \<or> \<lfloor>x\<rfloor> = n - 1" using assms by linarith
  then show ?thesis using assms by (auto simp: round_even_def Let_def)
qed

text \<open>The rounding of a positive value, from its binade and the nearest multiple of its unit.\<close>

lemma fl_rat_near:
  assumes "2 powi k \<le> x" and "x < 2 powi (k + 1)" and "- 1022 \<le> k" and "\<bar>x / 2 powi (k - 52) - of_int n\<bar> < 1 / 2"
  shows "fl_rat x = of_int n * 2 powi (k - 52)"
proof -
  have x: "0 < x" using assms(1) fl_pos_scale(1) [of k] by linarith
  then have "ilog2 x = k" using assms(1,2) by (rule ilog2_unique)
  then have "ulp_exp x = k - 52" using assms(3) by (simp add: ulp_exp_def)
  then show ?thesis using x round_even_near [OF assms(4)] by (simp add: fl_rat_def fl_pos_def)
qed

section \<open>The operations\<close>

definition f64_of_int :: "int \<Rightarrow> f64" where
  "f64_of_int i = fl (of_int i)"

fun f64_neg :: "f64 \<Rightarrow> f64" where
  "f64_neg (Fin x) = Fin (- x)"
| "f64_neg PInf = NInf"
| "f64_neg NInf = PInf"
| "f64_neg NaN = NaN"

fun f64_add :: "f64 \<Rightarrow> f64 \<Rightarrow> f64" where
  "f64_add (Fin x) (Fin y) = fl (x + y)"
| "f64_add NaN _ = NaN"
| "f64_add _ NaN = NaN"
| "f64_add PInf NInf = NaN"
| "f64_add NInf PInf = NaN"
| "f64_add PInf _ = PInf"
| "f64_add NInf _ = NInf"
| "f64_add _ PInf = PInf"
| "f64_add _ NInf = NInf"

definition inf_sgn :: "bool \<Rightarrow> f64" where
  "inf_sgn pos = (if pos then PInf else NInf)"

fun f64_mul :: "f64 \<Rightarrow> f64 \<Rightarrow> f64" where
  "f64_mul (Fin x) (Fin y) = fl (x * y)"
| "f64_mul NaN _ = NaN"
| "f64_mul _ NaN = NaN"
| "f64_mul (Fin x) PInf = (if x = 0 then NaN else inf_sgn (x > 0))"
| "f64_mul (Fin x) NInf = (if x = 0 then NaN else inf_sgn (x < 0))"
| "f64_mul PInf (Fin y) = (if y = 0 then NaN else inf_sgn (y > 0))"
| "f64_mul NInf (Fin y) = (if y = 0 then NaN else inf_sgn (y < 0))"
| "f64_mul PInf PInf = PInf"
| "f64_mul PInf NInf = NInf"
| "f64_mul NInf PInf = NInf"
| "f64_mul NInf NInf = PInf"

fun f64_div :: "f64 \<Rightarrow> f64 \<Rightarrow> f64" where
  "f64_div (Fin x) (Fin y) = (if y = 0 then (if x = 0 then NaN else inf_sgn (x > 0)) else fl (x / y))"
| "f64_div NaN _ = NaN"
| "f64_div _ NaN = NaN"
| "f64_div (Fin x) _ = Fin 0"
| "f64_div PInf (Fin y) = inf_sgn (y \<ge> 0)"
| "f64_div NInf (Fin y) = inf_sgn (y < 0)"
| "f64_div _ _ = NaN"

fun f64_less :: "f64 \<Rightarrow> f64 \<Rightarrow> bool" where
  "f64_less (Fin x) (Fin y) = (x < y)"
| "f64_less NaN _ = False"
| "f64_less _ NaN = False"
| "f64_less NInf y = (y \<noteq> NInf)"
| "f64_less x PInf = (x \<noteq> PInf)"
| "f64_less _ _ = False"

text \<open>The built-in \<open>min\<close> and \<open>max\<close> give NaN when an argument is NaN.\<close>

definition f64_min :: "f64 \<Rightarrow> f64 \<Rightarrow> f64" where
  "f64_min a b = (if a = NaN \<or> b = NaN then NaN else if f64_less b a then b else a)"

definition f64_max :: "f64 \<Rightarrow> f64 \<Rightarrow> f64" where
  "f64_max a b = (if a = NaN \<or> b = NaN then NaN else if f64_less a b then b else a)"

definition rat_trunc :: "rat \<Rightarrow> int" where
  "rat_trunc x = (if x < 0 then - \<lfloor>- x\<rfloor> else \<lfloor>x\<rfloor>)"

fun f64_to_int64 :: "f64 \<Rightarrow> int" where
  "f64_to_int64 (Fin x) = (let i = rat_trunc x in if int64_ok i then i else - (2 ^ 63))"
| "f64_to_int64 _ = - (2 ^ 63)"

text \<open>\<open>uint32(f)\<close> on amd64 is the low half of the conversion to \<open>int64\<close>.\<close>

definition f64_to_u32 :: "f64 \<Rightarrow> u32" where
  "f64_to_u32 f = word_of_int (f64_to_int64 f)"

end
