(* ===== verification/ArgReader.thy ===== *)
theory ArgReader
  imports Go_Strings Go_Float "HOL-Library.AList"
begin

text \<open>
  \<open>pkg/automarshal/reader.go\<close> and \<open>pkg/util/runeset.go\<close>: the reader of inline arguments. The
  reader's state is what remains of its buffer, \<open>buf[pos:]\<close>: \<open>Read\<close> takes the first rune off, and
  \<open>Unread\<close>, which the code calls only right after a successful \<open>Read\<close>, puts it back, so a reader
  that has unread is the reader before the read. Runes are characters; those above 255, which the
  code only copies, are not represented. \<open>Any\<close>, \<open>Object\<close>, \<open>Array\<close> and \<open>Assign\<close> call each other; they
  run on fuel, and \<open>rd_fuel\<close> is proved to be enough for every input. \<open>strconv.ParseFloat\<close> and the
  files that \<open>@path\<close> names are in \<open>reader_env\<close>.
\<close>

section \<open>Rune sets\<close>

type_synonym RuneSet = "char set"

definition rs_AddRune :: "RuneSet \<Rightarrow> char \<Rightarrow> RuneSet" where
  "rs_AddRune d r = insert r d"

definition rs_RemoveRune :: "RuneSet \<Rightarrow> char \<Rightarrow> RuneSet" where
  "rs_RemoveRune d r = d - {r}"

definition rs_Add :: "RuneSet \<Rightarrow> string \<Rightarrow> RuneSet" where
  "rs_Add d s = d \<union> set s"

definition rs_Remove :: "RuneSet \<Rightarrow> string \<Rightarrow> RuneSet" where
  "rs_Remove d s = d - set s"

definition NewRuneSet :: "string list \<Rightarrow> RuneSet" where
  "NewRuneSet ss = foldl rs_Add {} ss"

definition TestRune :: "RuneSet \<Rightarrow> char \<Rightarrow> bool" where
  "TestRune d c \<longleftrightarrow> c \<in> d"

definition rs_Test :: "RuneSet \<Rightarrow> string \<Rightarrow> bool" where
  "rs_Test d s \<longleftrightarrow> list_all (TestRune d) s"

definition lowers :: string where "lowers = ''abcdefghijklmnopqrstuvwxyz''"
definition uppers :: string where "uppers = ''ABCDEFGHIJKLMNOPQRSTUVWXYZ''"
definition digits :: string where "digits = ''0123456789''"

definition RunesAlpha :: RuneSet where "RunesAlpha = NewRuneSet [lowers, uppers]"
definition RunesAlphanum :: RuneSet where "RunesAlphanum = rs_Add RunesAlpha digits"
definition identifierOk :: RuneSet where "identifierOk = rs_Add RunesAlphanum ''_-:$''"
definition identifierOkFirst :: RuneSet where "identifierOkFirst = RunesAlpha"
definition numericRunes :: RuneSet where "numericRunes = NewRuneSet [''0123456789-+.eExX'']"

lemmas rune_sets = identifierOk_def identifierOkFirst_def numericRunes_def RunesAlphanum_def RunesAlpha_def
  NewRuneSet_def rs_Add_def TestRune_def lowers_def uppers_def digits_def

section \<open>Values and results\<close>

datatype jany =
    JNull
  | JBool bool
  | JStr string
  | JNum f64
  | JObj "(string \<times> jany) list"
  | JArr "jany list"

datatype rerr = RdEOF | Expected char | Unexpected char | ExpectedNumber | BadFloat | BadFile | NoFuel

record reader_env =
  env_ParseFloat :: "string \<Rightarrow> f64 option"
  env_file :: "string \<Rightarrow> (string \<times> jany) list option"

type_synonym 'a rd = "(rerr + 'a) \<times> string"

section \<open>Runes\<close>

definition rd_space :: "char \<Rightarrow> bool" where
  "rd_space c \<longleftrightarrow> c = CHR '' '' \<or> c = CHR 0x09 \<or> c = CHR 0x0A \<or> c = CHR 0x0D"

fun Skipspace :: "string \<Rightarrow> string" where
  "Skipspace [] = []"
| "Skipspace (c # r) = (if rd_space c then Skipspace r else c # r)"

fun TakeAnyN :: "RuneSet \<Rightarrow> string \<Rightarrow> string \<times> string" where
  "TakeAnyN d [] = ([], [])"
| "TakeAnyN d (c # r) = (if TestRune d c then (case TakeAnyN d r of (s, r') \<Rightarrow> (c # s, r')) else ([], c # r))"

definition TakeIf :: "char \<Rightarrow> string \<Rightarrow> bool \<times> string" where
  "TakeIf c r =
     (let r = (if c \<noteq> CHR '' '' then Skipspace r else r) in
      case r of [] \<Rightarrow> (False, []) | ch # r' \<Rightarrow> if ch = c then (True, r') else (False, r))"

definition Take :: "char \<Rightarrow> string \<Rightarrow> rerr option \<times> string" where
  "Take c r = (case TakeIf c r of (ok, r) \<Rightarrow> (if ok then None else Some (Expected c), r))"

text \<open>\<open>Quoted\<close>, with its \<open>escape\<close> flag.\<close>

fun quoted :: "char \<Rightarrow> bool \<Rightarrow> string \<Rightarrow> string rd" where
  "quoted q escape [] = (Inl RdEOF, [])"
| "quoted q True (c # r) = (case quoted q False r of (Inr s, r) \<Rightarrow> (Inr (c # s), r) | x \<Rightarrow> x)"
| "quoted q False (c # r) =
     (if c = CHR 0x5C then quoted q True r
      else if c = q then (Inr [], r)
      else (case quoted q False r of (Inr s, r) \<Rightarrow> (Inr (c # s), r) | x \<Rightarrow> x))"

definition Quoted :: "char \<Rightarrow> string \<Rightarrow> string rd" where
  "Quoted q r = quoted q False r"

definition is_quote :: "char \<Rightarrow> bool" where
  "is_quote c \<longleftrightarrow> c = CHR 0x22 \<or> c = CHR 0x27"

text \<open>\<open>Text\<close>: a quoted text, or everything up to the next quote. It never fails unquoted.\<close>

fun text_rest :: "string \<Rightarrow> string \<times> string" where
  "text_rest [] = ([], [])"
| "text_rest (c # r) = (if is_quote c then ([], c # r) else (case text_rest r of (s, r') \<Rightarrow> (c # s, r')))"

definition rd_Text :: "string \<Rightarrow> string rd" where
  "rd_Text r =
     (case Skipspace r of
        [] \<Rightarrow> (Inr [], [])
      | c # r \<Rightarrow> if is_quote c then Quoted c r else (case text_rest r of (s, r') \<Rightarrow> (Inr (c # s), r')))"

text \<open>
  \<open>ID\<close>: an identifier, read with dashes turned into underscores when \<open>tile\<close> is set. A first rune
  that is not a letter ends it with \<open>io.EOF\<close>, quotes too, so the quoted case of the code is never
  reached.
\<close>

fun id_rest :: "bool \<Rightarrow> string \<Rightarrow> string \<times> string" where
  "id_rest tile [] = ([], [])"
| "id_rest tile (c # r) =
     (if \<not> TestRune identifierOk c then ([], c # r)
      else (case id_rest tile r of (s, r') \<Rightarrow> ((if tile \<and> c = CHR ''-'' then CHR ''_'' else c) # s, r')))"

definition rd_ID :: "bool \<Rightarrow> string \<Rightarrow> string rd" where
  "rd_ID tile r =
     (case Skipspace r of
        [] \<Rightarrow> (Inl RdEOF, [])
      | c # r' \<Rightarrow>
          if \<not> TestRune identifierOkFirst c then (Inl RdEOF, c # r')
          else (case id_rest tile r' of (s, r'') \<Rightarrow> (Inr (c # s), r'')))"

text \<open>\<open>TakePath\<close>: \<open>Peek\<close> leaves an opening quote in place, where \<open>Quoted\<close> then reads it.\<close>

fun path_rest :: "string \<Rightarrow> string rd" where
  "path_rest [] = (Inl RdEOF, [])"
| "path_rest (c # r) =
     (if c = CHR '' '' then (Inr [], c # r)
      else (case path_rest r of (Inr s, r) \<Rightarrow> (Inr (c # s), r) | x \<Rightarrow> x))"

definition TakePath :: "string \<Rightarrow> string rd" where
  "TakePath r =
     (let r = Skipspace r in
      case r of [] \<Rightarrow> path_rest r | c # _ \<Rightarrow> if is_quote c then Quoted c r else path_rest r)"

definition TakeFile :: "reader_env \<Rightarrow> string \<Rightarrow> (string \<times> jany) list rd" where
  "TakeFile env r =
     (case TakePath r of
        (Inl e, r) \<Rightarrow> (Inl e, r)
      | (Inr file, r) \<Rightarrow> (case env_file env file of None \<Rightarrow> (Inl BadFile, r) | Some m \<Rightarrow> (Inr m, r)))"

definition rd_Number :: "reader_env \<Rightarrow> string \<Rightarrow> f64 rd" where
  "rd_Number env r =
     (case TakeAnyN numericRunes r of
        (s, r) \<Rightarrow>
          if s = [] then (Inl ExpectedNumber, r)
          else (case env_ParseFloat env s of None \<Rightarrow> (Inl BadFloat, r) | Some f \<Rightarrow> (Inr f, r)))"

section \<open>Values\<close>

fun map_rd :: "('a \<Rightarrow> 'b) \<Rightarrow> 'a rd \<Rightarrow> 'b rd" where
  "map_rd f (Inl e, r) = (Inl e, r)"
| "map_rd f (Inr x, r) = (Inr (f x), r)"

definition number_start :: "char \<Rightarrow> bool" where
  "number_start c \<longleftrightarrow> c \<in> set ''-+.0123456789''"

text \<open>The early return on an error.\<close>

definition bind_rd :: "'a rd \<Rightarrow> ('a \<Rightarrow> string \<Rightarrow> 'b rd) \<Rightarrow> 'b rd" where
  "bind_rd x f = (case fst x of Inl e \<Rightarrow> (Inl e, snd x) | Inr v \<Rightarrow> f v (snd x))"

lemma bind_rd_cong [fundef_cong]:
  "x = y \<Longrightarrow> (\<And>v r. y = (Inr v, r) \<Longrightarrow> f v r = g v r) \<Longrightarrow> bind_rd x f = bind_rd y g"
  by (cases y) (simp add: bind_rd_def split: sum.splits)

function (sequential) rd_Any :: "reader_env \<Rightarrow> nat \<Rightarrow> string \<Rightarrow> jany rd"
  and rd_Object :: "reader_env \<Rightarrow> nat \<Rightarrow> string \<Rightarrow> (string \<times> jany) list rd"
  and object_loop :: "reader_env \<Rightarrow> nat \<Rightarrow> (string \<times> jany) list \<Rightarrow> string \<Rightarrow> (string \<times> jany) list rd"
  and array_loop :: "reader_env \<Rightarrow> nat \<Rightarrow> jany list \<Rightarrow> string \<Rightarrow> jany list rd"
  and rd_Assign :: "reader_env \<Rightarrow> nat \<Rightarrow> char \<Rightarrow> string \<Rightarrow> jany rd" where
  "rd_Any env 0 r = (Inl NoFuel, r)"
| "rd_Any env (Suc n) r =
     (case Skipspace r of
        [] \<Rightarrow> (Inl RdEOF, [])
      | c # r' \<Rightarrow>
          if c = CHR ''{'' then map_rd JObj (rd_Object env n r')
          else if c = CHR ''['' then map_rd JArr (array_loop env n [] r')
          else if is_quote c then map_rd JStr (Quoted c r')
          else if number_start c then map_rd JNum (rd_Number env (c # r'))
          else if TestRune identifierOkFirst c then map_rd JStr (rd_ID False (c # r'))
          else (Inl (Unexpected c), r'))"
| "rd_Object env 0 r = (Inl NoFuel, r)"
| "rd_Object env (Suc n) r =
     (let (ok, r) = TakeIf (CHR ''@'') r in
      if ok then bind_rd (TakeFile env r) (\<lambda>res r. object_loop env n res r) else object_loop env n [] r)"
| "object_loop env 0 res r = (Inl NoFuel, r)"
| "object_loop env (Suc n) res r =
     (let (ok, r) = TakeIf (CHR ''}'') r in
      if ok then (Inr res, r)
      else bind_rd (rd_ID True r) (\<lambda>key r. bind_rd (rd_Assign env n (CHR '':'') r) (\<lambda>v r.
             object_loop env n (AList.update key v res) r)))"
| "array_loop env 0 res r = (Inl NoFuel, r)"
| "array_loop env (Suc n) res r =
     (case Skipspace r of
        [] \<Rightarrow> (Inl RdEOF, [])
      | c # r' \<Rightarrow>
          if c = CHR '']'' then (Inr res, r')
          else bind_rd (rd_Any env n (c # r')) (\<lambda>v r. array_loop env n (res @ [v]) r))"
| "rd_Assign env 0 k r = (Inl NoFuel, r)"
| "rd_Assign env (Suc n) k r =
     (let (err, r) = Take k (Skipspace r) in
      case err of None \<Rightarrow> rd_Any env n r | Some e \<Rightarrow> (if e = RdEOF then Inr (JBool True) else Inl e, r))"
  by pat_completeness auto
termination by (relation "measure (\<lambda>x. case x of
    Inl (Inl (env, n, r)) \<Rightarrow> n | Inl (Inr (env, n, r)) \<Rightarrow> n
  | Inr (Inl (env, n, res, r)) \<Rightarrow> n | Inr (Inr (Inl (env, n, res, r))) \<Rightarrow> n | Inr (Inr (Inr (env, n, k, r))) \<Rightarrow> n)") simp_all

section \<open>Argument lists\<close>

definition rd_fuel :: "string \<Rightarrow> nat" where
  "rd_fuel r = 4 * length r + 4"

text \<open>The loop of \<open>Set\<close>, one turn per argument, past its one or two dashes.\<close>

definition past_dashes :: "string \<Rightarrow> string" where
  "past_dashes r = (case TakeIf (CHR ''-'') r of (True, r) \<Rightarrow> snd (TakeIf (CHR ''-'') r) | (False, r) \<Rightarrow> r)"

fun set_loop :: "reader_env \<Rightarrow> nat \<Rightarrow> (string \<times> jany) list \<Rightarrow> string \<Rightarrow> (string \<times> jany) list rd" where
  "set_loop env 0 res r = (Inl NoFuel, r)"
| "set_loop env (Suc n) res r =
     (case rd_ID True (past_dashes r) of
        (Inl e, r) \<Rightarrow> (if e = RdEOF then Inr res else Inl e, r)
      | (Inr key, r) \<Rightarrow>
          (case rd_Assign env n (CHR ''='') r of
             (Inr v, r) \<Rightarrow> set_loop env n (AList.update key v res) r
           | (Inl e, r) \<Rightarrow>
               if e = RdEOF
               then let res = AList.update key (JBool True) res in
                 (Inr (if map_of res ''args'' \<in> {None, Some JNull} then AList.update ''args'' (JArr [JStr key]) res else res), r)
               else (Inl e, r)))"

definition rd_Set :: "reader_env \<Rightarrow> string \<Rightarrow> (string \<times> jany) list rd" where
  "rd_Set env r =
     (case TakeIf (CHR ''@'') r of
        (True, r) \<Rightarrow> TakeFile env r
      | (False, r) \<Rightarrow>
          (case TakeIf (CHR ''{'') r of
             (True, r) \<Rightarrow> rd_Object env (rd_fuel r) r
           | (False, r) \<Rightarrow> set_loop env (rd_fuel r) [] r))"

text \<open>\<open>ArglistToJson\<close>, before the printing of the map as JSON.\<close>

definition ArglistToJson :: "reader_env \<Rightarrow> string \<Rightarrow> rerr + (string \<times> jany) list" where
  "ArglistToJson env args = fst (rd_Set env args)"

named_theorems rd_len

lemma Skipspace_length [rd_len]: "length (Skipspace r) \<le> length r"
  by (induction r) auto

lemma quoted_length: "length (snd (quoted q e r)) \<le> length r"
  by (induction q e r rule: quoted.induct) (auto split: sum.splits prod.splits)

lemma text_rest_length: "text_rest r = (s, r') \<Longrightarrow> length r' \<le> length r"
  by (induction r arbitrary: s r') (fastforce split: if_splits prod.splits)+

lemma rd_Text_shorter:
  assumes "rd_Text r = (x, r')" and "r \<noteq> []"
  shows "length r' < length r"
proof (cases "Skipspace r")
  case (Cons c s)
  then have "length s < length r" using Skipspace_length [of r] by simp
  with Cons assms(1) show ?thesis
    using quoted_length [of c False s] text_rest_length [of s]
    by (fastforce simp: rd_Text_def Quoted_def split: if_splits prod.splits)
qed (use assms in \<open>simp add: rd_Text_def\<close>)

function rd_Texts :: "string list \<Rightarrow> string \<Rightarrow> rerr option \<times> string list" where
  "rd_Texts acc r =
     (if r = [] then (None, acc)
      else case rd_Text r of (Inl e, r') \<Rightarrow> (Some e, acc) | (Inr v, r') \<Rightarrow> rd_Texts (acc @ [v]) r')"
  by pat_completeness auto
termination
  by (relation "measure (\<lambda>(acc, r). length r)") (simp_all, metis rd_Text_shorter)

declare rd_Texts.simps [simp del]

text \<open>
  \<open>Unmarshal\<close>, by the type of its target: nothing, a reader, the text that remains, its bytes, a list
  of texts, or anything else, into which \<open>decode\<close> (\<open>json.Marshal\<close> followed by \<open>json.Unmarshal\<close>) puts the
  arguments. The deferred function turns an \<open>io.EOF\<close> from anywhere into success.
\<close>

datatype 'a arg_target = TUnit | TReader string | TString string | TBytes string | TTexts "string list" | TOther 'a

definition rd_Unmarshal :: "reader_env \<Rightarrow> ((string \<times> jany) list \<Rightarrow> 'a \<Rightarrow> rerr option \<times> 'a) \<Rightarrow> 'a arg_target \<Rightarrow> string
    \<Rightarrow> rerr option \<times> 'a arg_target" where
  "rd_Unmarshal env decode arg r =
     (let (e, arg') =
        (case arg of
           TUnit \<Rightarrow> (None, TUnit)
         | TReader _ \<Rightarrow> (None, TReader r)
         | TString _ \<Rightarrow> (None, TString r)
         | TBytes _ \<Rightarrow> (None, TBytes r)
         | TTexts _ \<Rightarrow> (case rd_Texts [] r of (e, xs) \<Rightarrow> (e, TTexts xs))
         | TOther x \<Rightarrow>
             (case fst (rd_Set env r) of
                Inl e \<Rightarrow> (Some e, arg)
              | Inr m \<Rightarrow> (case decode m x of (e, x') \<Rightarrow> (e, TOther x'))))
      in (if e = Some RdEOF then None else e, arg'))"

section \<open>Lengths and fuel\<close>

declare rd_Any.simps [simp del] rd_Object.simps [simp del] object_loop.simps [simp del]
  array_loop.simps [simp del] rd_Assign.simps [simp del] set_loop.simps [simp del]

lemma TakeAnyN_length: "TakeAnyN d r = (s, r') \<Longrightarrow> length s + length r' = length r"
  by (induction d r arbitrary: s r' rule: TakeAnyN.induct) (auto split: prod.splits if_splits)

lemma TakeIf_length: "TakeIf c r = (ok, r') \<Longrightarrow> length r' + of_bool ok \<le> length r"
  using Skipspace_length [of r]
  by (auto simp: TakeIf_def Let_def split: list.splits if_splits intro: Skipspace_length)

lemma Quoted_length [rd_len]: "length (snd (Quoted q r)) \<le> length r"
  by (simp add: Quoted_def quoted_length)

lemma id_rest_length: "length (snd (id_rest tile r)) \<le> length r"
  by (induction tile r rule: id_rest.induct) (auto split: prod.splits)

lemma rd_ID_length: "rd_ID tile r = (x, r') \<Longrightarrow> length r' + of_bool (\<exists>v. x = Inr v) \<le> length r"
  using Skipspace_length [of r] id_rest_length [of tile "tl (Skipspace r)"]
  by (auto simp: rd_ID_def split: list.splits if_splits prod.splits intro: Skipspace_length)

lemma path_rest_length: "length (snd (path_rest r)) \<le> length r"
  by (induction r rule: path_rest.induct) (auto split: prod.splits sum.splits)

lemma TakePath_length: "length (snd (TakePath r)) \<le> length r"
  using Skipspace_length [of r] path_rest_length [of "Skipspace r"] Quoted_length [of _ "Skipspace r"]
  by (auto simp: TakePath_def Let_def split: list.splits intro: le_trans)

lemma TakeFile_length [rd_len]: "length (snd (TakeFile env r)) \<le> length r"
  using TakePath_length [of r]
  by (auto simp: TakeFile_def split: prod.splits sum.splits option.splits)

lemma rd_Number_length: "rd_Number env r = (x, r') \<Longrightarrow> length r' + of_bool (\<exists>v. x = Inr v) \<le> length r"
  using TakeAnyN_length [of numericRunes r]
  by (fastforce simp: rd_Number_def neq_Nil_conv split: prod.splits option.splits if_splits)

lemma quoted_no_fuel [simp]: "fst (Quoted q r) \<noteq> Inl NoFuel"
proof -
  have "fst (quoted q e r) \<noteq> Inl NoFuel" for e
    by (induction q e r rule: quoted.induct) (auto split: sum.splits prod.splits)
  then show ?thesis by (simp add: Quoted_def)
qed

lemma rd_ID_no_fuel [simp]: "fst (rd_ID tile r) \<noteq> Inl NoFuel"
  by (auto simp: rd_ID_def split: list.splits prod.splits)

lemma TakeFile_no_fuel [simp]: "fst (TakeFile env r) \<noteq> Inl NoFuel"
proof -
  have "fst (path_rest s) \<noteq> Inl NoFuel" for s
    by (induction s rule: path_rest.induct) (auto split: prod.splits sum.splits)
  then have "fst (TakePath r) \<noteq> Inl NoFuel"
    by (simp add: TakePath_def Let_def split: list.splits)
  then show ?thesis by (auto simp: TakeFile_def split: prod.splits sum.splits option.splits)
qed

lemma rd_Number_no_fuel [simp]: "fst (rd_Number env r) \<noteq> Inl NoFuel"
  by (auto simp: rd_Number_def split: prod.splits option.splits)

lemma map_rd_rest [simp]: "snd (map_rd f x) = snd x"
  by (cases "(f, x)" rule: map_rd.cases) simp_all

lemma map_rd_NoFuel [simp]: "fst (map_rd f x) = Inl e \<longleftrightarrow> fst x = Inl e"
  by (cases "(f, x)" rule: map_rd.cases) simp_all

lemma bind_rd_simps [simp]:
  "bind_rd (Inl e, r) f = (Inl e, r)"
  "bind_rd (Inr v, r) f = f v r"
  by (simp_all add: bind_rd_def)

text \<open>
  What every reader keeps: it moves forward only (a value takes at least one rune), and with fuel for
  its input it does not run out. \<open>forward n\<close> and \<open>enough n\<close> say so of the five readers at fuel \<open>n\<close>.
\<close>

definition forward :: "reader_env \<Rightarrow> nat \<Rightarrow> bool" where
  "forward env n \<longleftrightarrow>
     (\<forall>r. length (snd (rd_Any env n r)) + of_bool (\<exists>v. fst (rd_Any env n r) = Inr v) \<le> length r) \<and>
     (\<forall>r. length (snd (rd_Object env n r)) \<le> length r) \<and>
     (\<forall>res r. length (snd (object_loop env n res r)) \<le> length r) \<and>
     (\<forall>res r. length (snd (array_loop env n res r)) \<le> length r) \<and>
     (\<forall>k r. length (snd (rd_Assign env n k r)) \<le> length r)"

definition enough :: "reader_env \<Rightarrow> nat \<Rightarrow> bool" where
  "enough env n \<longleftrightarrow>
     (\<forall>r. 4 * length r + 1 \<le> n \<longrightarrow> fst (rd_Any env n r) \<noteq> Inl NoFuel) \<and>
     (\<forall>r. 4 * length r + 2 \<le> n \<longrightarrow> fst (rd_Object env n r) \<noteq> Inl NoFuel) \<and>
     (\<forall>res r. 4 * length r + 1 \<le> n \<longrightarrow> fst (object_loop env n res r) \<noteq> Inl NoFuel) \<and>
     (\<forall>res r. 4 * length r + 2 \<le> n \<longrightarrow> fst (array_loop env n res r) \<noteq> Inl NoFuel) \<and>
     (\<forall>k r. 4 * length r + 1 \<le> n \<longrightarrow> fst (rd_Assign env n k r) \<noteq> Inl NoFuel)"

lemma map_rd_Inr [simp]: "(\<exists>v. fst (map_rd f x) = Inr v) \<longleftrightarrow> (\<exists>v. fst x = Inr v)"
  by (cases "(f, x)" rule: map_rd.cases) simp_all

lemma forward_Any:
  assumes "forward env n"
  shows "length (snd (rd_Any env (Suc n) r)) + of_bool (\<exists>v. fst (rd_Any env (Suc n) r) = Inr v) \<le> length r"
proof (cases "Skipspace r")
  case (Cons c s)
  then have l: "Suc (length s) \<le> length r" using Skipspace_length [of r] by simp
  have N: "length (snd (rd_Number env (c # s))) + of_bool (\<exists>v. fst (rd_Number env (c # s)) = Inr v) \<le> Suc (length s)"
    using rd_Number_length [of env "c # s"] by (metis length_Cons prod.exhaust_sel)
  have I: "length (snd (rd_ID False (c # s))) + of_bool (\<exists>v. fst (rd_ID False (c # s)) = Inr v) \<le> Suc (length s)"
    using rd_ID_length [of False "c # s"] by (metis length_Cons prod.exhaust_sel)
  have O: "length (snd (rd_Object env n s)) \<le> length s" "length (snd (array_loop env n [] s)) \<le> length s"
    using assms by (simp_all add: forward_def)
  have b: "of_bool P \<le> Suc 0" for P by simp
  have "length (snd (rd_Any env (Suc n) r)) + of_bool (\<exists>v. fst (rd_Any env (Suc n) r) = Inr v) \<le> Suc (length s)"
    using O N I Quoted_length [of c s] by (simp add: rd_Any.simps Cons add_mono [OF _ b, of _ "length s", simplified])
  with l show ?thesis by simp
qed (simp add: rd_Any.simps)

lemma forward_Object: "forward env n \<Longrightarrow> length (snd (rd_Object env (Suc n) r)) \<le> length r"
  using TakeFile_length [of env "snd (TakeIf (CHR ''@'') r)"] TakeIf_length [of "CHR ''@''" r]
  by (cases "TakeIf (CHR ''@'') r"; cases "TakeFile env (snd (TakeIf (CHR ''@'') r))")
    (fastforce simp: rd_Object.simps forward_def bind_rd_def split: sum.splits intro: le_trans)

lemma forward_object_loop:
  assumes "forward env n"
  shows "length (snd (object_loop env (Suc n) res r)) \<le> length r"
proof -
  obtain ok r1 where 1: "TakeIf (CHR ''}'') r = (ok, r1)" by force
  obtain x r2 where 2: "rd_ID True r1 = (x, r2)" by force
  obtain y r3 where 3: "rd_Assign env n (CHR '':'') r2 = (y, r3)" by force
  have l: "length r3 \<le> length r2" using assms 3 by (metis forward_def snd_conv)
  have m: "length r1 \<le> length r" "length r2 \<le> length r1"
    using TakeIf_length [OF 1] rd_ID_length [OF 2] by simp_all
  have "length (snd (object_loop env n res' r3)) \<le> length r3" for res' using assms by (simp add: forward_def)
  then have "length (snd (object_loop env n res' r3)) \<le> length r" for res' using l m by (meson le_trans)
  then show ?thesis
    using l m by (auto simp: object_loop.simps 1 2 3 bind_rd_def split: sum.splits)
qed

lemma forward_array_loop:
  assumes "forward env n"
  shows "length (snd (array_loop env (Suc n) res r)) \<le> length r"
proof (cases "Skipspace r")
  case (Cons c s)
  then have l: "length (c # s) \<le> length r" using Skipspace_length [of r] by simp
  obtain x r2 where 2: "rd_Any env n (c # s) = (x, r2)" by force
  have "length r2 \<le> length (c # s)" using assms 2 by (metis forward_def add_leE snd_conv)
  moreover have "length (snd (array_loop env n res' r2)) \<le> length r2" for res' using assms by (simp add: forward_def)
  ultimately show ?thesis using l by (auto simp: array_loop.simps Cons 2 bind_rd_def split: sum.splits intro: le_trans)
qed (simp add: array_loop.simps)

lemma forward_Assign:
  assumes "forward env n"
  shows "length (snd (rd_Assign env (Suc n) k r)) \<le> length r"
proof -
  obtain ok r1 where 1: "TakeIf k (Skipspace r) = (ok, r1)" by force
  have "length (snd (rd_Any env n r1)) \<le> length r1" using assms by (metis forward_def add_leE)
  then show ?thesis
    using TakeIf_length [OF 1] Skipspace_length [of r]
    by (auto simp: rd_Assign.simps Take_def 1)
qed

lemma forward_all: "forward env n"
proof (induction n)
  case 0
  show ?case by (simp add: forward_def rd_Any.simps rd_Object.simps object_loop.simps array_loop.simps rd_Assign.simps)
next
  case (Suc n)
  show ?case
    unfolding forward_def [of env "Suc n"]
    using forward_Any [OF Suc] forward_Object [OF Suc] forward_object_loop [OF Suc] forward_array_loop [OF Suc]
      forward_Assign [OF Suc] by blast
qed

lemma rd_Any_length: "rd_Any env n r = (x, r') \<Longrightarrow> length r' + of_bool (\<exists>v. x = Inr v) \<le> length r"
  by (metis forward_all forward_def fst_conv snd_conv)

lemma rd_Assign_length: "rd_Assign env n k r = (x, r') \<Longrightarrow> length r' \<le> length r"
  by (metis forward_all forward_def snd_conv)

lemma rd_Object_length [rd_len]: "length (snd (rd_Object env n r)) \<le> length r"
  using forward_all [of env n] by (simp add: forward_def)

lemma enough_Any:
  assumes "enough env n" and "4 * length r + 1 \<le> Suc n"
  shows "fst (rd_Any env (Suc n) r) \<noteq> Inl NoFuel"
proof (cases "Skipspace r")
  case (Cons c s)
  then have l: "4 * length s + 2 \<le> n" using Skipspace_length [of r] assms(2) by simp
  then have O: "fst (rd_Object env n s) \<noteq> Inl NoFuel" "fst (array_loop env n [] s) \<noteq> Inl NoFuel"
    using assms(1) by (simp_all add: enough_def)
  show ?thesis using O by (simp add: rd_Any.simps Cons)
qed (simp add: rd_Any.simps)

lemma enough_Object:
  assumes "enough env n" and "4 * length r + 2 \<le> Suc n"
  shows "fst (rd_Object env (Suc n) r) \<noteq> Inl NoFuel"
proof -
  obtain ok r1 where 1: "TakeIf (CHR ''@'') r = (ok, r1)" by force
  obtain x r2 where 2: "TakeFile env r1 = (x, r2)" by force
  have x: "x \<noteq> Inl NoFuel" using TakeFile_no_fuel [of env r1] by (simp add: 2)
  have m: "length r1 \<le> length r" "length r2 \<le> length r1"
    using TakeIf_length [OF 1] TakeFile_length [of env r1] by (simp_all add: 2)
  have "fst (object_loop env n res s) \<noteq> Inl NoFuel" if "length s \<le> length r" for res s
    using assms that by (simp add: enough_def)
  then show ?thesis using m x by (cases x) (auto simp: rd_Object.simps 1 2)
qed

lemma enough_object_loop:
  assumes "enough env n" and "4 * length r + 1 \<le> Suc n"
  shows "fst (object_loop env (Suc n) res r) \<noteq> Inl NoFuel"
proof -
  obtain ok r1 where 1: "TakeIf (CHR ''}'') r = (ok, r1)" by force
  obtain x r2 where 2: "rd_ID True r1 = (x, r2)" by force
  obtain y r3 where 3: "rd_Assign env n (CHR '':'') r2 = (y, r3)" by force
  have x: "x \<noteq> Inl NoFuel" using rd_ID_no_fuel [of True r1] by (simp add: 2)
  have m: "length r1 \<le> length r" using TakeIf_length [OF 1] by simp
  show ?thesis
  proof (cases x)
    case (Inr key)
    then have "4 * length r2 + 1 \<le> n" using rd_ID_length [OF 2] m assms(2) by simp
    moreover from this have "4 * length r3 + 1 \<le> n" using rd_Assign_length [OF 3] by linarith
    ultimately have "y \<noteq> Inl NoFuel" "\<And>res. fst (object_loop env n res r3) \<noteq> Inl NoFuel"
      using assms(1) 3 unfolding enough_def by (metis fst_conv, blast)
    then show ?thesis by (cases y) (auto simp: object_loop.simps 1 2 3 Inr)
  qed (use x in \<open>auto simp: object_loop.simps 1 2\<close>)
qed

lemma enough_array_loop:
  assumes "enough env n" and "4 * length r + 2 \<le> Suc n"
  shows "fst (array_loop env (Suc n) res r) \<noteq> Inl NoFuel"
proof (cases "Skipspace r")
  case (Cons c s)
  then have l: "length (c # s) \<le> length r" using Skipspace_length [of r] by simp
  obtain y r2 where 2: "rd_Any env n (c # s) = (y, r2)" by force
  have "4 * length (c # s) + 1 \<le> n" using l assms(2) by linarith
  then have y: "y \<noteq> Inl NoFuel" using assms(1) 2 unfolding enough_def by (metis fst_conv)
  show ?thesis
  proof (cases y)
    case (Inr v)
    then have "4 * length r2 + 2 \<le> n" using rd_Any_length [OF 2] l assms(2) by simp
    then have "fst (array_loop env n res' r2) \<noteq> Inl NoFuel" for res' using assms(1) by (simp add: enough_def)
    then show ?thesis by (simp add: array_loop.simps Cons 2 Inr)
  qed (use y in \<open>simp add: array_loop.simps Cons 2\<close>)
qed (simp add: array_loop.simps)

lemma enough_Assign:
  assumes "enough env n" and "4 * length r + 1 \<le> Suc n"
  shows "fst (rd_Assign env (Suc n) k r) \<noteq> Inl NoFuel"
proof -
  obtain ok r1 where 1: "TakeIf k (Skipspace r) = (ok, r1)" by force
  show ?thesis
  proof (cases ok)
    case True
    then have "4 * length r1 + 1 \<le> n" using TakeIf_length [OF 1] Skipspace_length [of r] assms(2) by simp
    then show ?thesis using assms(1) by (simp add: rd_Assign.simps Take_def 1 True enough_def)
  qed (simp add: rd_Assign.simps Take_def 1)
qed

lemma enough_all: "enough env n"
proof (induction n)
  case (Suc n)
  show ?case
    unfolding enough_def [of env "Suc n"]
    using enough_Any [OF Suc] enough_Object [OF Suc] enough_object_loop [OF Suc] enough_array_loop [OF Suc]
      enough_Assign [OF Suc] by blast
qed (simp add: enough_def)

lemma rd_Assign_enough: "rd_Assign env n k r = (x, r') \<Longrightarrow> 4 * length r + 1 \<le> n \<Longrightarrow> x \<noteq> Inl NoFuel"
  using enough_all [of env n] unfolding enough_def by (metis fst_conv)

lemma past_dashes_length: "length (past_dashes r) \<le> length r"
proof -
  have "length (snd (TakeIf c s)) \<le> length s" for c s
    using TakeIf_length [of c s] by (metis add_leE prod.collapse)
  then show ?thesis by (auto simp: past_dashes_def split: prod.splits bool.splits intro: le_trans) (metis le_trans snd_conv)+
qed

lemma set_loop_enough:
  "4 * length r + 1 \<le> n \<Longrightarrow> fst (set_loop env n res r) \<noteq> Inl NoFuel \<and> length (snd (set_loop env n res r)) \<le> length r"
proof (induction n arbitrary: res r)
  case (Suc n)
  obtain x r2 where 2: "rd_ID True (past_dashes r) = (x, r2)" by force
  obtain y r3 where 3: "rd_Assign env n (CHR ''='') r2 = (y, r3)" by force
  have x: "x \<noteq> Inl NoFuel" using rd_ID_no_fuel [of True "past_dashes r"] by (simp add: 2)
  have m: "length r2 + of_bool (\<exists>v. x = Inr v) \<le> length r" "length r3 \<le> length r2"
    using rd_ID_length [OF 2] past_dashes_length [of r] rd_Assign_length [OF 3] by linarith+
  show ?case
  proof (cases x)
    case (Inr key)
    then have "4 * length r2 + 1 \<le> n" using m Suc.prems by simp
    then have "y \<noteq> Inl NoFuel" using rd_Assign_enough [OF 3] by blast
    moreover have "fst (set_loop env n res' r3) \<noteq> Inl NoFuel \<and> length (snd (set_loop env n res' r3)) \<le> length r" for res'
      using Suc.IH [of r3 res'] m \<open>4 * length r2 + 1 \<le> n\<close> by linarith
    ultimately show ?thesis using m
      by (cases y) (auto simp: set_loop.simps 2 3 Inr Let_def intro: le_trans)
  qed (use x m in \<open>auto simp: set_loop.simps 2\<close>)
qed simp

section \<open>The reader stops\<close>

text \<open>
  C12. However the input looks, the fuel of \<open>Set\<close> is enough: reading ends, with a map of arguments or
  with an error of the code, and never moves backward.
\<close>

theorem reader_terminates:
  "fst (rd_Set env r) \<noteq> Inl NoFuel \<and> length (snd (rd_Set env r)) \<le> length r"
proof -
  obtain a r1 where 1: "TakeIf (CHR ''@'') r = (a, r1)" by force
  obtain b r2 where 2: "TakeIf (CHR ''{'') r1 = (b, r2)" by force
  have m: "length r1 \<le> length r" "length r2 \<le> length r1"
    using TakeIf_length [OF 1] TakeIf_length [OF 2] by simp_all
  have "fst (rd_Object env (rd_fuel r2) r2) \<noteq> Inl NoFuel"
    using enough_all [of env "rd_fuel r2"] by (simp add: enough_def rd_fuel_def)
  moreover have "fst (set_loop env (rd_fuel r2) [] r2) \<noteq> Inl NoFuel \<and> length (snd (set_loop env (rd_fuel r2) [] r2)) \<le> length r2"
    by (rule set_loop_enough) (simp add: rd_fuel_def)
  ultimately show ?thesis
    using m TakeFile_length [of env r1] rd_Object_length [of env "rd_fuel r2" r2]
    by (cases a; cases b) (auto simp: rd_Set_def 1 2)
qed

section \<open>What is printed is read back\<close>

text \<open>The words \<open>true\<close>, \<open>false\<close> and \<open>null\<close> are identifiers, so they are read as strings.\<close>

definition show_quoted :: "string \<Rightarrow> string" where
  "show_quoted s = CHR 0x22 # concat (map (\<lambda>c. if c = CHR 0x5C \<or> c = CHR 0x22 then [CHR 0x5C, c] else [c]) s) @ [CHR 0x22]"

definition show_field :: "string \<times> string \<Rightarrow> string" where
  "show_field kv = fst kv @ '' :'' @ snd kv @ '' ''"

primrec show_any :: "(f64 \<Rightarrow> string) \<Rightarrow> jany \<Rightarrow> string" where
  "show_any sh JNull = ''null''"
| "show_any sh (JBool b) = (if b then ''true'' else ''false'')"
| "show_any sh (JStr s) = show_quoted s"
| "show_any sh (JNum f) = sh f"
| "show_any sh (JObj kvs) = ''{'' @ concat (map show_field (map (map_prod id (show_any sh)) kvs)) @ ''}''"
| "show_any sh (JArr vs) = ''['' @ concat (map (\<lambda>s. s @ '' '') (map (show_any sh) vs)) @ '']''"

definition good_key :: "string \<Rightarrow> bool" where
  "good_key k \<longleftrightarrow> k \<noteq> [] \<and> TestRune identifierOkFirst (hd k) \<and> list_all (TestRune identifierOk) k \<and> CHR ''-'' \<notin> set k"

definition good_number :: "reader_env \<Rightarrow> string \<Rightarrow> f64 \<Rightarrow> bool" where
  "good_number env s f \<longleftrightarrow>
     s \<noteq> [] \<and> number_start (hd s) \<and> list_all (TestRune numericRunes) s \<and> env_ParseFloat env s = Some f"

primrec readable :: "reader_env \<Rightarrow> (f64 \<Rightarrow> string) \<Rightarrow> jany \<Rightarrow> bool" where
  "readable env sh JNull = False"
| "readable env sh (JBool b) = False"
| "readable env sh (JStr s) = True"
| "readable env sh (JNum f) = good_number env (sh f) f"
| "readable env sh (JObj kvs) =
     (list_all (\<lambda>(k, ok). good_key k \<and> ok) (map (map_prod id (readable env sh)) kvs) \<and> distinct (map fst kvs))"
| "readable env sh (JArr vs) = list_all id (map (readable env sh) vs)"

lemma quoted_shown: "quoted (CHR 0x22) False (tl (show_quoted s) @ r) = (Inr s, r)"
  by (induction s) (auto simp: show_quoted_def)

lemma space_runes [simp]:
  "\<not> TestRune identifierOk (CHR '' '')" "\<not> TestRune numericRunes (CHR '' '')" "\<not> TestRune identifierOk (CHR ''='')"
  "rd_space (CHR '' '')"
  by (simp_all add: rune_sets rd_space_def)

lemma first_rune:
  assumes "TestRune identifierOkFirst c"
  shows "\<not> rd_space c" and "c \<notin> set ''}{[]@-+.0123456789:= ''" and "\<not> is_quote c" and "\<not> number_start c"
  using assms by (auto simp: rune_sets rd_space_def is_quote_def number_start_def)

lemma number_rune:
  assumes "number_start c"
  shows "\<not> rd_space c" and "c \<notin> set ''}{[]@''" and "\<not> is_quote c"
  using assms by (auto simp: rd_space_def is_quote_def number_start_def)

lemma id_rest_all:
  "list_all (TestRune identifierOk) k \<Longrightarrow> CHR ''-'' \<notin> set k \<Longrightarrow> \<not> TestRune identifierOk c \<Longrightarrow>
     id_rest tile (k @ c # r) = (k, c # r)"
  by (induction k) auto

lemma rd_ID_key:
  assumes "good_key k" and "\<not> TestRune identifierOk c"
  shows "rd_ID tile (k @ c # r) = (Inr k, c # r)"
proof -
  obtain a k' where k: "k = a # k'" using assms(1) by (cases k) (auto simp: good_key_def)
  then show ?thesis using assms first_rune(1) [of a] by (simp add: rd_ID_def good_key_def id_rest_all)
qed

lemma TakeAnyN_all:
  "list_all (TestRune d) s \<Longrightarrow> \<not> TestRune d c \<Longrightarrow> TakeAnyN d (s @ c # r) = (s, c # r)"
  by (induction s) auto

lemma rd_Any_number:
  assumes "good_number env s f" and "\<not> TestRune numericRunes c" and "0 < n"
  shows "rd_Any env n (s @ c # r) = (Inr (JNum f), c # r)"
proof -
  obtain a s' where s: "s = a # s'" using assms(1) by (cases s) (auto simp: good_number_def)
  have a: "number_start a" using assms(1) s by (simp add: good_number_def)
  obtain m where n: "n = Suc m" using assms(3) gr0_conv_Suc by blast
  have "rd_Number env (s @ c # r) = (Inr f, c # r)"
    using assms by (simp add: rd_Number_def TakeAnyN_all good_number_def)
  then show ?thesis using number_rune [OF a] a by (simp add: n s rd_Any.simps)
qed

lemma rd_Any_string: "0 < n \<Longrightarrow> rd_Any env n (show_quoted s @ r) = (Inr (JStr s), r)"
  using quoted_shown [of s r]
  by (cases n) (simp_all add: show_quoted_def rd_Any.simps rd_space_def is_quote_def Quoted_def)

definition reads :: "reader_env \<Rightarrow> (f64 \<Rightarrow> string) \<Rightarrow> jany \<Rightarrow> bool" where
  "reads env sh v \<longleftrightarrow>
     (\<forall>c r n. \<not> TestRune numericRunes c \<longrightarrow> 4 * length (show_any sh v @ c # r) + 1 \<le> n \<longrightarrow>
        rd_Any env n (show_any sh v @ c # r) = (Inr v, c # r))"

lemma show_any_first:
  assumes "readable env sh v"
  obtains a s where "show_any sh v = a # s" and "\<not> rd_space a" and "a \<noteq> CHR '']''"
  using assms
proof (cases v)
  case (JNum f)
  then show ?thesis using assms that number_rune [of "hd (sh f)"] by (cases "sh f") (auto simp: good_number_def)
qed (use assms that in \<open>auto simp: show_quoted_def rd_space_def\<close>)

lemma array_loop_space: "0 < n \<Longrightarrow> array_loop env n res (CHR '' '' # r) = array_loop env n res r"
  by (cases n) (simp_all add: array_loop.simps)

lemma array_loop_shown:
  "\<forall>v \<in> set vs. readable env sh v \<and> reads env sh v \<Longrightarrow>
   4 * length (concat (map (\<lambda>v. show_any sh v @ '' '') vs) @ CHR '']'' # r) + 2 \<le> n \<Longrightarrow>
   array_loop env n res (concat (map (\<lambda>v. show_any sh v @ '' '') vs) @ CHR '']'' # r) = (Inr (res @ vs), r)"
proof (induction vs arbitrary: n res)
  case Nil
  then show ?case by (cases n) (simp_all add: array_loop.simps rd_space_def)
next
  case (Cons v vs)
  define s where "s = concat (map (\<lambda>v. show_any sh v @ '' '') vs) @ CHR '']'' # r"
  obtain m where n: "n = Suc m" using Cons.prems(2) by (cases n) auto
  have v: "rd_Any env m (show_any sh v @ CHR '' '' # s) = (Inr v, CHR '' '' # s)"
    using Cons.prems by (simp add: reads_def n s_def)
  have *: "array_loop env m (res @ [v]) s = (Inr ((res @ [v]) @ vs), r)"
    unfolding s_def by (rule Cons.IH) (use Cons.prems n in auto)
  obtain a t where a: "show_any sh v = a # t" "\<not> rd_space a" "a \<noteq> CHR '']''"
    using show_any_first [of env sh v] Cons.prems(1) by auto
  have "0 < m" using Cons.prems(2) n by (cases m) auto
  then have "array_loop env (Suc m) res (show_any sh v @ CHR '' '' # s) = (Inr (res @ v # vs), r)"
    using v * a by (simp add: array_loop.simps(2) [of env m] array_loop_space)
  then show ?case by (simp add: n s_def)
qed

lemma object_loop_space: "0 < n \<Longrightarrow> object_loop env n res (CHR '' '' # r) = object_loop env n res r"
  by (cases n) (simp_all add: object_loop.simps TakeIf_def)

lemma rd_Assign_shown:
  assumes "k \<noteq> CHR '' ''" and "\<not> rd_space k" and "reads env sh v"
    and "4 * length (show_any sh v @ CHR '' '' # r) + 2 \<le> n"
  shows "rd_Assign env n k (k # show_any sh v @ CHR '' '' # r) = (Inr v, CHR '' '' # r)"
    and "rd_Assign env n k (CHR '' '' # k # show_any sh v @ CHR '' '' # r) = (Inr v, CHR '' '' # r)"
proof -
  obtain m where n: "n = Suc m" using assms(4) by (cases n) auto
  have "rd_Any env m (show_any sh v @ CHR '' '' # r) = (Inr v, CHR '' '' # r)"
    using assms by (simp add: reads_def n)
  then show "rd_Assign env n k (k # show_any sh v @ CHR '' '' # r) = (Inr v, CHR '' '' # r)"
    and "rd_Assign env n k (CHR '' '' # k # show_any sh v @ CHR '' '' # r) = (Inr v, CHR '' '' # r)"
    using assms(1,2) by (simp_all add: n rd_Assign.simps Take_def TakeIf_def)
qed

lemma update_new: "k \<notin> set (map fst kvs) \<Longrightarrow> AList.update k v kvs = kvs @ [(k, v)]"
  by (induction kvs) auto

lemma object_loop_shown:
  "\<forall>(k, v) \<in> set kvs. good_key k \<and> reads env sh v \<Longrightarrow> distinct (map fst (res @ kvs)) \<Longrightarrow>
   4 * length (concat (map (\<lambda>(k, v). k @ '' :'' @ show_any sh v @ '' '') kvs) @ CHR ''}'' # r) + 1 \<le> n \<Longrightarrow>
   object_loop env n res (concat (map (\<lambda>(k, v). k @ '' :'' @ show_any sh v @ '' '') kvs) @ CHR ''}'' # r) = (Inr (res @ kvs), r)"
proof (induction kvs arbitrary: n res)
  case Nil
  then show ?case by (cases n) (simp_all add: object_loop.simps TakeIf_def rd_space_def)
next
  case (Cons kv kvs)
  obtain k v where kv: "kv = (k, v)" by force
  define s where "s = concat (map (\<lambda>(k, v). k @ '' :'' @ show_any sh v @ '' '') kvs) @ CHR ''}'' # r"
  obtain m where n: "n = Suc m" using Cons.prems(3) by (cases n) auto
  have k: "good_key k" "reads env sh v" using Cons.prems(1) by (auto simp: kv)
  obtain a k' where a: "k = a # k'" "TestRune identifierOkFirst a" using k(1) by (cases k) (auto simp: good_key_def)
  have t: "TakeIf (CHR ''}'') (k @ x) = (False, k @ x)" for x
    using first_rune(1,2) [OF a(2)] by (simp add: TakeIf_def a(1))
  have v: "rd_Assign env m (CHR '':'') (CHR '' '' # CHR '':'' # show_any sh v @ CHR '' '' # s) = (Inr v, CHR '' '' # s)"
    using Cons.prems(3) by (intro rd_Assign_shown k) (simp_all add: n kv s_def a(1) rd_space_def)
  have *: "object_loop env m (res @ [(k, v)]) s = (Inr ((res @ [(k, v)]) @ kvs), r)"
    unfolding s_def by (rule Cons.IH) (use Cons.prems in \<open>auto simp: n kv\<close>)
  have u: "AList.update k v res = res @ [(k, v)]" using Cons.prems(2) by (simp add: kv update_new)
  have "0 < m" using Cons.prems(3) by (cases m) (auto simp: n kv a(1))
  then have "object_loop env (Suc m) res (k @ CHR '' '' # CHR '':'' # show_any sh v @ CHR '' '' # s) = (Inr (res @ (k, v) # kvs), r)"
    using v * by (simp add: object_loop.simps(2) [of env m] t rd_ID_key [OF k(1)] u object_loop_space)
  then show ?case by (simp add: n kv s_def)
qed

lemma readable_reads: "readable env sh v \<Longrightarrow> reads env sh v"
proof (induction v)
  case (JObj kvs)
  have "reads env sh v" if "(k, v) \<in> set kvs" for k v
    using JObj.IH [OF that, of v] JObj.prems that by (auto simp: list_all_iff)
  moreover have "good_key k" if "(k, v) \<in> set kvs" for k v
    using JObj.prems that by (force simp: list_all_iff)
  ultimately have kvs: "\<forall>(k, v) \<in> set kvs. good_key k \<and> reads env sh v" "distinct (map fst ([] @ kvs))"
    using JObj.prems by auto
  show ?case
    unfolding reads_def
  proof (intro allI impI)
    fix c r n
    assume n: "4 * length (show_any sh (JObj kvs) @ c # r) + 1 \<le> n"
    obtain m where m: "n = Suc (Suc m)" using n by (cases n; cases "n - 1") auto
    define s where "s = concat (map (\<lambda>(k, v). k @ '' :'' @ show_any sh v @ '' '') kvs) @ CHR ''}'' # c # r"
    have s: "show_any sh (JObj kvs) @ c # r = CHR ''{'' # s"
      by (simp add: s_def comp_def show_field_def case_prod_unfold)
    have l: "object_loop env m [] s = (Inr kvs, c # r)"
      using object_loop_shown [OF kvs, of "c # r" m] n s by (simp add: m s_def)
    have "TakeIf (CHR ''@'') s = (False, s)"
    proof (cases kvs)
      case (Cons kv kvs')
      then have "good_key (fst kv)" using kvs(1) by auto
      then show ?thesis using first_rune [of "hd (fst kv)"]
        by (cases "fst kv") (auto simp: s_def Cons TakeIf_def good_key_def case_prod_unfold)
    qed (simp add: s_def TakeIf_def rd_space_def)
    then have "rd_Object env (Suc m) s = (Inr kvs, c # r)"
      using l by (simp add: rd_Object.simps)
    then show "rd_Any env n (show_any sh (JObj kvs) @ c # r) = (Inr (JObj kvs), c # r)"
      unfolding s by (simp add: m rd_Any.simps(2) [of env "Suc m"] rd_space_def)
  qed
next
  case (JArr vs)
  then have vs: "\<forall>v \<in> set vs. readable env sh v \<and> reads env sh v" by (auto simp: list_all_iff)
  show ?case
    unfolding reads_def
  proof (intro allI impI)
    fix c r n
    assume n: "4 * length (show_any sh (JArr vs) @ c # r) + 1 \<le> n"
    obtain m where m: "n = Suc m" using n by (cases n) auto
    define s where "s = concat (map (\<lambda>v. show_any sh v @ '' '') vs) @ CHR '']'' # c # r"
    have s: "show_any sh (JArr vs) @ c # r = CHR ''['' # s" by (simp add: s_def comp_def)
    have "array_loop env m [] s = (Inr vs, c # r)"
      using array_loop_shown [OF vs, of "c # r" m] n s by (simp add: m s_def)
    then show "rd_Any env n (show_any sh (JArr vs) @ c # r) = (Inr (JArr vs), c # r)"
      unfolding s by (simp add: m rd_Any.simps rd_space_def)
  qed
qed (simp_all add: reads_def rd_Any_string rd_Any_number)


definition no_files :: "(string \<Rightarrow> f64 option) \<Rightarrow> reader_env" where
  "no_files parse = \<lparr>env_ParseFloat = parse, env_file = (\<lambda>f. None)\<rparr>"

definition sample_env :: reader_env where
  "sample_env = no_files (\<lambda>s. if s = ''12'' then Some (Fin 12) else None)"

definition sample_value :: jany where
  "sample_value = JObj [(''a'', JArr [JNum (Fin 12), JStr (CHR 0x22 # ''x'' @ [CHR 0x5C])]), (''b_1'', JObj [])]"


section \<open>Argument lists\<close>

definition show_arg :: "(f64 \<Rightarrow> string) \<Rightarrow> string \<times> jany \<Rightarrow> string" where
  "show_arg sh kv = ''--'' @ fst kv @ ''='' @ show_any sh (snd kv) @ '' ''"

lemma past_dashes_key: "good_key k \<Longrightarrow> past_dashes (k @ r) = k @ r"
  using first_rune [of "hd k"] by (cases k) (auto simp: good_key_def past_dashes_def TakeIf_def)

lemma past_dashes_space [simp]: "past_dashes (CHR '' '' # r) = past_dashes r"
  by (simp add: past_dashes_def TakeIf_def)

lemma past_two_dashes: "good_key k \<Longrightarrow> past_dashes (CHR ''-'' # CHR ''-'' # k @ r) = k @ r"
  by (simp add: past_dashes_def TakeIf_def rd_space_def)

lemma set_loop_space: "0 < n \<Longrightarrow> set_loop env n res (CHR '' '' # r) = set_loop env n res r"
  by (cases n) (simp_all add: set_loop.simps)

text \<open>The texts that are read, in front of a space, as a value.\<close>

definition word_for :: "reader_env \<Rightarrow> string \<Rightarrow> jany \<Rightarrow> bool" where
  "word_for env t v \<longleftrightarrow>
     (\<forall>r n. 4 * length (t @ CHR '' '' # r) + 1 \<le> n \<longrightarrow> rd_Any env n (t @ CHR '' '' # r) = (Inr v, CHR '' '' # r))"

definition show_flag :: "string \<times> string \<times> jany \<Rightarrow> string" where
  "show_flag f = ''--'' @ fst f @ ''='' @ fst (snd f) @ '' ''"

lemma set_loop_flags:
  "\<forall>(k, t, v) \<in> set fs. good_key k \<and> word_for env t v \<Longrightarrow> distinct (map fst res @ map fst fs) \<Longrightarrow>
   4 * length (concat (map show_flag fs)) + 1 \<le> n \<Longrightarrow>
   set_loop env n res (concat (map show_flag fs)) = (Inr (res @ map (\<lambda>(k, t, v). (k, v)) fs), [])"
proof (induction fs arbitrary: n res)
  case Nil
  then show ?case by (cases n) (simp_all add: set_loop.simps past_dashes_def TakeIf_def rd_ID_def)
next
  case (Cons f fs)
  obtain k t v where f: "f = (k, t, v)" by (cases f) auto
  define s where "s = concat (map show_flag fs)"
  have k: "good_key k" "word_for env t v" using Cons.prems(1) by (auto simp: f)
  have fuel: "4 * (length k + length t + length s + 4) + 1 \<le> n"
    using Cons.prems(3) by (simp add: f s_def) (simp add: show_flag_def [of "(k, t, v)"])
  then obtain m where m: "n = Suc (Suc m)" by (cases n; cases "n - 1") auto
  have "rd_Any env m (t @ CHR '' '' # s) = (Inr v, CHR '' '' # s)" using k(2) fuel by (simp add: word_for_def m)
  then have v: "rd_Assign env (Suc m) (CHR ''='') (CHR ''='' # t @ CHR '' '' # s) = (Inr v, CHR '' '' # s)"
    by (simp add: rd_Assign.simps Take_def TakeIf_def rd_space_def)
  have *: "set_loop env (Suc m) (res @ [(k, v)]) s = (Inr ((res @ [(k, v)]) @ map (\<lambda>(k, t, v). (k, v)) fs), [])"
    unfolding s_def by (rule Cons.IH) (use Cons.prems fuel in \<open>auto simp: m f s_def\<close>)
  have u: "AList.update k v res = res @ [(k, v)]" using Cons.prems(2) by (simp add: f update_new)
  have "set_loop env (Suc (Suc m)) res (CHR ''-'' # CHR ''-'' # k @ CHR ''='' # t @ CHR '' '' # s)
      = (Inr (res @ (k, v) # map (\<lambda>(k, t, v). (k, v)) fs), [])"
    using v * by (simp add: set_loop.simps(2) [of env "Suc m"] past_two_dashes k(1) rd_ID_key [OF k(1)] u set_loop_space)
  moreover have "show_flag f = CHR ''-'' # CHR ''-'' # k @ CHR ''='' # t @ CHR '' '' # []"
    by (simp add: f show_flag_def)
  ultimately show ?case by (simp add: m f s_def)
qed

lemma readable_word: "readable env sh v \<Longrightarrow> word_for env (show_any sh v) v"
  using readable_reads [of env sh v] by (simp add: word_for_def reads_def)

lemma set_starts:
  assumes "r = [] \<or> (\<exists>c s. r = c # s \<and> \<not> rd_space c \<and> c \<noteq> CHR ''@'' \<and> c \<noteq> CHR ''{'')"
  shows "rd_Set env r = set_loop env (rd_fuel r) [] r"
  using assms by (auto simp: rd_Set_def TakeIf_def)

lemma flags_are_read:
  assumes "\<forall>(k, t, v) \<in> set fs. good_key k \<and> word_for env t v" and "distinct (map fst fs)"
  shows "rd_Set env (concat (map show_flag fs)) = (Inr (map (\<lambda>(k, t, v). (k, v)) fs), [])"
proof -
  have "rd_Set env (concat (map show_flag fs)) = set_loop env (rd_fuel (concat (map show_flag fs))) [] (concat (map show_flag fs))"
    by (rule set_starts, cases fs) (auto simp: show_flag_def rd_space_def)
  then show ?thesis using set_loop_flags [of fs env "[]"] assms by (simp add: rd_fuel_def)
qed



section \<open>Where the reader is not what it seems\<close>

text \<open>
  A flag without a value is an error: \<open>Assign\<close> means to make it \<open>true\<close> at the end of the input, but
  \<open>Take\<close> never returns \<open>io.EOF\<close>, so the reader reports that it expected \<open>=\<close>.
\<close>

theorem flag_without_value_fails:
  assumes "good_key k"
  shows "fst (rd_Set env (''--'' @ k)) = Inl (Expected (CHR ''=''))"
proof -
  obtain a k' where k: "k = a # k'" "TestRune identifierOkFirst a" using assms by (cases k) (auto simp: good_key_def)
  have i: "id_rest True k'' = (k'', [])" if "list_all (TestRune identifierOk) k''" "CHR ''-'' \<notin> set k''" for k''
    using that by (induction k'') auto
  have "rd_ID True k = (Inr k, [])"
    using assms k first_rune(1) [of a] i [of k'] by (simp add: rd_ID_def good_key_def)
  then show ?thesis
    using past_two_dashes [OF assms, of "[]"] set_starts [of "''--'' @ k" env]
    by (simp add: rd_fuel_def set_loop.simps rd_Assign.simps Take_def TakeIf_def rd_space_def eval_nat_numeral)
qed

lemma flag_without_value_fails_witness:
  "fst (rd_Set sample_env (''--'' @ ''verbose'')) = Inl (Expected (CHR ''=''))"
  by (rule flag_without_value_fails) code_simp

text \<open>
  A JSON object is not an argument list, and is silently dropped: its first key begins with a quote,
  \<open>ID\<close> ends with \<open>io.EOF\<close>, and \<open>Unmarshal\<close> makes of it a success that leaves the target as it was.
\<close>

lemma json_object_dropped:
  "rd_Unmarshal env decode (TOther x) (CHR ''{'' # CHR 0x22 # s) = (None, TOther x)"
  by (simp add: rd_Unmarshal_def rd_Set_def TakeIf_def rd_fuel_def rd_Object.simps object_loop.simps rd_ID_def rd_space_def
      rune_sets eval_nat_numeral)

text \<open>The colon is a rune of identifiers: an object without a space before its colon is refused.\<close>

lemma object_key_eats_colon:
  "fst (rd_Any sample_env (rd_fuel ''{a:12}'') ''{a:12}'') = Inl (Expected (CHR '':''))"
  "fst (rd_Any sample_env (rd_fuel ''{a :12}'') ''{a :12}'') = Inr (JObj [(''a'', JNum (Fin 12))])"
  by code_simp+

text \<open>A quoted path is empty, since \<open>Peek\<close> leaves its opening quote to end it; a path that ends the
  input is \<open>io.EOF\<close>.\<close>

lemma paths_broken:
  "TakePath (CHR 0x22 # s) = (Inr [], s)"
  "CHR '' '' \<notin> set s \<Longrightarrow> \<forall>c \<in> set s. \<not> is_quote c \<and> \<not> rd_space c \<Longrightarrow> fst (TakePath s) = Inl RdEOF"
proof -
  show "TakePath (CHR 0x22 # s) = (Inr [], s)"
    by (simp add: TakePath_def rd_space_def is_quote_def Quoted_def)
  have "CHR '' '' \<notin> set t \<Longrightarrow> fst (path_rest t) = Inl RdEOF" for t
    by (induction t) (auto split: prod.splits sum.splits)
  then show "CHR '' '' \<notin> set s \<Longrightarrow> \<forall>c \<in> set s. \<not> is_quote c \<and> \<not> rd_space c \<Longrightarrow> fst (TakePath s) = Inl RdEOF"
    by (cases s) (simp_all add: TakePath_def Let_def del: path_rest.simps)
qed

section \<open>Printing a rune set\<close>

text \<open>\<open>String\<close>: the runes in the order \<open>order\<close> of the range over the map.\<close>

definition rs_String :: "(RuneSet \<Rightarrow> char list) \<Rightarrow> RuneSet \<Rightarrow> string" where
  "rs_String order d = concat (map (\<lambda>r. [r]) (order d))"

lemma rs_String_read: "set (order d) = d \<Longrightarrow> NewRuneSet [rs_String order d] = d"
  by (auto simp: rs_String_def NewRuneSet_def rs_Add_def)

end
