(* ===== verification/ArgTypes.thy ===== *)
theory ArgTypes
  imports ArgReader
begin

text \<open>
  The types of what \<open>pkg/automarshal/reader.go\<close> gives: the lists of keys and values that stand for the
  maps of Go have each key once.
\<close>

primrec typed_value :: "(f64 \<Rightarrow> bool) \<Rightarrow> jany \<Rightarrow> bool" where
  "typed_value N JNull = True"
| "typed_value N (JBool b) = True"
| "typed_value N (JStr s) = True"
| "typed_value N (JNum f) = N f"
| "typed_value N (JObj kvs) = (distinct (map fst kvs) \<and> list_all snd (map (map_prod id (typed_value N)) kvs))"
| "typed_value N (JArr vs) = list_all id (map (typed_value N) vs)"

definition typed_map :: "(f64 \<Rightarrow> bool) \<Rightarrow> (string \<times> jany) list \<Rightarrow> bool" where
  "typed_map N m \<longleftrightarrow> typed_value N (JObj m)"

definition typed_env :: "(f64 \<Rightarrow> bool) \<Rightarrow> reader_env \<Rightarrow> bool" where
  "typed_env N env \<longleftrightarrow>
     (\<forall>s f. env_ParseFloat env s = Some f \<longrightarrow> N f) \<and> (\<forall>file m. env_file env file = Some m \<longrightarrow> typed_map N m)"

lemma list_all_update:
  "list_all snd (map (map_prod id p) m) \<Longrightarrow> p v \<Longrightarrow> list_all snd (map (map_prod id p) (AList.update k v m))"
  by (induction m) auto

lemma typed_map_Nil [simp]: "typed_map N []"
  by (simp add: typed_map_def)

lemma typed_map_update [intro]: "typed_map N m \<Longrightarrow> typed_value N v \<Longrightarrow> typed_map N (AList.update k v m)"
  by (simp add: typed_map_def distinct_update list_all_update)

lemma TakeFile_typed: "typed_env N env \<Longrightarrow> TakeFile env r = (Inr m, r') \<Longrightarrow> typed_map N m"
  by (auto simp: TakeFile_def typed_env_def split: prod.splits sum.splits option.splits)

lemma rd_Number_typed: "typed_env N env \<Longrightarrow> rd_Number env r = (Inr f, r') \<Longrightarrow> N f"
  by (auto simp: rd_Number_def typed_env_def split: prod.splits if_splits option.splits)

lemma map_rd_eq_Inr: "map_rd f x = (Inr v, r) \<longleftrightarrow> (\<exists>w. x = (Inr w, r) \<and> v = f w)"
  by (cases "(f, x)" rule: map_rd.cases) auto

lemma bind_rd_eq_Inr: "bind_rd x f = (Inr v, r) \<longleftrightarrow> (\<exists>w s. x = (Inr w, s) \<and> f w s = (Inr v, r))"
  by (cases x) (auto simp: bind_rd_def split: sum.splits)

section \<open>The mutual recursion of the reader\<close>

definition gives_typed :: "(f64 \<Rightarrow> bool) \<Rightarrow> reader_env \<Rightarrow> nat \<Rightarrow> bool" where
  "gives_typed N env n \<longleftrightarrow>
     (\<forall>r v r'. rd_Any env n r = (Inr v, r') \<longrightarrow> typed_value N v) \<and>
     (\<forall>r m r'. rd_Object env n r = (Inr m, r') \<longrightarrow> typed_map N m) \<and>
     (\<forall>res r m r'. typed_map N res \<longrightarrow> object_loop env n res r = (Inr m, r') \<longrightarrow> typed_map N m) \<and>
     (\<forall>res r vs r'. typed_value N (JArr res) \<longrightarrow> array_loop env n res r = (Inr vs, r') \<longrightarrow> typed_value N (JArr vs)) \<and>
     (\<forall>k r v r'. rd_Assign env n k r = (Inr v, r') \<longrightarrow> typed_value N v)"

lemma gives_typedD:
  assumes "gives_typed N env n"
  shows "rd_Any env n r = (Inr v, r') \<Longrightarrow> typed_value N v"
    and "rd_Object env n r = (Inr m, r') \<Longrightarrow> typed_map N m"
    and "typed_map N res \<Longrightarrow> object_loop env n res r = (Inr m, r') \<Longrightarrow> typed_map N m"
    and "typed_value N (JArr acc) \<Longrightarrow> array_loop env n acc r = (Inr vs, r') \<Longrightarrow> typed_value N (JArr vs)"
    and "rd_Assign env n k r = (Inr v, r') \<Longrightarrow> typed_value N v"
  using assms unfolding gives_typed_def by blast+

lemma gives_typed_Any:
  assumes "typed_env N env" and "gives_typed N env n" and "rd_Any env (Suc n) r = (Inr v, r')"
  shows "typed_value N v"
proof (cases "Skipspace r")
  case (Cons c s)
  have "typed_value N (JObj m)" if "rd_Object env n s = (Inr m, r')" for m
    using gives_typedD(2) [OF assms(2) that] by (simp add: typed_map_def)
  moreover have "typed_value N (JArr vs)" if "array_loop env n [] s = (Inr vs, r')" for vs
    using gives_typedD(4) [OF assms(2) _ that] by simp
  ultimately show ?thesis
    using assms(3) rd_Number_typed [OF assms(1)]
    by (auto simp: rd_Any.simps Cons map_rd_eq_Inr simp del: typed_value.simps(5,6) split: if_splits)
qed (use assms(3) in \<open>simp add: rd_Any.simps\<close>)

lemma gives_typed_Object:
  assumes "typed_env N env" and "gives_typed N env n" and "rd_Object env (Suc n) r = (Inr m, r')"
  shows "typed_map N m"
proof (cases "TakeIf (CHR ''@'') r")
  case (Pair ok s)
  show ?thesis
  proof (cases ok)
    case True
    then obtain res t where 1: "TakeFile env s = (Inr res, t)" and 2: "object_loop env n res t = (Inr m, r')"
      using assms(3) by (auto simp: rd_Object.simps Pair bind_rd_eq_Inr)
    show ?thesis by (rule gives_typedD(3) [OF assms(2) TakeFile_typed [OF assms(1) 1] 2])
  next
    case False
    then show ?thesis using assms(3) gives_typedD(3) [OF assms(2) typed_map_Nil, of s m r'] by (simp add: rd_Object.simps Pair)
  qed
qed

lemma gives_typed_object_loop:
  assumes "gives_typed N env n" and "typed_map N res" and "object_loop env (Suc n) res r = (Inr m, r')"
  shows "typed_map N m"
proof (cases "TakeIf (CHR ''}'') r")
  case (Pair ok s)
  show ?thesis
  proof (cases ok)
    case False
    then obtain key t v u where "rd_Assign env n (CHR '':'') t = (Inr v, u)"
      and 2: "object_loop env n (AList.update key v res) u = (Inr m, r')"
      using assms(3) by (auto simp: object_loop.simps Pair bind_rd_eq_Inr)
    then have "typed_value N v" using gives_typedD(5) [OF assms(1)] by blast
    then show ?thesis using gives_typedD(3) [OF assms(1) _ 2] assms(2) by blast
  qed (use assms(2,3) Pair in \<open>simp add: object_loop.simps\<close>)
qed

lemma gives_typed_array_loop:
  assumes "gives_typed N env n" and "typed_value N (JArr res)" and "array_loop env (Suc n) res r = (Inr vs, r')"
  shows "typed_value N (JArr vs)"
proof (cases "Skipspace r")
  case (Cons c s)
  show ?thesis
  proof (cases "c = CHR '']''")
    case False
    then obtain v t where 1: "rd_Any env n (c # s) = (Inr v, t)" and 2: "array_loop env n (res @ [v]) t = (Inr vs, r')"
      using assms(3) by (auto simp: array_loop.simps Cons bind_rd_eq_Inr)
    show ?thesis using gives_typedD(4) [OF assms(1) _ 2] gives_typedD(1) [OF assms(1) 1] assms(2) by simp
  qed (use assms(2,3) Cons in \<open>simp add: array_loop.simps\<close>)
qed (use assms(3) in \<open>simp add: array_loop.simps\<close>)

lemma gives_typed_Assign:
  assumes "gives_typed N env n" and "rd_Assign env (Suc n) k r = (Inr v, r')"
  shows "typed_value N v"
  using assms(2) gives_typedD(1) [OF assms(1)]
  by (cases "Take k (Skipspace r)") (auto simp: rd_Assign.simps split: option.splits if_splits)

lemma gives_typed_all: "typed_env N env \<Longrightarrow> gives_typed N env n"
proof (induction n)
  case 0
  show ?case by (simp add: gives_typed_def rd_Any.simps rd_Object.simps object_loop.simps array_loop.simps rd_Assign.simps)
next
  case (Suc n)
  note IH = Suc.IH [OF Suc.prems]
  show ?case
    unfolding gives_typed_def
    using gives_typed_Any [OF Suc.prems IH] gives_typed_Object [OF Suc.prems IH] gives_typed_object_loop [OF IH]
      gives_typed_array_loop [OF IH] gives_typed_Assign [OF IH]
    by blast
qed

section \<open>The arguments\<close>

lemma set_loop_typed:
  assumes "typed_env N env" and "typed_map N res" and "set_loop env n res r = (Inr m, r')"
  shows "typed_map N m"
  using assms(2,3)
proof (induction n arbitrary: res r)
  case (Suc n)
  obtain x s where 1: "rd_ID True (past_dashes r) = (x, s)" by force
  show ?case
  proof (cases x)
    case (Inl e)
    then show ?thesis using Suc.prems by (auto simp: set_loop.simps 1 split: if_splits)
  next
    case (Inr key)
    obtain y t where 2: "rd_Assign env n (CHR ''='') s = (y, t)" by force
    show ?thesis
    proof (cases y)
      case (Inl e)
      have "typed_map N (AList.update key (JBool True) res)"
        and "typed_map N (AList.update ''args'' (JArr [JStr key]) (AList.update key (JBool True) res))"
        using Suc.prems(1) by (auto intro!: typed_map_update)
      then show ?thesis using Suc.prems Inl by (auto simp: set_loop.simps 1 2 \<open>x = Inr key\<close> Let_def split: if_splits)
    next
      case Y: (Inr v)
      have "typed_value N v" using gives_typedD(5) [OF gives_typed_all [OF assms(1)]] 2 Y by blast
      then show ?thesis using Suc.IH [of "AList.update key v res" t] Suc.prems 2 by (auto simp: set_loop.simps 1 Inr Y)
    qed
  qed
qed (simp add: set_loop.simps)



end
