(* ===== verification/Status.thy ===== *)
theory Status
  imports Go_Strings
begin

text \<open>
  \<open>pkg/task/status.go\<close>: the status codes of a task with their flag bits, their details and
  the two conversions, and the error values of the program (\<open>error\<close>), which a status is one of.
  \<open>errors.Is\<close> walks the chain of wrapped errors.
\<close>

section \<open>Status codes\<close>

type_synonym status = u8

definition FlagTransition :: status where "FlagTransition = 0x20"
definition FlagAlive :: status where "FlagAlive = 0x40"
definition FlagError :: status where "FlagError = 0x80"

definition Idle :: status where "Idle = 0"
definition Complete :: status where "Complete = 1"
definition Cancelled :: status where "Cancelled = 2"
definition Starting :: status where "Starting = 3 OR FlagAlive OR FlagTransition"
definition Stopping :: status where "Stopping = 4 OR FlagAlive OR FlagTransition"
definition Running :: status where "Running = 5 OR FlagAlive"
definition Retrying :: status where "Retrying = 6 OR FlagAlive"
definition Errored :: status where "Errored = 7 OR FlagError"
definition TimeoutStop :: status where "TimeoutStop = 8 OR FlagError"
definition TimeoutStart :: status where "TimeoutStart = 9 OR FlagError"
definition TimeoutExec :: status where "TimeoutExec = 10 OR FlagError"

lemmas flag_defs = FlagTransition_def FlagAlive_def FlagError_def
lemmas status_defs = Idle_def Complete_def Cancelled_def Starting_def Stopping_def Running_def
  Retrying_def Errored_def TimeoutStop_def TimeoutStart_def TimeoutExec_def flag_defs

text \<open>An icon is the list of its code points.\<close>

record statusDetail =
  detName :: string
  detIcon :: "nat list"
  detError :: string

definition mk_detail :: "string \<Rightarrow> nat list \<Rightarrow> string \<Rightarrow> statusDetail" where
  "mk_detail n i e = \<lparr>detName = n, detIcon = i, detError = e\<rparr>"

definition statusDetails :: "(status \<times> statusDetail) list" where
  "statusDetails =
     [(Idle, mk_detail ''idle'' [0x2796] ''''),
      (Complete, mk_detail ''complete'' [0x2714, 0xFE0F] ''''),
      (Cancelled, mk_detail ''cancelled'' [0x1F6AB] ''task cancelled''),
      (Starting, mk_detail ''starting'' [0x1F680] ''''),
      (Stopping, mk_detail ''stopping'' [0x1F44B] ''''),
      (Running, mk_detail ''running'' [0x1F7E2] ''''),
      (Retrying, mk_detail ''retrying'' [0x1F4A4] ''task is retrying''),
      (Errored, mk_detail ''errored'' [0x1F534] ''task errored''),
      (TimeoutStop, mk_detail ''timeout-stop'' [0x1F55B] ''task timed out during exit''),
      (TimeoutStart, mk_detail ''timeout-start'' [0x1F55B] ''task timed out during launch''),
      (TimeoutExec, mk_detail ''timeout-exec'' [0x1F55B] ''task execution timed out'')]"

definition statuses :: "status list" where
  "statuses = map fst statusDetails"

definition statusByName :: "string \<Rightarrow> status option" where
  "statusByName = map_of (map (\<lambda>(s, d). (detName d, s)) statusDetails)"

text \<open>\<open>detail\<close> of an unknown code is a nil pointer: the methods that read it panic (\<open>None\<close>).\<close>

definition status_detail :: "status \<Rightarrow> statusDetail option" where
  "status_detail s = map_of statusDetails s"

definition IsTransition :: "status \<Rightarrow> bool" where
  "IsTransition s \<longleftrightarrow> s AND FlagTransition = FlagTransition"

definition IsAlive :: "status \<Rightarrow> bool" where
  "IsAlive s \<longleftrightarrow> s AND FlagAlive = FlagAlive"

definition IsDead :: "status \<Rightarrow> bool" where
  "IsDead s \<longleftrightarrow> \<not> IsAlive s"

definition IsError :: "status \<Rightarrow> bool" where
  "IsError s \<longleftrightarrow> s AND FlagError = FlagError"

definition Status_Icon :: "status \<Rightarrow> nat list option" where
  "Status_Icon s = map_option detIcon (status_detail s)"

definition Status_String :: "status \<Rightarrow> string option" where
  "Status_String s = map_option detName (status_detail s)"

definition Status_Error :: "status \<Rightarrow> string option" where
  "Status_Error s =
     (case status_detail s of
        None \<Rightarrow> None
      | Some d \<Rightarrow> Some (if IsError s \<and> detError d \<noteq> '''' then detError d else detName d))"

definition StatusFromName :: "string \<Rightarrow> status" where
  "StatusFromName name = (case statusByName name of Some s \<Rightarrow> s | None \<Rightarrow> 0)"

section \<open>Error values\<close>

text \<open>
  The errors the program makes: its sentinels, a status used as an error, an opaque error with
  a message (\<open>errors.New\<close>, or one of a library), \<open>fmt.Errorf("%w: ...", e, msg)\<close> and \<open>errors.Join\<close>.
\<close>

datatype gerr =
    ErrOk
  | IoEOF
  | CtxCanceled
  | CtxDeadline
  | ErrNonRetriable
  | StatusErr status
  | Msg string
  | Wrap gerr string
  | JoinErr "gerr list"

fun errors_Is :: "gerr \<Rightarrow> gerr \<Rightarrow> bool" where
  "errors_Is (Wrap e m) t = (Wrap e m = t \<or> errors_Is e t)"
| "errors_Is (JoinErr es) t = (JoinErr es = t \<or> list_ex (\<lambda>e. errors_Is e t) es)"
| "errors_Is e t = (e = t)"

definition err_Is :: "gerr option \<Rightarrow> gerr \<Rightarrow> bool" where
  "err_Is e t = (case e of None \<Rightarrow> False | Some x \<Rightarrow> errors_Is x t)"

fun err_text :: "gerr \<Rightarrow> string" where
  "err_text ErrOk = ''done''"
| "err_text IoEOF = ''EOF''"
| "err_text CtxCanceled = ''context canceled''"
| "err_text CtxDeadline = ''context deadline exceeded''"
| "err_text ErrNonRetriable = ''non-retriable error''"
| "err_text (StatusErr s) = (case Status_Error s of Some m \<Rightarrow> m | None \<Rightarrow> '''')"
| "err_text (Msg m) = m"
| "err_text (Wrap e m) = err_text e @ '': '' @ m"
| "err_text (JoinErr es) = concat (map (\<lambda>e. err_text e @ [CHR 0x0A]) es)"

definition Status_Join :: "status \<Rightarrow> gerr option \<Rightarrow> gerr" where
  "Status_Join s e = JoinErr (StatusErr s # (case e of None \<Rightarrow> [] | Some x \<Rightarrow> [x]))"

text \<open>
  \<open>StatusFromErr\<close> ranges over a map, in an order Go leaves open: \<open>order\<close> is the order of
  the run.
\<close>

definition StatusFromErr :: "status list \<Rightarrow> gerr option \<Rightarrow> status" where
  "StatusFromErr order e =
     (case e of
        None \<Rightarrow> Complete
      | Some x \<Rightarrow> (case find (\<lambda>s. errors_Is x (StatusErr s)) order of Some s \<Rightarrow> s | None \<Rightarrow> Errored))"

section \<open>Facts about the codes\<close>

lemma statuses_distinct: "distinct statuses"
  by (simp add: statuses_def statusDetails_def status_defs)

lemma status_detail_iff: "s \<in> set statuses \<longleftrightarrow> status_detail s \<noteq> None"
  by (simp add: statuses_def status_detail_def map_of_eq_None_iff)

lemma status_flags [simp]:
  "\<not> IsAlive Idle" "\<not> IsAlive Complete" "\<not> IsAlive Cancelled" "IsAlive Starting"
  "IsAlive Stopping" "IsAlive Running" "IsAlive Retrying" "\<not> IsAlive Errored"
  "\<not> IsAlive TimeoutStop" "\<not> IsAlive TimeoutStart" "\<not> IsAlive TimeoutExec"
  by (simp_all add: IsAlive_def status_defs)

lemma status_cases:
  assumes "s \<in> set statuses"
  obtains "s = Idle" | "s = Complete" | "s = Cancelled" | "s = Starting" | "s = Stopping" | "s = Running"
    | "s = Retrying" | "s = Errored" | "s = TimeoutStop" | "s = TimeoutStart" | "s = TimeoutExec"
  using assms by (auto simp: statuses_def statusDetails_def)

lemma status_neqs [simp]:
  "Errored \<noteq> Complete" "Complete \<noteq> Errored" "Cancelled \<noteq> Errored" "Errored \<noteq> Cancelled"
  "TimeoutStop \<noteq> Errored" "Errored \<noteq> TimeoutStop" "TimeoutExec \<noteq> Errored" "Errored \<noteq> TimeoutExec"
  "Idle \<noteq> Complete" "Complete \<noteq> Idle"
  by (simp_all add: status_defs)

text \<open>The status codes an error carries, whatever the order they are found in.\<close>

definition err_statuses :: "gerr \<Rightarrow> status set" where
  "err_statuses e = {s \<in> set statuses. errors_Is e (StatusErr s)}"

definition status_order :: "status list \<Rightarrow> bool" where
  "status_order order \<longleftrightarrow> set order = set statuses"

lemma find_unique:
  assumes "\<And>x. x \<in> set xs \<Longrightarrow> P x \<longleftrightarrow> x = a" and "a \<in> set xs"
  shows "find P xs = Some a"
  using assms by (induction xs) auto

lemma StatusFromErr_nil [simp]: "StatusFromErr order None = Complete"
  by (simp add: StatusFromErr_def)

lemma StatusFromErr_none:
  assumes "status_order order" and "err_statuses e = {}"
  shows "StatusFromErr order (Some e) = Errored"
proof -
  have "find (\<lambda>s. errors_Is e (StatusErr s)) order = None"
    using assms by (auto simp: find_None_iff status_order_def err_statuses_def)
  then show ?thesis by (simp add: StatusFromErr_def)
qed

lemma StatusFromErr_one:
  "status_order order \<Longrightarrow> err_statuses e = {s} \<Longrightarrow> StatusFromErr order (Some e) = s"
proof -
  assume o: "status_order order" and e: "err_statuses e = {s}"
  then have "find (\<lambda>s. errors_Is e (StatusErr s)) order = Some s"
    by (intro find_unique) (auto simp: status_order_def err_statuses_def)
  then show ?thesis by (simp add: StatusFromErr_def)
qed

lemma StatusFromErr_in:
  assumes "status_order order" and "err_statuses e \<noteq> {}"
  shows "StatusFromErr order (Some e) \<in> err_statuses e"
proof -
  obtain s where s: "find (\<lambda>s. errors_Is e (StatusErr s)) order = Some s"
    using assms by (cases "find (\<lambda>s. errors_Is e (StatusErr s)) order")
      (auto simp: find_None_iff status_order_def err_statuses_def)
  then have "s \<in> err_statuses e"
    using assms by (auto simp: find_Some_iff status_order_def err_statuses_def)
  with s show ?thesis by (simp add: StatusFromErr_def)
qed

lemma err_statuses_StatusErr [simp]: "s \<in> set statuses \<Longrightarrow> err_statuses (StatusErr s) = {s}"
  by (auto simp: err_statuses_def)

lemma err_statuses_plain [simp]:
  "err_statuses ErrOk = {}" "err_statuses IoEOF = {}" "err_statuses CtxCanceled = {}"
  "err_statuses CtxDeadline = {}" "err_statuses ErrNonRetriable = {}" "err_statuses (Msg m) = {}"
  "err_statuses (Wrap e m) = err_statuses e"
  by (auto simp: err_statuses_def)

lemma statuses_mem [simp]:
  "Idle \<in> set statuses" "Complete \<in> set statuses" "Cancelled \<in> set statuses" "Starting \<in> set statuses"
  "Stopping \<in> set statuses" "Running \<in> set statuses" "Retrying \<in> set statuses" "Errored \<in> set statuses"
  "TimeoutStop \<in> set statuses" "TimeoutStart \<in> set statuses" "TimeoutExec \<in> set statuses"
  by (simp_all add: statuses_def statusDetails_def)

lemma status_order_statuses [simp]: "status_order statuses"
  by (simp add: status_order_def)

section \<open>The name of a status is a codec\<close>

lemma StatusFromName_String:
  "s \<in> set statuses \<Longrightarrow> \<exists>n. Status_String s = Some n \<and> StatusFromName n = s"
  by (erule status_cases)
     (simp_all add: Status_String_def status_detail_def StatusFromName_def statusByName_def
        statusDetails_def mk_detail_def status_defs)

interpretation status_codec: text_codec Status_String "\<lambda>n. Some (StatusFromName n)" "\<lambda>s. s \<in> set statuses"
  by unfold_locales (use StatusFromName_String in fastforce)+

text \<open>
  A status code printed by \<open>String\<close> and read back by \<open>StatusFromName\<close> is the same code, for
  every code of the table; so no two codes share a name.
\<close>

theorem status_name_roundtrip:
  "map (\<lambda>s. map_option StatusFromName (Status_String s)) statuses = map Some statuses"
  using StatusFromName_String by (fastforce intro!: map_cong)

end
