(* ===== verification/Duration.thy ===== *)
theory Duration
  imports Go_Float Status
begin

text \<open>
  \<open>pkg/util/duration.go\<close>: a duration is an \<open>int64\<close> of nanoseconds (its operations here compare
  and never add, so an \<open>int\<close> in that range models it). \<open>After\<close> and \<open>AfterIf\<close> return a channel:
  one that is already closed, the nil channel, or a timer. Reading the closed one succeeds at
  once, the nil one never, a timer once its time has passed.
\<close>

type_synonym duration = int

definition Nanosecond :: duration where "Nanosecond = 1"
definition Microsecond :: duration where "Microsecond = 1000"
definition Millisecond :: duration where "Millisecond = 1000000"
definition Second :: duration where "Second = 1000000000"
definition Minute :: duration where "Minute = 60000000000"
definition Hour :: duration where "Hour = 3600000000000"

lemmas duration_units = Nanosecond_def Microsecond_def Millisecond_def Second_def Minute_def Hour_def

datatype timer = ClosedChan | NilChan | Timer duration

text \<open>Whether a receive on the channel can proceed \<open>elapsed\<close> nanoseconds after it was made.\<close>

fun timer_ready :: "timer \<Rightarrow> int \<Rightarrow> bool" where
  "timer_ready ClosedChan elapsed = True"
| "timer_ready NilChan elapsed = False"
| "timer_ready (Timer d) elapsed = (d \<le> elapsed)"

definition dur_IsZero :: "duration \<Rightarrow> bool" where
  "dur_IsZero d \<longleftrightarrow> d = 0"

definition dur_IsPositive :: "duration \<Rightarrow> bool" where
  "dur_IsPositive d \<longleftrightarrow> d > 0"

definition dur_After :: "duration \<Rightarrow> timer" where
  "dur_After d = (if \<not> dur_IsPositive d then ClosedChan else Timer d)"

definition dur_AfterIf :: "duration \<Rightarrow> timer" where
  "dur_AfterIf d = (if \<not> dur_IsPositive d then NilChan else Timer d)"

text \<open>The deadline \<open>TimeoutCause\<close> gives a context, with the cause it is cancelled with.\<close>

definition dur_TimeoutCause :: "duration \<Rightarrow> gerr option \<Rightarrow> (duration \<times> gerr option) option" where
  "dur_TimeoutCause d cause = (if \<not> dur_IsPositive d then None else Some (d, cause))"

definition dur_Timeout :: "duration \<Rightarrow> (duration \<times> gerr option) option" where
  "dur_Timeout d = dur_TimeoutCause d None"

definition dur_Clamp :: "duration \<Rightarrow> duration \<Rightarrow> duration \<Rightarrow> duration" where
  "dur_Clamp d lmin lmax = max (min d lmax) lmin"

definition dur_Min :: "duration \<Rightarrow> duration \<Rightarrow> duration" where
  "dur_Min d x = min d x"

definition dur_Max :: "duration \<Rightarrow> duration \<Rightarrow> duration" where
  "dur_Max d x = max d x"

lemmas dur_simps = dur_IsZero_def dur_IsPositive_def dur_Clamp_def dur_Min_def dur_Max_def

lemma After_ready: "timer_ready (dur_After d) e \<longleftrightarrow> d \<le> 0 \<or> d \<le> e"
  by (auto simp: dur_After_def dur_IsPositive_def)

lemma AfterIf_ready: "timer_ready (dur_AfterIf d) e \<longleftrightarrow> 0 < d \<and> d \<le> e"
  by (auto simp: dur_AfterIf_def dur_IsPositive_def)

lemma timer_ready_mono: "timer_ready t e \<Longrightarrow> e \<le> e' \<Longrightarrow> timer_ready t e'"
  by (cases t) auto

lemma Clamp_bounds: "lmin \<le> lmax \<Longrightarrow> lmin \<le> dur_Clamp d lmin lmax \<and> dur_Clamp d lmin lmax \<le> lmax"
  by (auto simp: dur_Clamp_def)

end
