(* ===== verification/Rate.thy ===== *)
theory Rate
  imports Duration
begin

text \<open>
  \<open>pkg/util/rate.go\<close>: a rate is a 32-bit count per period. \<open>Rescale\<close> goes through \<open>float64\<close>;
  \<open>ToTicks\<close> divides the clock by the period, which panics for a period of zero (\<open>None\<close>).
\<close>

record TimerRate =
  Count :: u32
  Period :: duration

text \<open>\<open>time.Duration.Milliseconds\<close> truncates towards zero.\<close>

definition Milliseconds :: "duration \<Rightarrow> int" where
  "Milliseconds d = go_div d 1000000"

definition rate_IsZero :: "TimerRate \<Rightarrow> bool" where
  "rate_IsZero r \<longleftrightarrow> Period r = 0"

definition rate_IsPositive :: "TimerRate \<Rightarrow> bool" where
  "rate_IsPositive r \<longleftrightarrow> Count r > 0 \<and> Period r > 0"

definition rate_Rescale :: "TimerRate \<Rightarrow> duration \<Rightarrow> TimerRate" where
  "rate_Rescale r period =
     (let count = f64_div (f64_mul (f64_of_int (uint (Count r))) (f64_of_int (Milliseconds (Period r))))
                    (f64_of_int (Milliseconds period))
      in \<lparr>Count = f64_to_u32 count, Period = period\<rparr>)"

definition rate_Compare :: "TimerRate \<Rightarrow> TimerRate \<Rightarrow> int" where
  "rate_Compare r x = (let x = rate_Rescale x (Period r) in uint (Count r) - uint (Count x))"

definition rate_Faster :: "TimerRate \<Rightarrow> TimerRate \<Rightarrow> bool" where
  "rate_Faster r x \<longleftrightarrow> rate_Compare r x < 0"

definition rate_Slower :: "TimerRate \<Rightarrow> TimerRate \<Rightarrow> bool" where
  "rate_Slower r x \<longleftrightarrow> rate_Compare r x > 0"

definition rate_Clamp :: "TimerRate \<Rightarrow> TimerRate \<Rightarrow> TimerRate \<Rightarrow> TimerRate" where
  "rate_Clamp r rateMin rateMax =
     (let cmin = Count (rate_Rescale rateMin (Period r)); cmax = Count (rate_Rescale rateMax (Period r))
      in \<lparr>Count = max (min (Count r) cmax) cmin, Period = Period r\<rparr>)"

definition rate_ClampPeriod :: "TimerRate \<Rightarrow> duration \<Rightarrow> duration \<Rightarrow> TimerRate" where
  "rate_ClampPeriod r pmin pmax = \<lparr>Count = Count r, Period = max (min (Period r) pmax) pmin\<rparr>"

definition rate_ToTicks :: "TimerRate \<Rightarrow> int \<Rightarrow> u32 option" where
  "rate_ToTicks r unixNano =
     (if Period r = 0 then None else Some (word_of_int (wrap64 (go_div unixNano (Period r)))))"

text \<open>The constructor \<open>Rate(v...)\<close>, for the argument lists the program calls it with.\<close>

datatype rate_arg = RateNone | RatePair int duration | RateRate TimerRate | RateFloat f64

fun mk_Rate :: "rate_arg \<Rightarrow> TimerRate" where
  "mk_Rate RateNone = \<lparr>Count = 0, Period = 0\<rparr>"
| "mk_Rate (RatePair n d) = \<lparr>Count = word_of_int n, Period = d\<rparr>"
| "mk_Rate (RateRate r) = r"
| "mk_Rate (RateFloat f) = \<lparr>Count = f64_to_u32 f, Period = Second\<rparr>"

lemma ToTicks_total: "0 < Period r \<Longrightarrow> rate_ToTicks r t \<noteq> None"
  by (simp add: rate_ToTicks_def)

end
