(* ===== verification/Options.thy ===== *)
theory Options
  imports Rate
begin

text \<open>
  \<open>pkg/task/options.go\<close>: the options of a task and \<open>WithDefaults\<close>, which the constructor of
  every worker applies, to the options a parent worker hands on as well.
\<close>

record options =
  RetryDisabled :: bool
  RetryBackoff :: duration
  RetryBackoffScale :: f64
  RetrySuccess :: bool
  RetryLimit :: TimerRate
  MaxMemory :: int
  MinUptime :: duration
  ExecTimeout :: duration
  StartTimeout :: duration
  StopTimeout :: duration

text \<open>The zero value of the struct: a manifest that configures nothing.\<close>

definition zero_options :: options where
  "zero_options =
     \<lparr>RetryDisabled = False, RetryBackoff = 0, RetryBackoffScale = Fin 0, RetrySuccess = False,
      RetryLimit = \<lparr>Count = 0, Period = 0\<rparr>, MaxMemory = 0, MinUptime = 0, ExecTimeout = 0,
      StartTimeout = 0, StopTimeout = 0\<rparr>"

definition f64_le0 :: "f64 \<Rightarrow> bool" where
  "f64_le0 f \<longleftrightarrow> f64_less f (Fin 0) \<or> f = Fin 0"

definition default_limit :: "TimerRate \<Rightarrow> TimerRate" where
  "default_limit r =
     (if rate_IsZero r then mk_Rate (RatePair 10 (30 * Second))
      else rate_Clamp (rate_ClampPeriod r (30 * Second) Hour)
             (mk_Rate (RateFloat (Fin 0))) (mk_Rate (RatePair 10 (30 * Second))))"

definition default_stop :: "duration \<Rightarrow> duration" where
  "default_stop d = (if dur_IsPositive d then dur_Clamp d (250 * Millisecond) (30 * Second) else 5 * Second)"

definition WithDefaults :: "options \<Rightarrow> options" where
  "WithDefaults opt = opt\<lparr>
     RetryLimit := default_limit (RetryLimit opt),
     RetryBackoffScale := (if f64_le0 (RetryBackoffScale opt) then Fin 2 else RetryBackoffScale opt),
     RetryBackoff := dur_Max (RetryBackoff opt) (500 * Millisecond),
     StopTimeout := default_stop (StopTimeout opt),
     MinUptime := (if \<not> dur_IsPositive (MinUptime opt) then 0 else MinUptime opt)\<rparr>"

section \<open>The clamped rate\<close>

lemma rat_trunc_nonneg: "0 \<le> x \<Longrightarrow> rat_trunc x = \<lfloor>x\<rfloor>"
  by (simp add: rat_trunc_def)

lemma f64_to_u32_bound:
  assumes "0 \<le> x" and "x \<le> of_int m" and "m < 2 ^ 32"
  shows "uint (f64_to_u32 (Fin x)) = \<lfloor>x\<rfloor> \<and> \<lfloor>x\<rfloor> \<le> m"
proof -
  have b: "0 \<le> \<lfloor>x\<rfloor>" "\<lfloor>x\<rfloor> \<le> m" using assms floor_mono [of x "of_int m"] by simp_all
  then have "int64_ok \<lfloor>x\<rfloor>" using assms(3) unfolding int64_ok_def
    by (intro conjI order_trans [OF _ b(1)] le_less_trans [OF b(2)]) simp_all
  then have "f64_to_u32 (Fin x) = word_of_int \<lfloor>x\<rfloor>"
    using assms(1) by (simp only: f64_to_u32_def f64_to_int64.simps rat_trunc_nonneg Let_def if_True)
  moreover have "uint (word_of_int \<lfloor>x\<rfloor> :: u32) = \<lfloor>x\<rfloor>"
    unfolding uint_word_of_int
    by (rule mod_pos_pos_trivial [OF b(1)]) (rule le_less_trans [OF b(2)], use assms(3) in simp)
  ultimately show ?thesis using b(2) by simp
qed

lemma f64_of_int_exact: "\<bar>i\<bar> \<le> 2 ^ 53 \<Longrightarrow> f64_of_int i = Fin (of_int i)"
  using fl_Fin [of "of_int i" "\<bar>i\<bar>"] by (simp add: f64_of_int_def)

lemma uint_lt_2p32: "uint (w :: u32) < 2 ^ 32"
  using uint_lt2p [of w] by simp

text \<open>
  Rescaling within the range where the products are exact: the new count is the old one times
  the ratio of the old period to the new, rounded once and truncated.
\<close>

lemma Rescale_exact:
  assumes c: "uint (Count r) * Milliseconds (Period r) \<le> 2 ^ 53" "0 \<le> Milliseconds (Period r)"
    "Milliseconds (Period r) \<le> 2 ^ 53"
    and p: "0 < Milliseconds p" "Milliseconds p \<le> 2 ^ 53"
  shows "Count (rate_Rescale r p) =
    f64_to_u32 (Fin (fl_rat (of_int (uint (Count r) * Milliseconds (Period r)) / of_int (Milliseconds p))))"
proof -
  let ?c = "uint (Count r)" and ?m = "Milliseconds (Period r)" and ?p = "Milliseconds p"
  have c0: "0 \<le> ?c" "?c \<le> 2 ^ 53" using uint_lt_2p32 [of "Count r"] by simp_all
  have prod: "fl (of_int ?c * of_int ?m) = Fin (of_int (?c * ?m))"
    using f64_of_int_exact [of "?c * ?m"] c c0 by (simp add: f64_of_int_def)
  have q: "\<bar>of_int (?c * ?m) / of_int ?p\<bar> \<le> (of_int (?c * ?m) :: rat)"
  proof -
    have "(1 :: rat) \<le> of_int ?p" using p by simp
    moreover have "(0 :: rat) \<le> of_int (?c * ?m)"
      by (rule of_int_0_le_iff [THEN iffD2]) (rule mult_nonneg_nonneg [OF c0(1) c(2)])
    ultimately show ?thesis
      using mult_left_mono [of 1 "of_int ?p" "of_int (?c * ?m) :: rat"]
      by (simp add: pos_divide_le_eq)
  qed
  have "fl (of_int (?c * ?m) / of_int ?p) = Fin (fl_rat (of_int (?c * ?m) / of_int ?p))"
    by (rule fl_Fin [OF q]) (use c in simp)
  then show ?thesis
    using c0 c p by (simp add: rate_Rescale_def Let_def f64_of_int_exact prod [simplified])
qed

lemma Milliseconds_mono: "0 \<le> a \<Longrightarrow> a \<le> b \<Longrightarrow> Milliseconds a \<le> Milliseconds b"
  by (simp add: Milliseconds_def zdiv_mono1)

lemma limit_max_count:
  assumes "30 * Second \<le> p" and "p \<le> Hour"
  shows "uint (Count (rate_Rescale (mk_Rate (RatePair 10 (30 * Second))) p)) \<le> 10"
proof -
  have m: "30000 \<le> Milliseconds p" "Milliseconds p \<le> 3600000"
    using assms Milliseconds_mono [of "30 * Second" p] Milliseconds_mono [of p Hour]
    by (simp_all add: duration_units Milliseconds_def)
  have s: "Milliseconds (30 * Second) = 30000" by (simp add: Milliseconds_def duration_units)
  let ?q = "of_int (10 * 30000) / of_int (Milliseconds p) :: rat"
  have q: "0 \<le> ?q" "?q \<le> of_int 10" using m by (simp_all add: pos_divide_le_eq flip: of_int_mult)
  have f: "0 \<le> fl_rat ?q" "fl_rat ?q \<le> of_int 10"
    using fl_rat_mono [OF q(1)] fl_rat_mono [OF q(2)] fl_rat_of_int [of 10] by simp_all
  have "Count (rate_Rescale (mk_Rate (RatePair 10 (30 * Second))) p) = f64_to_u32 (Fin (fl_rat ?q))"
    by (subst Rescale_exact) (use m s in simp_all)
  then show ?thesis using f64_to_u32_bound [OF f] by simp
qed

lemma limit_min_count:
  assumes "30 * Second \<le> p" and "p \<le> Hour"
  shows "Count (rate_Rescale (mk_Rate (RateFloat (Fin 0))) p) = 0"
proof -
  have m: "30000 \<le> Milliseconds p" "Milliseconds p \<le> 3600000"
    using assms Milliseconds_mono [of "30 * Second" p] Milliseconds_mono [of p Hour]
    by (simp_all add: duration_units Milliseconds_def)
  have z: "Count (mk_Rate (RateFloat (Fin 0))) = 0"
    by (simp add: f64_to_u32_def rat_trunc_def int64_ok_def)
  show ?thesis
    by (subst Rescale_exact) (use m z in \<open>simp_all add: Milliseconds_def duration_units f64_to_u32_def rat_trunc_def int64_ok_def\<close>)
qed

section \<open>What the defaults promise\<close>

lemma default_limit_range:
  "Count (default_limit r) \<le> 10 \<and> 30 * Second \<le> Period (default_limit r) \<and> Period (default_limit r) \<le> Hour"
proof (cases "rate_IsZero r")
  case True
  then show ?thesis by (simp add: default_limit_def duration_units word_le_def)
next
  case False
  let ?p = "Period (rate_ClampPeriod r (30 * Second) Hour)"
  have p: "30 * Second \<le> ?p" "?p \<le> Hour" by (auto simp: rate_ClampPeriod_def duration_units)
  have mx: "Count (rate_Rescale (mk_Rate (RatePair 10 (30 * Second))) ?p) \<le> 10"
    using limit_max_count [OF p] by (simp add: word_le_def)
  have "Count (default_limit r) \<le> 10"
    using False mx limit_min_count [OF p]
    by (simp add: default_limit_def rate_Clamp_def Let_def min_le_iff_disj)
  then show ?thesis using False p by (simp add: default_limit_def rate_Clamp_def Let_def)
qed

lemma default_limit_idem: "default_limit (default_limit r) = default_limit r"
proof -
  let ?d = "default_limit r"
  have r: "30 * Second \<le> Period ?d" "Period ?d \<le> Hour" using default_limit_range by auto
  have z: "\<not> rate_IsZero ?d" using r by (simp add: rate_IsZero_def duration_units)
  have cp: "rate_ClampPeriod ?d (30 * Second) Hour = ?d"
    using r by (simp add: rate_ClampPeriod_def)
  have mn: "Count (rate_Rescale (mk_Rate (RateFloat (Fin 0))) (Period ?d)) = 0"
    by (rule limit_min_count [OF r])
  have mx: "Count ?d \<le> Count (rate_Rescale (mk_Rate (RatePair 10 (30 * Second))) (Period ?d))"
  proof (cases "rate_IsZero r")
    case True
    then have d: "?d = mk_Rate (RatePair 10 (30 * Second))" by (simp add: default_limit_def)
    have "Count (rate_Rescale (mk_Rate (RatePair 10 (30 * Second))) (30 * Second)) = 10"
      by (subst Rescale_exact)
         (simp_all add: Milliseconds_def duration_units fl_rat_numeral f64_to_u32_def rat_trunc_def int64_ok_def)
    then show ?thesis by (simp add: d)
  next
    case False
    then show ?thesis
      using limit_min_count [of "Period (rate_ClampPeriod r (30 * Second) Hour)"]
      by (simp add: default_limit_def rate_Clamp_def rate_ClampPeriod_def Let_def duration_units)
  qed
  show ?thesis
    using z cp mn mx by (simp add: default_limit_def rate_Clamp_def Let_def)
qed

text \<open>
  After \<open>WithDefaults\<close> every option a worker depends on is in range, whatever was configured:
  at most ten retries per period, a period between 30 seconds and an hour (so that counting
  ticks never divides by zero), a back-off of at least half a second with a scale that is not
  zero or negative, a stop timeout between 250 milliseconds and 30 seconds, and a minimum
  uptime that is not negative.
\<close>

theorem WithDefaults_ranges:
  "Count (RetryLimit (WithDefaults opt)) \<le> 10
   \<and> 30 * Second \<le> Period (RetryLimit (WithDefaults opt)) \<and> Period (RetryLimit (WithDefaults opt)) \<le> Hour
   \<and> rate_ToTicks (RetryLimit (WithDefaults opt)) now \<noteq> None
   \<and> 500 * Millisecond \<le> RetryBackoff (WithDefaults opt)
   \<and> \<not> f64_le0 (RetryBackoffScale (WithDefaults opt))
   \<and> 250 * Millisecond \<le> StopTimeout (WithDefaults opt) \<and> StopTimeout (WithDefaults opt) \<le> 30 * Second
   \<and> 0 \<le> MinUptime (WithDefaults opt)"
proof -
  have "0 < Period (default_limit (RetryLimit opt))"
    using default_limit_range [of "RetryLimit opt"] by (simp add: duration_units)
  moreover have "\<not> f64_le0 (Fin 2)" by (simp add: f64_le0_def)
  ultimately show ?thesis
    using default_limit_range [of "RetryLimit opt"] ToTicks_total
    by (auto simp: WithDefaults_def dur_simps default_stop_def duration_units)
qed

text \<open>
  Applying the defaults again changes nothing. A worker hands its own options, defaults
  applied, to the workers of its subtasks, whose constructor applies them once more: the limits
  do not drift down the tree.
\<close>

theorem WithDefaults_idem: "WithDefaults (WithDefaults opt) = WithDefaults opt"
  by (simp add: WithDefaults_def default_limit_idem dur_simps default_stop_def duration_units f64_le0_def)

text \<open>
  The conversion of a rate to another period is inverted: ten per half minute, rescaled to
  an hour, is zero per hour. So a limit of five retries per hour is clamped to none at all by
  the defaults.
\<close>

theorem Rescale_inverted:
  "Count (rate_Rescale \<lparr>Count = 10, Period = 30 * Second\<rparr> Hour) = 0
   \<and> RetryLimit (WithDefaults (opt\<lparr>RetryLimit := \<lparr>Count = 5, Period = Hour\<rparr>\<rparr>)) = \<lparr>Count = 0, Period = Hour\<rparr>"
proof -
  have "0 \<le> fl_rat (1 / 12)" "fl_rat (1 / 12) \<le> 1 / 2"
    using fl_rat_mono [of 0 "1 / 12"] fl_rat_mono [of "1 / 12" "1 / 2"] by simp_all
  then have "rat_trunc (fl_rat (1 / 12)) = 0" by (simp add: rat_trunc_nonneg floor_eq_iff)
  then have z: "Count (rate_Rescale \<lparr>Count = 10, Period = 30 * Second\<rparr> Hour) = 0"
    by (subst Rescale_exact)
       (simp_all add: Milliseconds_def duration_units f64_to_u32_def int64_ok_def)
  have "Count (rate_Rescale (mk_Rate (RateFloat (Fin 0))) Hour) = 0"
    by (rule limit_min_count) (simp_all add: duration_units)
  then show ?thesis
    using z by (simp add: WithDefaults_def default_limit_def rate_Clamp_def rate_ClampPeriod_def
        rate_IsZero_def Let_def duration_units)
qed

end
