(* ===== verification/Go_Context.thy ===== *)
theory Go_Context
  imports Status
begin

text \<open>
  \<open>pkg/util/ok.go\<close> and the part of Go's \<open>context\<close> the program uses: a context is live or done
  with a cause, the first cancellation fixes the cause, and a cancellation without an error
  stores \<open>ErrOk\<close>, which \<open>Cause\<close> turns back into \<open>nil\<close>. A derived context that finds its parent
  done is done with the parent's cause.
\<close>

type_synonym ctx = "gerr option"

abbreviation live :: ctx where "live \<equiv> None"

definition OrOk :: "gerr option \<Rightarrow> gerr" where
  "OrOk e = (case e of None \<Rightarrow> ErrOk | Some x \<Rightarrow> x)"

definition NotOk :: "gerr option \<Rightarrow> gerr option" where
  "NotOk e = (if e = Some ErrOk then None else e)"

text \<open>\<open>Cause\<close>: \<open>nil\<close> for a live context and for one that ended without an error.\<close>

definition Cause :: "ctx \<Rightarrow> gerr option" where
  "Cause c = (case c of None \<Rightarrow> None | Some cause \<Rightarrow> NotOk (Some cause))"

text \<open>\<open>WithCancelOrOk\<close>: the new context, under the parent's state.\<close>

definition WithCancelOrOk :: "ctx \<Rightarrow> ctx" where
  "WithCancelOrOk parent = parent"

definition cancel_cause :: "ctx \<Rightarrow> gerr \<Rightarrow> ctx" where
  "cancel_cause c e = (case c of None \<Rightarrow> Some e | Some x \<Rightarrow> Some x)"

definition cancelOrOk_Cancel :: "ctx \<Rightarrow> gerr option \<Rightarrow> ctx" where
  "cancelOrOk_Cancel c err = cancel_cause c (case err of None \<Rightarrow> ErrOk | Some e \<Rightarrow> e)"

lemma Cause_simps [simp]:
  "Cause None = None" "Cause (Some ErrOk) = None" "e \<noteq> ErrOk \<Longrightarrow> Cause (Some e) = Some e"
  by (simp_all add: Cause_def NotOk_def)

lemma Cause_Some_iff: "Cause c = Some e \<longleftrightarrow> c = Some e \<and> e \<noteq> ErrOk"
  by (auto simp: Cause_def NotOk_def split: option.splits)

lemma NotOk_OrOk: "e \<noteq> Some ErrOk \<Longrightarrow> NotOk (Some (OrOk e)) = e"
  by (cases e) (auto simp: NotOk_def OrOk_def)

section \<open>The contract of a cancellable thing\<close>

text \<open>
  Everything the program can cancel (a context, a worker, a pipeline) has the same contract:
  its cause is written once, by the first \<open>cancel\<close>, and \<open>nil\<close> is stored as \<open>ErrOk\<close>.
\<close>

locale cancellable =
  fixes cancel :: "'c \<Rightarrow> gerr option \<Rightarrow> 'c"
    and cause :: "'c \<Rightarrow> ctx"
  assumes cancel_live: "cause c = None \<Longrightarrow> cause (cancel c e) = Some (OrOk e)"
    and cancel_done: "cause c = Some x \<Longrightarrow> cause (cancel c e) = Some x"
begin

lemma cancel_ends [simp]: "cause (cancel c e) \<noteq> None"
  by (cases "cause c") (simp_all add: cancel_live cancel_done)

lemma first_cancel_wins: "cause (cancel (cancel c e) f) = cause (cancel c e)"
  by (cases "cause c") (simp_all add: cancel_live cancel_done)

lemma Cause_after_cancel:
  "cause c = None \<Longrightarrow> e \<noteq> Some ErrOk \<Longrightarrow> Cause (cause (cancel c e)) = e"
  by (cases e) (simp_all add: cancel_live OrOk_def)

lemma cancel_all:
  "es \<noteq> [] \<Longrightarrow> cause (foldl cancel c es) = (case cause c of None \<Rightarrow> Some (OrOk (hd es)) | Some x \<Rightarrow> Some x)"
proof (induction es arbitrary: c)
  case Nil
  then show ?case by simp
next
  case (Cons e es)
  show ?case
  proof (cases "es = []")
    case True
    then show ?thesis by (cases "cause c") (simp_all add: cancel_live cancel_done)
  next
    case False
    with Cons.IH [of "cancel c e"] show ?thesis
      by (cases "cause c") (simp_all add: cancel_live cancel_done)
  qed
qed

end

interpretation ctx: cancellable cancelOrOk_Cancel "\<lambda>c. c"
  by unfold_locales (auto simp: cancelOrOk_Cancel_def cancel_cause_def OrOk_def split: option.splits)

text \<open>
  Of any sequence of cancellations of a live context the first decides: afterwards
  \<open>util.Cause\<close> is the error of that first call, and \<open>nil\<close> when it was called without an error.
\<close>

theorem first_cancellation_decides:
  assumes "e \<noteq> Some ErrOk"
  shows "Cause (foldl cancelOrOk_Cancel live (e # es)) = e"
  using ctx.cancel_all [of "e # es" live] NotOk_OrOk [OF assms] by (simp add: Cause_def)

theorem first_cancellation_decides_witness:
  "Cause (foldl cancelOrOk_Cancel live [Some (Msg ''a''), None, Some IoEOF]) = Some (Msg ''a'')"
  by (rule first_cancellation_decides) simp

end
