(* ===== verification/Must.thy ===== *)
theory Must
  imports Options Go_Context
begin

text \<open>
  \<open>pkg/task/work_must.go\<close>: the worker that runs a task once. Its goroutines (\<open>Run\<close>, the watcher of
  the start timeout, the memory watcher, the enforcer of the stop timeout, the callback run when
  the context ends, the forwarders of a stop to subtasks) are fields that say where each of them
  waits; every atomic action of one of them is an event, and \<open>must_act\<close> is the effect of an event,
  \<open>None\<close> where its guard fails. A \<open>select\<close> with several ready channels picks any: it is several
  enabled events. The clock \<open>w_now\<close> is in nanoseconds and moves by \<open>Tick\<close>.
\<close>

record report =
  rep_Pid :: "int list"
  rep_Cpu :: f64
  rep_Mem :: f64
  rep_Username :: string
  rep_CreateTime :: int

definition zero_report :: report where
  "zero_report = \<lparr>rep_Pid = [], rep_Cpu = Fin 0, rep_Mem = Fin 0, rep_Username = [], rep_CreateTime = 0\<rparr>"

text \<open>Where \<open>Run\<close> is: the selects carry the time they were entered, the last two its result.\<close>

datatype must_pc =
    NotRun
  | InLaunch
  | SelectStart int
  | SelectRun int
  | CancelRet "gerr option"
  | Returned "gerr option"

record must =
  w_opts :: options
  w_ctx :: ctx
  w_stopChannel :: bool
  w_stopChannelUsed :: bool
  w_report :: "report option"
  w_status :: status
  w_children :: "nat list"
  w_pc :: must_pc
  w_startWatch :: "int option"
  w_launchTimeout :: bool
  w_memWatch :: "int option"
  w_enforcer :: "(bool \<times> int) option"
  w_afterFunc :: bool
  w_forwarders :: "nat list"
  w_exitReason :: "gerr option option"
  w_now :: int
  w_panic :: bool

section \<open>The methods\<close>

definition newMustWorker :: "ctx \<Rightarrow> options \<Rightarrow> int \<Rightarrow> must" where
  "newMustWorker base opts now =
     \<lparr>w_opts = opts, w_ctx = WithCancelOrOk base, w_stopChannel = False, w_stopChannelUsed = False,
      w_report = None, w_status = 0, w_children = [], w_pc = NotRun, w_startWatch = None,
      w_launchTimeout = False, w_memWatch = None, w_enforcer = None, w_afterFunc = True,
      w_forwarders = [], w_exitReason = None, w_now = now, w_panic = False\<rparr>"

definition must_cancel :: "must \<Rightarrow> gerr option \<Rightarrow> must" where
  "must_cancel w e = w\<lparr>w_ctx := cancelOrOk_Cancel (w_ctx w) e\<rparr>"

definition must_Kill :: "must \<Rightarrow> must" where
  "must_Kill w = must_cancel w (Some (StatusErr Cancelled))"

text \<open>Closing a closed channel panics.\<close>

definition close_stopChannel :: "must \<Rightarrow> must" where
  "close_stopChannel w = (if w_stopChannel w then w\<lparr>w_panic := True\<rparr> else w\<lparr>w_stopChannel := True\<rparr>)"

text \<open>
  \<open>signalStop\<close>. With a stop timeout, \<open>enforceOrCancel\<close> then waits in its select, in the caller
  (\<open>wait\<close>) or in a goroutine.
\<close>

definition signalStop :: "bool \<Rightarrow> must \<Rightarrow> must" where
  "signalStop wait w =
     (let w = w\<lparr>w_status := Stopping\<rparr> in
      if \<not> w_stopChannelUsed w
      then let w = close_stopChannel (w\<lparr>w_stopChannelUsed := True\<rparr>) in
        if \<not> dur_IsPositive (StopTimeout (w_opts w)) then must_cancel w (Some (StatusErr Cancelled))
        else w\<lparr>w_enforcer := Some (wait, w_now w)\<rparr>
      else w)"

definition must_Stop :: "must \<Rightarrow> must" where
  "must_Stop w = (if w_ctx w \<noteq> None then w else signalStop True w)"

definition must_Inspect :: "must \<Rightarrow> report" where
  "must_Inspect w = (case w_report w of Some r \<Rightarrow> r | None \<Rightarrow> zero_report)"

definition must_Report :: "must \<Rightarrow> report \<Rightarrow> must" where
  "must_Report w r = w\<lparr>w_report := Some r\<rparr>"

definition must_Status :: "must \<Rightarrow> gerr" where
  "must_Status w =
     (if w_ctx w \<noteq> None then (case Cause (w_ctx w) of None \<Rightarrow> StatusErr Complete | Some c \<Rightarrow> c)
      else if IsAlive (w_status w) then StatusErr (w_status w)
      else StatusErr Idle)"

text \<open>
  \<open>Launch\<close> of a subtask: the options handed on, the forwarder that waits for the stop channel, and
  the child's place among the children while it runs.
\<close>

definition must_Launch_options :: "must \<Rightarrow> (options \<Rightarrow> options) list \<Rightarrow> options" where
  "must_Launch_options w modifiers = foldl (\<lambda>opt f. f opt) (w_opts w) modifiers"

definition must_Launch :: "must \<Rightarrow> nat \<Rightarrow> must" where
  "must_Launch w child = w\<lparr>w_forwarders := child # w_forwarders w\<rparr>"

definition must_Traverse :: "must \<Rightarrow> nat list" where
  "must_Traverse w = w_children w"

section \<open>The steps of Run\<close>

definition run_begin :: "must \<Rightarrow> must" where
  "run_begin w = w\<lparr>
     w_startWatch := (if dur_IsPositive (StartTimeout (w_opts w)) then Some (w_now w) else None),
     w_memWatch := (if MaxMemory (w_opts w) > 0 then Some (w_now w) else None),
     w_status := Starting, w_pc := InLaunch\<rparr>"

text \<open>The error \<open>Run\<close> makes of the task's exit in its first and in its second select.\<close>

definition early_exit_error :: "status list \<Rightarrow> gerr option \<Rightarrow> gerr option" where
  "early_exit_error order err =
     (case err of
        None \<Rightarrow> Some (Wrap (StatusErr Errored) ''quit too early'')
      | Some e \<Rightarrow> if StatusFromErr order err \<noteq> Errored then Some (Wrap (StatusErr Errored) (err_text e)) else err)"

definition exit_error :: "status list \<Rightarrow> gerr option \<Rightarrow> gerr option" where
  "exit_error order err =
     (case err of
        None \<Rightarrow> None
      | Some e \<Rightarrow> if StatusFromErr order err \<noteq> Errored then Some (Wrap (StatusErr Errored) (err_text e)) else err)"

definition memory_check :: "must \<Rightarrow> must" where
  "memory_check w =
     (if f64_less (f64_of_int (MaxMemory (w_opts w))) (rep_Mem (must_Inspect w))
      then must_cancel (w\<lparr>w_memWatch := None\<rparr>) (Some (Msg ''memory limit exceeded''))
      else w\<lparr>w_memWatch := Some (w_now w)\<rparr>)"

datatype must_ev =
    CallRun
  | LaunchReturns "gerr option option"
  | TaskExits "gerr option"
  | SelDone
  | SelMinUptime
  | SelExecTimeout
  | SelExit "status list"
  | DoReturn
  | CallStop
  | CallKill
  | CallReport report
  | CallLaunch nat
  | ChildStarts nat
  | ChildEnds nat
  | ForwardStop nat
  | AfterFuncRuns
  | EnforceTimeout
  | EnforceDone
  | StartTimerFires
  | StartWatchEnds
  | MemoryTick
  | MemoryEnds
  | ParentCancelled gerr
  | Tick int

fun must_act :: "must_ev \<Rightarrow> must \<Rightarrow> must option" where
  "must_act CallRun w = (if w_pc w = NotRun then Some (run_begin w) else None)"
| "must_act (LaunchReturns ready) w =
     (if w_pc w = InLaunch
      then Some (w\<lparr>w_launchTimeout := dur_IsPositive (StartTimeout (w_opts w)),
                   w_exitReason := ready, w_pc := SelectStart (w_now w)\<rparr>)
      else None)"
| "must_act (TaskExits err) w =
     (case w_pc w of
        SelectStart t \<Rightarrow> if w_exitReason w = None then Some (w\<lparr>w_exitReason := Some err\<rparr>) else None
      | SelectRun t \<Rightarrow> if w_exitReason w = None then Some (w\<lparr>w_exitReason := Some err\<rparr>) else None
      | _ \<Rightarrow> None)"
| "must_act SelDone w =
     (case w_pc w of
        SelectStart t \<Rightarrow> if w_ctx w \<noteq> None then Some (w\<lparr>w_pc := Returned (Cause (w_ctx w))\<rparr>) else None
      | SelectRun t \<Rightarrow> if w_ctx w \<noteq> None then Some (w\<lparr>w_pc := Returned (Cause (w_ctx w))\<rparr>) else None
      | _ \<Rightarrow> None)"
| "must_act SelMinUptime w =
     (case w_pc w of
        SelectStart t \<Rightarrow>
          if timer_ready (dur_After (MinUptime (w_opts w))) (w_now w - t)
          then Some (w\<lparr>w_status := Running, w_pc := SelectRun (w_now w)\<rparr>) else None
      | _ \<Rightarrow> None)"
| "must_act SelExecTimeout w =
     (case w_pc w of
        SelectRun t \<Rightarrow>
          if timer_ready (dur_AfterIf (ExecTimeout (w_opts w))) (w_now w - t)
          then Some (w\<lparr>w_pc := CancelRet (Some (StatusErr TimeoutExec))\<rparr>) else None
      | _ \<Rightarrow> None)"
| "must_act (SelExit order) w =
     (case (w_pc w, w_exitReason w) of
        (SelectStart t, Some err) \<Rightarrow>
          Some (w\<lparr>w_exitReason := None, w_pc := CancelRet (early_exit_error order err)\<rparr>)
      | (SelectRun t, Some err) \<Rightarrow>
          Some (w\<lparr>w_exitReason := None, w_pc := CancelRet (exit_error order err)\<rparr>)
      | _ \<Rightarrow> None)"
| "must_act DoReturn w =
     (case w_pc w of CancelRet e \<Rightarrow> Some ((must_cancel w e)\<lparr>w_pc := Returned e\<rparr>) | _ \<Rightarrow> None)"
| "must_act CallStop w = Some (must_Stop w)"
| "must_act CallKill w = Some (must_Kill w)"
| "must_act (CallReport r) w = Some (must_Report w r)"
| "must_act (CallLaunch c) w = Some (must_Launch w c)"
| "must_act (ChildStarts c) w = Some (w\<lparr>w_children := c # removeAll c (w_children w)\<rparr>)"
| "must_act (ChildEnds c) w = Some (w\<lparr>w_children := removeAll c (w_children w)\<rparr>)"
| "must_act (ForwardStop c) w =
     (if w_stopChannel w \<and> c \<in> set (w_forwarders w) then Some (w\<lparr>w_forwarders := remove1 c (w_forwarders w)\<rparr>)
      else None)"
| "must_act AfterFuncRuns w =
     (if w_afterFunc w \<and> w_ctx w \<noteq> None then Some (signalStop False (w\<lparr>w_afterFunc := False\<rparr>)) else None)"
| "must_act EnforceTimeout w =
     (case w_enforcer w of
        Some (wait, t) \<Rightarrow>
          if timer_ready (dur_After (StopTimeout (w_opts w))) (w_now w - t)
          then Some (must_cancel (w\<lparr>w_enforcer := None\<rparr>) (Some (StatusErr TimeoutStop))) else None
      | None \<Rightarrow> None)"
| "must_act EnforceDone w =
     (if w_enforcer w \<noteq> None \<and> w_ctx w \<noteq> None then Some (w\<lparr>w_enforcer := None\<rparr>) else None)"
| "must_act StartTimerFires w =
     (case w_startWatch w of
        Some t \<Rightarrow>
          if timer_ready (dur_AfterIf (StartTimeout (w_opts w))) (w_now w - t)
          then Some (must_cancel (w\<lparr>w_startWatch := None\<rparr>) (Some (StatusErr TimeoutStart))) else None
      | None \<Rightarrow> None)"
| "must_act StartWatchEnds w =
     (if w_startWatch w \<noteq> None \<and> (w_ctx w \<noteq> None \<or> w_launchTimeout w) then Some (w\<lparr>w_startWatch := None\<rparr>) else None)"
| "must_act MemoryTick w =
     (case w_memWatch w of
        Some t \<Rightarrow> if 30 * Second \<le> w_now w - t then Some (memory_check w) else None
      | None \<Rightarrow> None)"
| "must_act MemoryEnds w =
     (if w_memWatch w \<noteq> None \<and> w_ctx w \<noteq> None then Some (w\<lparr>w_memWatch := None\<rparr>) else None)"
| "must_act (ParentCancelled c) w = Some (w\<lparr>w_ctx := cancel_cause (w_ctx w) c\<rparr>)"
| "must_act (Tick d) w = (if 0 < d then Some (w\<lparr>w_now := w_now w + d\<rparr>) else None)"

text \<open>The runs of a worker, as the list of their events.\<close>

inductive must_run :: "must \<Rightarrow> must_ev list \<Rightarrow> must \<Rightarrow> bool" where
  run_nil: "must_run w [] w"
| run_snoc: "must_run w evs w' \<Longrightarrow> must_act ev w' = Some w'' \<Longrightarrow> must_run w (evs @ [ev]) w''"

fun must_exec :: "must_ev list \<Rightarrow> must \<Rightarrow> must option" where
  "must_exec [] w = Some w"
| "must_exec (ev # evs) w = (case must_act ev w of Some w' \<Rightarrow> must_exec evs w' | None \<Rightarrow> None)"

section \<open>Automation\<close>

lemmas must_ops = must_cancel_def must_Kill_def must_Stop_def signalStop_def close_stopChannel_def
  must_Report_def must_Launch_def run_begin_def memory_check_def newMustWorker_def Let_def

lemma ctx_cancel_simps [simp]:
  "cancelOrOk_Cancel (Some x) e = Some x" "cancelOrOk_Cancel c e \<noteq> None"
  "cancel_cause (Some x) f = Some x" "cancel_cause c f \<noteq> None"
  "\<exists>y. cancelOrOk_Cancel c e = Some y" "\<exists>y. cancel_cause c f = Some y"
  by (auto simp: cancelOrOk_Cancel_def cancel_cause_def split: option.splits)

interpretation must: cancellable must_cancel w_ctx
  by unfold_locales (simp_all add: must_cancel_def ctx.cancel_live)

inductive_cases must_run_nilE: "must_run w [] w'"
inductive_cases must_run_snocE: "must_run w (evs @ [ev]) w'"

text \<open>An invariant of single steps is an invariant of runs.\<close>

lemma must_run_invariant:
  assumes "must_run w evs w'" and "P w" and "\<And>ev u u'. P u \<Longrightarrow> must_act ev u = Some u' \<Longrightarrow> P u'"
  shows "P w'"
  using assms by (induction rule: must_run.induct) blast+

lemma must_run_append:
  "must_run v fs w \<Longrightarrow> must_run u es v \<Longrightarrow> must_run u (es @ fs) w"
proof (induction rule: must_run.induct)
  case (run_nil w)
  then show ?case by simp
next
  case (run_snoc w evs w' ev w'')
  from must_run.run_snoc [OF run_snoc.IH [OF run_snoc.prems] run_snoc.hyps(2)] show ?case by simp
qed

lemma must_exec_run: "must_exec evs w = Some w' \<Longrightarrow> must_run w evs w'"
proof (induction evs arbitrary: w)
  case Nil
  then show ?case by (simp add: run_nil)
next
  case (Cons ev evs)
  then obtain v where v: "must_act ev w = Some v" "must_exec evs v = Some w'"
    by (auto split: option.splits)
  have "must_run w ([] @ [ev]) v" by (rule run_snoc [OF run_nil v(1)])
  from must_run_append [OF Cons.IH [OF v(2)] this] show ?case by simp
qed

section \<open>Invariants\<close>

definition must_inv :: "must \<Rightarrow> bool" where
  "must_inv w \<longleftrightarrow>
     w_stopChannel w = w_stopChannelUsed w \<and> \<not> w_panic w
     \<and> (w_enforcer w \<noteq> None \<longrightarrow> w_stopChannelUsed w \<and> 0 < StopTimeout (w_opts w))
     \<and> (w_stopChannelUsed w \<and> w_ctx w = None \<longrightarrow> w_enforcer w \<noteq> None)
     \<and> (\<forall>e. w_pc w = Returned e \<longrightarrow> w_ctx w \<noteq> None)
     \<and> (w_pc w \<noteq> NotRun \<longrightarrow> IsAlive (w_status w))"

lemma must_inv_new [inv_intros]: "must_inv (newMustWorker base opts now)"
  by (simp add: must_inv_def newMustWorker_def)

lemma must_inv_cancel [inv_intros]: "must_inv w \<Longrightarrow> must_inv (must_cancel w e)"
  by (simp add: must_inv_def must_cancel_def)

lemma must_inv_signalStop [inv_intros]: "must_inv w \<Longrightarrow> must_inv (signalStop b w)"
  by (auto simp: must_inv_def signalStop_def close_stopChannel_def must_cancel_def Let_def dur_IsPositive_def)

lemma must_inv_Stop [inv_intros]: "must_inv w \<Longrightarrow> must_inv (must_Stop w)"
  by (simp add: must_Stop_def must_inv_signalStop)

lemma must_inv_run_begin [inv_intros]: "must_inv w \<Longrightarrow> must_inv (run_begin w)"
  by (simp add: must_inv_def run_begin_def)

text \<open>The invariant reads neither the watchers nor the task's side of the worker.\<close>

lemma must_inv_frame [simp]:
  "must_inv (w\<lparr>w_report := a\<rparr>) = must_inv w"
  "must_inv (w\<lparr>w_children := b\<rparr>) = must_inv w"
  "must_inv (w\<lparr>w_startWatch := c\<rparr>) = must_inv w"
  "must_inv (w\<lparr>w_memWatch := c\<rparr>) = must_inv w"
  "must_inv (w\<lparr>w_afterFunc := d\<rparr>) = must_inv w"
  "must_inv (w\<lparr>w_forwarders := b\<rparr>) = must_inv w"
  "must_inv (w\<lparr>w_exitReason := f\<rparr>) = must_inv w"
  "must_inv (w\<lparr>w_now := g\<rparr>) = must_inv w"
  by (simp_all add: must_inv_def)

lemma must_inv_pc:
  "must_inv w \<Longrightarrow> w_pc w \<noteq> NotRun \<Longrightarrow> (\<forall>e. p = Returned e \<longrightarrow> w_ctx w \<noteq> None) \<Longrightarrow> must_inv (w\<lparr>w_pc := p\<rparr>)"
  by (simp add: must_inv_def)

lemma must_inv_Running:
  "must_inv w \<Longrightarrow> \<forall>e. p \<noteq> Returned e \<Longrightarrow> must_inv (w\<lparr>w_status := Running, w_pc := p\<rparr>)"
  by (simp add: must_inv_def)

lemma must_inv_drop_enforcer:
  "must_inv w \<Longrightarrow> w_ctx w \<noteq> None \<Longrightarrow> must_inv (w\<lparr>w_enforcer := None\<rparr>)"
  by (simp add: must_inv_def)

lemma must_inv_enforce_timeout:
  "must_inv w \<Longrightarrow> must_inv (must_cancel (w\<lparr>w_enforcer := None\<rparr>) e)"
  by (simp add: must_inv_def must_cancel_def)

lemma must_inv_return:
  "must_inv w \<Longrightarrow> w_pc w \<noteq> NotRun \<Longrightarrow> must_inv ((must_cancel w e)\<lparr>w_pc := Returned e\<rparr>)"
  by (simp add: must_inv_def must_cancel_def)

lemma must_inv_parent: "must_inv w \<Longrightarrow> must_inv (w\<lparr>w_ctx := cancel_cause (w_ctx w) c\<rparr>)"
  by (simp add: must_inv_def)

lemma must_inv_launch:
  "must_inv w \<Longrightarrow> w_pc w \<noteq> NotRun \<Longrightarrow>
   must_inv (w\<lparr>w_launchTimeout := l, w_exitReason := r, w_pc := SelectStart t\<rparr>)"
  by (simp add: must_inv_def)

lemmas must_inv_steps = must_inv_pc must_inv_Running must_inv_enforce_timeout
  must_inv_return must_inv_parent must_inv_launch must_inv_signalStop must_inv_Stop must_inv_run_begin

lemma must_inv_exit: "must_inv w \<Longrightarrow> w_pc w \<noteq> NotRun \<Longrightarrow> must_inv (w\<lparr>w_exitReason := x, w_pc := CancelRet e\<rparr>)"
  by (simp add: must_inv_def)

lemma must_act_inv [inv_intros]: "must_act ev w = Some w' \<Longrightarrow> must_inv w \<Longrightarrow> must_inv w'"
  by (cases ev)
     (auto simp: must_Kill_def must_Report_def must_Launch_def memory_check_def must_inv_exit
       split: if_splits option.splits must_pc.splits intro!: must_inv_steps
       intro: must_inv_cancel must_inv_drop_enforcer)

lemma must_run_inv: "must_run (newMustWorker base opts now) evs w \<Longrightarrow> must_inv w"
  by (erule must_run_invariant) (auto intro: inv_intros)

text \<open>No step changes the options, resurrects the context or replaces its cause.\<close>

lemma must_act_opts [frame]: "must_act ev w = Some w' \<Longrightarrow> w_opts w' = w_opts w"
  by (cases ev) (auto simp: must_ops split: if_splits option.splits must_pc.splits)

lemma must_act_cause [frame]: "must_act ev w = Some w' \<Longrightarrow> w_ctx w = Some c \<Longrightarrow> w_ctx w' = Some c"
  by (cases ev) (auto simp: must_ops split: if_splits option.splits must_pc.splits)

lemma must_act_now [frame]: "must_act ev w = Some w' \<Longrightarrow> w_now w \<le> w_now w'"
  by (cases ev) (auto simp: must_ops split: if_splits option.splits must_pc.splits)

lemma must_act_stop [frame]: "must_act ev w = Some w' \<Longrightarrow> w_stopChannelUsed w \<Longrightarrow> w_stopChannelUsed w'"
  by (cases ev) (auto simp: must_ops split: if_splits option.splits must_pc.splits)

lemma must_act_returned [frame]: "must_act ev w = Some w' \<Longrightarrow> w_pc w = Returned e \<Longrightarrow> w_pc w' = Returned e"
  by (cases ev) (auto simp: must_ops split: if_splits option.splits must_pc.splits)

section \<open>Properties\<close>

lemma early_exit_error_Errored:
  "status_order order \<Longrightarrow> \<exists>e. early_exit_error order err = Some e \<and> StatusFromErr order (Some e) = Errored"
  by (cases err) (auto simp: early_exit_error_def StatusFromErr_one)

lemma exit_error_Errored:
  "status_order order \<Longrightarrow> exit_error order (Some x) = Some e \<Longrightarrow> StatusFromErr order (Some e) = Errored"
  by (auto simp: exit_error_def StatusFromErr_one split: if_splits)

lemma must_inv_enforcer: "must_inv w \<Longrightarrow> w_enforcer w = Some x \<Longrightarrow> w_stopChannelUsed w"
  by (simp add: must_inv_def)

lemma enforcer_kept:
  "must_act ev w = Some w' \<Longrightarrow> must_inv w \<Longrightarrow> w_enforcer w = Some x \<Longrightarrow> w_ctx w' = None \<Longrightarrow> w_enforcer w' = Some x"
  by (frule (1) must_inv_enforcer, cases ev)
     (auto simp: must_ops split: if_splits option.splits must_pc.splits prod.splits)

lemma live_before: "must_act ev w = Some w' \<Longrightarrow> w_ctx w' = None \<Longrightarrow> w_ctx w = None"
  by (rule ccontr) (auto dest: must_act_cause)

lemma run_enforcer_kept:
  assumes "must_run w evs w'" and "must_inv w" and "w_enforcer w = Some x" and "w_ctx w' = None"
  shows "must_inv w' \<and> w_opts w' = w_opts w \<and> w_enforcer w' = Some x"
  using assms
proof (induction rule: must_run.induct)
  case (run_nil w)
  then show ?case by simp
next
  case (run_snoc w evs w' ev w'')
  have "w_ctx w' = None" by (rule live_before [OF run_snoc.hyps(2) run_snoc.prems(3)])
  with run_snoc.IH [OF run_snoc.prems(1,2)]
  have "must_inv w'" "w_opts w' = w_opts w" "w_enforcer w' = Some x" by simp_all
  then show ?case
    using must_act_inv [OF run_snoc.hyps(2)] must_act_opts [OF run_snoc.hyps(2)]
      enforcer_kept [OF run_snoc.hyps(2) _ _ run_snoc.prems(3)] by simp
qed

lemma run_opts: "must_run w evs w' \<Longrightarrow> w_opts w' = w_opts w"
  by (induction rule: must_run.induct) (auto dest: must_act_opts)

lemma enforce_fires:
  "w_enforcer w = Some (wait, t) \<Longrightarrow> w_ctx w = None \<Longrightarrow> t + StopTimeout (w_opts w) \<le> w_now w \<Longrightarrow>
   \<exists>w'. must_act EnforceTimeout w = Some w' \<and> w_ctx w' = Some (StatusErr TimeoutStop)"
  by (simp add: After_ready must.cancel_live OrOk_def)

text \<open>
  C2. However the goroutines of a worker interleave, the stop channel is closed exactly when the
  worker was told to stop and never twice (no panic), and once \<open>Run\<close> has returned the worker's
  context is over, so that \<open>Status\<close> no longer reports a state of a live worker.
\<close>

theorem must_worker_safe:
  assumes "must_run (newMustWorker base opts now) evs w"
  shows "\<not> w_panic w \<and> (w_stopChannel w \<longleftrightarrow> w_stopChannelUsed w)
    \<and> (\<forall>e. w_pc w = Returned e \<longrightarrow>
          w_ctx w \<noteq> None \<and> must_Status w = (case Cause (w_ctx w) of None \<Rightarrow> StatusErr Complete | Some c \<Rightarrow> c))"
  using must_run_inv [OF assms] by (auto simp: must_inv_def must_Status_def)

theorem must_worker_safe_witness:
  "\<exists>w. must_run (newMustWorker None zero_options 0)
         [CallRun, LaunchReturns None, TaskExits (Some (Msg ''exit 1'')), SelMinUptime, SelExit statuses, DoReturn, AfterFuncRuns] w
       \<and> \<not> w_panic w \<and> w_stopChannel w \<and> w_pc w = Returned (Some (Msg ''exit 1''))"
proof -
  let ?evs = "[CallRun, LaunchReturns None, TaskExits (Some (Msg ''exit 1'')), SelMinUptime, SelExit statuses,
               DoReturn, AfterFuncRuns]"
  have "StatusFromErr statuses (Some (Msg ''exit 1'')) = Errored" by (rule StatusFromErr_none) simp_all
  then obtain w where w: "must_exec ?evs (newMustWorker None zero_options 0) = Some w"
    and "w_stopChannel w" "w_pc w = Returned (Some (Msg ''exit 1''))"
    by (auto simp: must_ops zero_options_def After_ready exit_error_def WithCancelOrOk_def dur_IsPositive_def)
  with must_worker_safe [OF must_exec_run [OF w]] must_exec_run [OF w] show ?thesis by blast
qed

text \<open>
  C3. A stop is enforced. When a worker has been told to stop and is still alive, an enforcer
  waits with the time of the stop; nothing but the end of the worker removes or restarts it; and
  from the moment the stop timeout has passed the enforcer can end the worker with
  \<open>TimeoutStop\<close>.
\<close>

theorem stop_is_enforced:
  assumes "must_run (newMustWorker base opts now) evs w" and "w_stopChannelUsed w" and "w_ctx w = None"
  shows "\<exists>wait t. w_enforcer w = Some (wait, t) \<and> 0 < StopTimeout opts
    \<and> (\<forall>evs' w'. must_run w evs' w' \<and> w_ctx w' = None \<longrightarrow>
          w_enforcer w' = Some (wait, t)
          \<and> (t + StopTimeout opts \<le> w_now w' \<longrightarrow>
               (\<exists>w''. must_act EnforceTimeout w' = Some w'' \<and> w_ctx w'' = Some (StatusErr TimeoutStop))))"
proof -
  have inv: "must_inv w" by (rule must_run_inv [OF assms(1)])
  have opts: "w_opts w = opts" using run_opts [OF assms(1)] by (simp add: newMustWorker_def)
  from inv assms(2,3) obtain wait t where e: "w_enforcer w = Some (wait, t)" "0 < StopTimeout opts"
    by (auto simp: must_inv_def opts)
  have "w_enforcer w' = Some (wait, t) \<and> w_opts w' = opts" if "must_run w evs' w'" "w_ctx w' = None" for evs' w'
    using run_enforcer_kept [OF that(1) inv e(1) that(2)] opts by simp
  with e show ?thesis using enforce_fires by metis
qed

theorem stop_is_enforced_witness:
  "\<exists>w t. must_run (newMustWorker None (WithDefaults zero_options) 7) [CallRun, LaunchReturns None, CallStop] w
     \<and> w_enforcer w = Some (True, t) \<and> 0 < StopTimeout (WithDefaults zero_options)"
proof -
  let ?evs = "[CallRun, LaunchReturns None, CallStop]"
  obtain w where w: "must_exec ?evs (newMustWorker None (WithDefaults zero_options) 7) = Some w"
    "w_stopChannelUsed w" "w_ctx w = None" "w_enforcer w = Some (True, 7)"
    by (auto simp: must_ops zero_options_def WithDefaults_def default_stop_def WithCancelOrOk_def dur_IsPositive_def
        Second_def)
  with stop_is_enforced [OF must_exec_run [OF w(1)] w(2,3)] must_exec_run [OF w(1)] show ?thesis by auto
qed

lemma SelExit_start:
  "w_pc w = SelectStart t \<Longrightarrow> w_exitReason w = Some err \<Longrightarrow>
   must_act (SelExit order) w = Some (w\<lparr>w_exitReason := None, w_pc := CancelRet (early_exit_error order err)\<rparr>)"
  by simp

lemma SelExit_run:
  "w_pc w = SelectRun t \<Longrightarrow> w_exitReason w = Some err \<Longrightarrow>
   must_act (SelExit order) w = Some (w\<lparr>w_exitReason := None, w_pc := CancelRet (exit_error order err)\<rparr>)"
  by simp

lemma exit_error_None: "exit_error order err = None \<longleftrightarrow> err = None"
  by (auto simp: exit_error_def split: option.splits)

text \<open>
  What \<open>Run\<close> makes of the task's exit: before the minimum uptime has passed it never counts as
  success (the select has no other way out for it but the end of the context), afterwards an
  exit without error is success; and an error always reads as \<open>Errored\<close>, whatever the task
  returned.
\<close>

theorem exit_classified:
  assumes "status_order order" and "w_exitReason w = Some err"
  shows "(w_pc w = SelectStart t \<and> 0 < MinUptime (w_opts w) \<and> w_now w - t < MinUptime (w_opts w) \<longrightarrow>
      must_act SelMinUptime w = None
      \<and> (\<exists>w' e. must_act (SelExit order) w = Some w' \<and> w_pc w' = CancelRet (Some e)
             \<and> StatusFromErr order (Some e) = Errored))
    \<and> (w_pc w = SelectRun t \<longrightarrow>
      (\<exists>w' r. must_act (SelExit order) w = Some w' \<and> w_pc w' = CancelRet r \<and> (r = None \<longleftrightarrow> err = None)
        \<and> (err \<noteq> None \<longrightarrow> StatusFromErr order r = Errored)))"
proof (intro conjI impI)
  assume a: "w_pc w = SelectStart t \<and> 0 < MinUptime (w_opts w) \<and> w_now w - t < MinUptime (w_opts w)"
  then show "must_act SelMinUptime w = None" by (simp add: After_ready)
  obtain e where e: "early_exit_error order err = Some e" "StatusFromErr order (Some e) = Errored"
    using early_exit_error_Errored [OF assms(1)] by blast
  from a have "w_pc w = SelectStart t" ..
  from SelExit_start [OF this assms(2), of order] e show "\<exists>w' e. must_act (SelExit order) w = Some w' \<and> w_pc w' = CancelRet (Some e)
             \<and> StatusFromErr order (Some e) = Errored"
    by (simp del: must_act.simps)
next
  assume "w_pc w = SelectRun t"
  from SelExit_run [OF this assms(2), of order]
  show "\<exists>w' r. must_act (SelExit order) w = Some w' \<and> w_pc w' = CancelRet r \<and> (r = None \<longleftrightarrow> err = None)
        \<and> (err \<noteq> None \<longrightarrow> StatusFromErr order r = Errored)"
    using exit_error_Errored [OF assms(1)] exit_error_None [of order err]
    by (cases err; cases "exit_error order err") (simp_all del: must_act.simps)
qed

theorem exit_classified_witness:
  "\<exists>w w' e. must_act SelMinUptime w = None \<and> w_exitReason w = Some None
     \<and> must_act (SelExit statuses) w = Some w' \<and> w_pc w' = CancelRet (Some e)
     \<and> StatusFromErr statuses (Some e) = Errored"
proof -
  let ?w = "(newMustWorker None (zero_options\<lparr>MinUptime := 5\<rparr>) 0)\<lparr>w_pc := SelectStart 0, w_exitReason := Some None\<rparr>"
  have "w_exitReason ?w = Some None"
    "w_pc ?w = SelectStart 0 \<and> 0 < MinUptime (w_opts ?w) \<and> w_now ?w - 0 < MinUptime (w_opts ?w)"
    by (simp_all add: newMustWorker_def)
  with exit_classified [OF status_order_statuses, of ?w None 0] show ?thesis by blast
qed

text \<open>
  A task that is over at once, such as \<open>noop\<close>, has no certain result: with no minimum uptime
  configured both channels of the first select are ready, and one run of the worker returns
  success while another returns \<open>Errored: quit too early\<close>.
\<close>

theorem immediate_task_races:
  "(\<exists>evs w. must_run (newMustWorker None (WithDefaults zero_options) 0) evs w \<and> w_pc w = Returned None)
   \<and> (\<exists>evs w. must_run (newMustWorker None (WithDefaults zero_options) 0) evs w
        \<and> w_pc w = Returned (Some (Wrap (StatusErr Errored) ''quit too early'')))"
proof -
  let ?w = "newMustWorker None (WithDefaults zero_options) 0"
  obtain w1 where "must_exec [CallRun, LaunchReturns (Some None), SelMinUptime, SelExit statuses, DoReturn] ?w = Some w1"
    "w_pc w1 = Returned None"
    by (auto simp: must_ops zero_options_def WithDefaults_def dur_simps After_ready exit_error_def)
  moreover obtain w2 where "must_exec [CallRun, LaunchReturns (Some None), SelExit statuses, DoReturn] ?w = Some w2"
    "w_pc w2 = Returned (Some (Wrap (StatusErr Errored) ''quit too early''))"
    by (auto simp: must_ops zero_options_def WithDefaults_def dur_simps early_exit_error_def)
  ultimately show ?thesis by (meson must_exec_run)
qed

end
