(* ===== verification/Retry.thy ===== *)
theory Retry
  imports Must
begin

text \<open>
  \<open>pkg/task/work_retry.go\<close>: the worker that runs a task again when it ends, as long as its retry
  limit allows. Its attempts are the one-shot workers of theory Must, run here event by event.
  The retry state is one 64-bit word, a tick and a counter, changed by compare-and-swap loops;
  a successful swap changes the word it has just read, so each loop is one atomic step here.
  Time: \<open>r_now\<close> is the Unix time in nanoseconds.
\<close>

section \<open>The packed retry state\<close>

definition retryTickDead :: u32 where "retryTickDead = 0xffffffff"

definition unpackErrorState :: "u64 \<Rightarrow> u32 \<times> u32" where
  "unpackErrorState state = (ucast state, ucast (drop_bit 32 state))"

definition packErrorState :: "u32 \<Rightarrow> u32 \<Rightarrow> u64" where
  "packErrorState tick counter = ucast tick OR push_bit 32 (ucast counter)"

lemma no_high_bit: "\<not> bit (w :: u32) (32 + n)"
  by (rule impossible_bit) simp

lemma unpack_pack [simp]: "unpackErrorState (packErrorState tick counter) = (tick, counter)"
  by (auto simp: unpackErrorState_def packErrorState_def bit_simps no_high_bit intro!: bit_word_eqI)

lemma pack_unpack: "case unpackErrorState s of (t, c) \<Rightarrow> packErrorState t c = s"
  by (auto simp: unpackErrorState_def packErrorState_def bit_simps intro!: bit_word_eqI)

section \<open>State\<close>

definition NonRetriable :: "gerr option \<Rightarrow> gerr" where
  "NonRetriable err = Wrap ErrNonRetriable (case err of None \<Rightarrow> ''<nil>'' | Some e \<Rightarrow> err_text e)"

text \<open>
  Where \<open>Run\<close> is: in the select on the attempt; in \<open>tryRetry\<close>, before its checks, before the
  update of the retry state, and in its select; leaving, with the result; returned.
\<close>

datatype retry_pc =
    RNotRun
  | RSelect
  | RTry "gerr option"
  | RCount "gerr option"
  | RWait "gerr option" int int
  | RReturning "gerr option"
  | RReturned "gerr option"

record retry =
  r_opts :: options
  r_base :: ctx
  r_ctx :: ctx
  r_must :: "must option"
  r_retryState :: u64
  r_retryCancel :: bool
  r_status :: status
  r_pc :: retry_pc
  r_now :: int
  r_panic :: bool

definition newRetryWorker :: "ctx \<Rightarrow> options \<Rightarrow> int \<Rightarrow> retry" where
  "newRetryWorker base opts now =
     \<lparr>r_opts = opts, r_base = base, r_ctx = WithCancelOrOk base, r_must = None, r_retryState = 0,
      r_retryCancel = False, r_status = 0, r_pc = RNotRun, r_now = now, r_panic = False\<rparr>"

definition retry_cancel :: "retry \<Rightarrow> gerr option \<Rightarrow> retry" where
  "retry_cancel r e = r\<lparr>r_ctx := cancelOrOk_Cancel (r_ctx r) e\<rparr>"

section \<open>The worker interface\<close>

definition retry_Inspect :: "retry \<Rightarrow> report" where
  "retry_Inspect r = (case r_must r of Some m \<Rightarrow> must_Inspect m | None \<Rightarrow> zero_report)"

definition disableRetries :: "retry \<Rightarrow> retry" where
  "disableRetries r =
     (let (tick, counter) = unpackErrorState (r_retryState r) in
      if tick = retryTickDead then r
      else let r = r\<lparr>r_retryState := packErrorState retryTickDead counter\<rparr> in
        if r_retryCancel r then r\<lparr>r_panic := True\<rparr> else r\<lparr>r_retryCancel := True\<rparr>)"

definition retry_Stop :: "retry \<Rightarrow> retry" where
  "retry_Stop r = (let r = disableRetries r in r\<lparr>r_must := map_option must_Stop (r_must r)\<rparr>)"

definition retry_Kill :: "retry \<Rightarrow> retry" where
  "retry_Kill r = (let r = disableRetries r in r\<lparr>r_must := map_option must_Kill (r_must r)\<rparr>)"

definition retry_Traverse :: "retry \<Rightarrow> nat list" where
  "retry_Traverse r = (case r_must r of Some m \<Rightarrow> must_Traverse m | None \<Rightarrow> [])"

definition retry_Status :: "retry \<Rightarrow> gerr" where
  "retry_Status r =
     (if r_ctx r \<noteq> None then (case Cause (r_ctx r) of None \<Rightarrow> StatusErr Complete | Some c \<Rightarrow> c)
      else case r_must r of
        Some m \<Rightarrow> if IsAlive (r_status r) then must_Status m else StatusErr (r_status r)
      | None \<Rightarrow> StatusErr (r_status r))"

section \<open>tryRetry\<close>

definition retriable :: "retry \<Rightarrow> gerr option \<Rightarrow> bool" where
  "retriable r err =
     (if (case err of Some e \<Rightarrow> errors_Is e ErrNonRetriable | None \<Rightarrow> \<not> RetrySuccess (r_opts r)) then False
      else (ucast (r_retryState r) :: u32) \<noteq> retryTickDead)"

text \<open>
  The update of the retry state: the new state and, when the limit allows another attempt, its
  number within the tick. \<open>None\<close> is the panic of a division by a period of zero.
\<close>

definition retry_count :: "TimerRate \<Rightarrow> int \<Rightarrow> u64 \<Rightarrow> (u64 \<times> u32 option) option" where
  "retry_count rate now expected =
     (let (tick, counter) = unpackErrorState expected in
      if tick = retryTickDead then Some (expected, None)
      else case rate_ToTicks rate now of
        None \<Rightarrow> None
      | Some cur \<Rightarrow>
          let (tick, counter) = (if tick \<noteq> cur then (cur, 0) else (tick, counter));
              counter = counter + 1;
              newState = packErrorState tick counter
          in Some (newState, if counter > Count rate then None else Some counter))"

definition retry_wait :: "options \<Rightarrow> u32 \<Rightarrow> int" where
  "retry_wait opts counter =
     (let t = f64_of_int (RetryBackoff opts);
          r = f64_div (f64_of_int (uint (counter - 1))) (f64_of_int (uint (Count (RetryLimit opts))));
          r = f64_max (f64_min r (Fin 1)) (Fin 0);
          t = f64_mul (f64_mul t (f64_add (Fin (1 / 2)) (f64_mul r r))) (RetryBackoffScale opts)
      in f64_to_int64 t)"

section \<open>The steps of Run\<close>

definition retry_attempt :: "retry \<Rightarrow> retry" where
  "retry_attempt r = r\<lparr>r_must := Some (newMustWorker (r_base r) (r_opts r) (r_now r)),
                       r_status := Running, r_pc := RSelect\<rparr>"

definition retry_break :: "retry \<Rightarrow> gerr option \<Rightarrow> retry" where
  "retry_break r err = r\<lparr>r_status := Idle, r_pc := RReturning err\<rparr>"

datatype retry_ev =
    RCallRun
  | RInner must_ev
  | RSelDone
  | RSelWorkDone
  | RSelResult
  | RTryCheck
  | RTryCount
  | RWaitDone
  | RWaitCancelled
  | RWaitElapsed
  | RReturn
  | RCallStop
  | RCallKill
  | RParentCancelled gerr
  | RTick int

text \<open>Events of the attempt that are its own: the clock, its parent and its callers are the retrier's.\<close>

fun inner_ok :: "retry_pc \<Rightarrow> must_ev \<Rightarrow> bool" where
  "inner_ok pc CallRun = (pc = RSelect)"
| "inner_ok pc (Tick d) = False"
| "inner_ok pc (ParentCancelled c) = False"
| "inner_ok pc CallStop = False"
| "inner_ok pc CallKill = False"
| "inner_ok pc ev = True"

fun retry_act :: "retry_ev \<Rightarrow> retry \<Rightarrow> retry option" where
  "retry_act RCallRun r = (if r_pc r = RNotRun then Some (retry_attempt r) else None)"
| "retry_act (RInner ev) r =
     (case r_must r of
        Some m \<Rightarrow> if inner_ok (r_pc r) ev
                  then map_option (\<lambda>m'. r\<lparr>r_must := Some m'\<rparr>) (must_act ev m) else None
      | None \<Rightarrow> None)"
| "retry_act RSelDone r =
     (if r_pc r = RSelect \<and> r_ctx r \<noteq> None then Some (r\<lparr>r_pc := RReturning (Cause (r_ctx r))\<rparr>) else None)"
| "retry_act RSelWorkDone r =
     (case r_must r of
        Some m \<Rightarrow> if r_pc r = RSelect \<and> w_ctx m \<noteq> None
                  then Some (r\<lparr>r_status := w_status m, r_pc := RTry (Cause (w_ctx m))\<rparr>) else None
      | None \<Rightarrow> None)"
| "retry_act RSelResult r =
     (case r_must r of
        Some m \<Rightarrow> (case w_pc m of
           Returned e \<Rightarrow> if r_pc r = RSelect then Some (r\<lparr>r_status := w_status m, r_pc := RTry e\<rparr>) else None
         | _ \<Rightarrow> None)
      | None \<Rightarrow> None)"
| "retry_act RTryCheck r =
     (case r_pc r of
        RTry err \<Rightarrow>
          Some (if r_ctx r \<noteq> None then retry_break r err
                else if \<not> retriable r err then retry_break r err
                else r\<lparr>r_pc := RCount err\<rparr>)
      | _ \<Rightarrow> None)"
| "retry_act RTryCount r =
     (case r_pc r of
        RCount err \<Rightarrow>
          Some (case retry_count (RetryLimit (r_opts r)) (r_now r) (r_retryState r) of
             None \<Rightarrow> r\<lparr>r_panic := True\<rparr>
           | Some (st, None) \<Rightarrow> retry_break (r\<lparr>r_retryState := st\<rparr>) err
           | Some (st, Some counter) \<Rightarrow>
               r\<lparr>r_retryState := st, r_status := Retrying,
                 r_pc := RWait err (retry_wait (r_opts r) counter) (r_now r)\<rparr>)
      | _ \<Rightarrow> None)"
| "retry_act RWaitDone r =
     (case r_pc r of
        RWait err wait t \<Rightarrow> if r_ctx r \<noteq> None then Some (retry_break r err) else None
      | _ \<Rightarrow> None)"
| "retry_act RWaitCancelled r =
     (case r_pc r of
        RWait err wait t \<Rightarrow> if r_retryCancel r then Some (retry_break r err) else None
      | _ \<Rightarrow> None)"
| "retry_act RWaitElapsed r =
     (case r_pc r of
        RWait err wait t \<Rightarrow> if wait \<le> r_now r - t then Some (retry_attempt r) else None
      | _ \<Rightarrow> None)"
| "retry_act RReturn r =
     (case r_pc r of RReturning err \<Rightarrow> Some ((retry_cancel r err)\<lparr>r_pc := RReturned err\<rparr>) | _ \<Rightarrow> None)"
| "retry_act RCallStop r = Some (retry_Stop r)"
| "retry_act RCallKill r = Some (retry_Kill r)"
| "retry_act (RParentCancelled c) r =
     Some (r\<lparr>r_base := cancel_cause (r_base r) c, r_ctx := cancel_cause (r_ctx r) c,
             r_must := Option.bind (r_must r) (must_act (ParentCancelled c))\<rparr>)"
| "retry_act (RTick d) r =
     (if 0 < d
      then Some (r\<lparr>r_now := r_now r + d, r_must := Option.bind (r_must r) (must_act (Tick d))\<rparr>)
      else None)"

inductive retry_run :: "retry \<Rightarrow> retry_ev list \<Rightarrow> retry \<Rightarrow> bool" where
  rrun_nil: "retry_run r [] r"
| rrun_snoc: "retry_run r evs r' \<Longrightarrow> retry_act ev r' = Some r'' \<Longrightarrow> retry_run r (evs @ [ev]) r''"

fun retry_exec :: "retry_ev list \<Rightarrow> retry \<Rightarrow> retry option" where
  "retry_exec [] r = Some r"
| "retry_exec (ev # evs) r = (case retry_act ev r of Some r' \<Rightarrow> retry_exec evs r' | None \<Rightarrow> None)"

lemmas retry_ops = retry_cancel_def disableRetries_def retry_Stop_def retry_Kill_def retry_attempt_def
  retry_break_def newRetryWorker_def Let_def

interpretation retry: cancellable retry_cancel r_ctx
  by unfold_locales (simp_all add: retry_cancel_def ctx.cancel_live)

inductive_cases retry_run_nilE: "retry_run r [] r'"
inductive_cases retry_run_snocE: "retry_run r (evs @ [ev]) r'"

lemma retry_run_append:
  "retry_run v fs w \<Longrightarrow> retry_run u es v \<Longrightarrow> retry_run u (es @ fs) w"
proof (induction rule: retry_run.induct)
  case (rrun_nil w)
  then show ?case by simp
next
  case (rrun_snoc w evs w' ev w'')
  from retry_run.rrun_snoc [OF rrun_snoc.IH [OF rrun_snoc.prems] rrun_snoc.hyps(2)] show ?case by simp
qed

lemma retry_exec_run: "retry_exec evs r = Some r' \<Longrightarrow> retry_run r evs r'"
proof (induction evs arbitrary: r)
  case Nil
  then show ?case by (simp add: rrun_nil)
next
  case (Cons ev evs)
  then obtain v where v: "retry_act ev r = Some v" "retry_exec evs v = Some r'"
    by (auto split: option.splits)
  have "retry_run r ([] @ [ev]) v" by (rule rrun_snoc [OF rrun_nil v(1)])
  from retry_run_append [OF Cons.IH [OF v(2)] this] show ?case by simp
qed

section \<open>The retry state\<close>

abbreviation st_tick :: "retry \<Rightarrow> u32" where "st_tick r \<equiv> fst (unpackErrorState (r_retryState r))"
abbreviation st_counter :: "retry \<Rightarrow> u32" where "st_counter r \<equiv> snd (unpackErrorState (r_retryState r))"

lemma st_tick_ucast: "(ucast (r_retryState r) :: u32) = st_tick r"
  by (simp add: unpackErrorState_def)

text \<open>Every step leaves the retry state alone but a stop, a kill and the count.\<close>

lemma retry_act_state [frame]:
  "retry_act ev r = Some r' \<Longrightarrow> ev \<notin> {RCallStop, RCallKill, RTryCount} \<Longrightarrow>
   r_retryState r' = r_retryState r \<and> r_retryCancel r' = r_retryCancel r \<and> r_panic r' = r_panic r"
  by (cases ev) (auto simp: retry_ops split: if_splits option.splits retry_pc.splits must_pc.splits)

lemma retry_act_opts [frame]: "retry_act ev r = Some r' \<Longrightarrow> r_opts r' = r_opts r"
  by (cases ev) (auto simp: retry_ops split: if_splits option.splits retry_pc.splits must_pc.splits prod.splits)

lemma retry_act_now [frame]: "retry_act ev r = Some r' \<Longrightarrow> r_now r \<le> r_now r'"
  by (cases ev) (auto simp: retry_ops split: if_splits option.splits retry_pc.splits must_pc.splits prod.splits)

lemma disableRetries_state:
  "st_tick (disableRetries r) = retryTickDead \<and> st_counter (disableRetries r) = st_counter r"
  by (auto simp: disableRetries_def Let_def split: prod.splits)

lemma disableRetries_pc [simp]:
  "r_pc (disableRetries r) = r_pc r" "r_opts (disableRetries r) = r_opts r" "r_must (disableRetries r) = r_must r"
  "r_ctx (disableRetries r) = r_ctx r" "r_now (disableRetries r) = r_now r" "r_base (disableRetries r) = r_base r"
  "r_status (disableRetries r) = r_status r"
  by (auto simp: disableRetries_def Let_def split: prod.splits)

definition retry_inv :: "retry \<Rightarrow> bool" where
  "retry_inv r \<longleftrightarrow>
     \<not> r_panic r \<and> (r_retryCancel r \<longrightarrow> st_tick r = retryTickDead)
     \<and> (\<forall>e. r_pc r = RReturned e \<longrightarrow> r_ctx r \<noteq> None)
     \<and> 0 < Period (RetryLimit (r_opts r))"

lemma retry_inv_disable [inv_intros]: "retry_inv r \<Longrightarrow> retry_inv (disableRetries r)"
  by (auto simp: retry_inv_def disableRetries_def Let_def split: prod.splits)

lemma retry_count_total:
  "0 < Period rate \<Longrightarrow> \<exists>st c. retry_count rate now s = Some (st, c)"
  by (auto simp: retry_count_def rate_ToTicks_def Let_def split: prod.splits)

lemma retry_count_dead:
  "retry_count rate now s = Some (st, c) \<Longrightarrow> fst (unpackErrorState s) = retryTickDead \<Longrightarrow> st = s \<and> c = None"
  by (auto simp: retry_count_def Let_def split: prod.splits option.splits)

lemma retry_act_ctx [frame]: "retry_act ev r = Some r' \<Longrightarrow> r_ctx r = Some c \<Longrightarrow> r_ctx r' = Some c"
  by (cases ev)
     (auto simp: retry_ops split: if_splits option.splits retry_pc.splits must_pc.splits prod.splits)

lemma retry_act_returned:
  "retry_act ev r = Some r' \<Longrightarrow> r_pc r' = RReturned e \<Longrightarrow> r_pc r = RReturned e \<or> r_ctx r' \<noteq> None"
  by (cases ev)
     (auto simp: retry_ops split: if_splits option.splits retry_pc.splits must_pc.splits prod.splits)

lemma retry_act_count:
  assumes "retry_act RTryCount r = Some r'" and "retry_inv r"
  shows "\<not> r_panic r' \<and> r_retryCancel r' = r_retryCancel r
    \<and> (r_retryCancel r \<longrightarrow> r_retryState r' = r_retryState r)"
proof -
  from assms(2) obtain st c where c: "retry_count (RetryLimit (r_opts r)) (r_now r) (r_retryState r) = Some (st, c)"
    using retry_count_total unfolding retry_inv_def by blast
  have "st = r_retryState r" if "r_retryCancel r"
    using retry_count_dead [OF c] assms(2) that by (simp add: retry_inv_def)
  with c assms show ?thesis
    by (auto simp: retry_inv_def retry_break_def split: retry_pc.splits option.splits)
qed

lemma retry_act_inv [inv_intros]:
  assumes a: "retry_act ev r = Some r'" and inv: "retry_inv r"
  shows "retry_inv r'"
proof -
  have pc: "r_pc r' = RReturned e \<Longrightarrow> r_ctx r' \<noteq> None" for e
    using retry_act_returned [OF a] retry_act_ctx [OF a] inv by (auto simp: retry_inv_def)
  have P: "0 < Period (RetryLimit (r_opts r'))"
    using retry_act_opts [OF a] inv by (simp add: retry_inv_def)
  have "\<not> r_panic r' \<and> (r_retryCancel r' \<longrightarrow> st_tick r' = retryTickDead)"
  proof (cases "ev \<in> {RCallStop, RCallKill, RTryCount}")
    case False
    with retry_act_state [OF a] inv show ?thesis by (simp add: retry_inv_def)
  next
    case True
    then consider "ev \<in> {RCallStop, RCallKill}" | "ev = RTryCount" by blast
    then show ?thesis
    proof cases
      case 1
      then have "r_retryState r' = r_retryState (disableRetries r) \<and> r_panic r' = r_panic (disableRetries r)
          \<and> r_retryCancel r' = r_retryCancel (disableRetries r)"
        using a by (auto simp: retry_Stop_def retry_Kill_def Let_def)
      then show ?thesis using retry_inv_disable [OF inv] by (simp add: retry_inv_def)
    next
      case 2
      then show ?thesis using retry_act_count [of r r'] a inv by (auto simp: retry_inv_def)
    qed
  qed
  with pc P show ?thesis by (auto simp: retry_inv_def)
qed

lemma retry_inv_new [inv_intros]: "0 < Period (RetryLimit opts) \<Longrightarrow> retry_inv (newRetryWorker base opts now)"
  by (simp add: retry_inv_def newRetryWorker_def)

lemma retry_run_inv: "retry_run r evs r' \<Longrightarrow> retry_inv r \<Longrightarrow> retry_inv r'"
  by (induction rule: retry_run.induct) (auto intro: retry_act_inv)

lemma retry_run_opts: "retry_run r evs r' \<Longrightarrow> r_opts r' = r_opts r"
  by (induction rule: retry_run.induct) (auto dest: retry_act_opts)

lemma retry_run_now: "retry_run r evs r' \<Longrightarrow> r_now r \<le> r_now r'"
  by (induction rule: retry_run.induct) (auto dest: retry_act_now)

section \<open>The retry limit\<close>

abbreviation limit :: "retry \<Rightarrow> int" where "limit r \<equiv> uint (Count (RetryLimit (r_opts r)))"
abbreviation now_tick :: "retry \<Rightarrow> int" where "now_tick r \<equiv> r_now r div Period (RetryLimit (r_opts r))"

definition pending :: "retry \<Rightarrow> int" where
  "pending r = (case r_pc r of RWait _ _ _ \<Rightarrow> 1 | _ \<Rightarrow> 0)"

definition leaving :: "retry \<Rightarrow> bool" where
  "leaving r \<longleftrightarrow> (case r_pc r of RReturning _ \<Rightarrow> True | RReturned _ \<Rightarrow> True | _ \<Rightarrow> False)"

text \<open>
  \<open>k\<close> granted retries since tick \<open>T0\<close> fit the limit: up to tick \<open>Ts\<close>, the one of the last count,
  they are a full quota per tick before it and the counter for it.
\<close>

definition counted :: "int \<Rightarrow> int \<Rightarrow> retry \<Rightarrow> bool" where
  "counted T0 k r \<longleftrightarrow> (\<exists>Ts. T0 \<le> Ts \<and> Ts \<le> now_tick r
      \<and> k \<le> limit r * (Ts - T0) + uint (st_counter r) \<and> uint (st_counter r) \<le> limit r
      \<and> (k \<le> 0 \<and> st_counter r = 0 \<or> st_tick r = word_of_int Ts \<or> st_tick r = retryTickDead))"

lemma retry_act_pending:
  "retry_act ev r = Some r' \<Longrightarrow> ev \<noteq> RTryCount \<Longrightarrow>
   pending r' + (if ev = RWaitElapsed then 1 else 0) \<le> pending r"
  by (cases ev)
     (auto simp: retry_ops pending_def split: if_splits option.splits retry_pc.splits must_pc.splits prod.splits)

lemma retry_act_leaving:
  "retry_act ev r = Some r' \<Longrightarrow> leaving r \<Longrightarrow> leaving r' \<and> ev \<noteq> RWaitElapsed"
  by (cases ev)
     (auto simp: retry_ops leaving_def split: if_splits option.splits retry_pc.splits must_pc.splits prod.splits)

lemma stop_keeps_counter:
  "retry_act ev r = Some r' \<Longrightarrow> ev \<in> {RCallStop, RCallKill} \<Longrightarrow>
   st_tick r' = retryTickDead \<and> st_counter r' = st_counter r"
  using disableRetries_state [of r] by (auto simp: retry_Stop_def retry_Kill_def Let_def)

lemma counted_mono:
  assumes "counted T0 k r" and "k' \<le> k" and "r_opts r' = r_opts r" and "now_tick r \<le> now_tick r'"
    and "st_counter r' = st_counter r" and "st_tick r' = st_tick r \<or> st_tick r' = retryTickDead"
  shows "counted T0 k' r'"
  using assms unfolding counted_def by (elim exE) (rule_tac x = Ts in exI, auto)

lemma counted_bound:
  assumes "counted T0 k r"
  shows "k \<le> limit r * (now_tick r - T0 + 1)"
proof -
  from assms obtain Ts where Ts: "T0 \<le> Ts" "Ts \<le> now_tick r"
    "k \<le> limit r * (Ts - T0) + uint (st_counter r)" "uint (st_counter r) \<le> limit r"
    unfolding counted_def by blast
  then have "k \<le> limit r * (Ts - T0) + limit r" by linarith
  moreover have "limit r * (Ts - T0 + 1) \<le> limit r * (now_tick r - T0 + 1)"
    using \<open>Ts \<le> now_tick r\<close> by (intro mult_left_mono) auto
  ultimately show ?thesis by (simp add: algebra_simps)
qed

lemma uint_Suc_u32: "uint (c :: u32) < 2 ^ 32 - 1 \<Longrightarrow> uint (c + 1) = uint c + 1"
  by (simp add: uint_word_ariths)

lemma ToTicks_eq:
  assumes "0 < Period rate" and "0 \<le> now" and "now < 2 ^ 63"
  shows "rate_ToTicks rate now = Some (word_of_int (now div Period rate))"
proof -
  have "0 \<le> now div Period rate" "now div Period rate \<le> now"
    using assms zdiv_mono2 [of now 1 "Period rate"] by (simp_all add: pos_imp_zdiv_nonneg_iff)
  then have "int64_ok (now div Period rate)" using assms(3) by (auto simp: int64_ok_def)
  then show ?thesis using assms by (simp add: rate_ToTicks_def)
qed

text \<open>A granted retry uses one more of the quota of its tick.\<close>

lemma counted_grant:
  assumes k: "counted T0 k r" and P: "0 < Period (RetryLimit (r_opts r))" and now: "0 \<le> r_now r" "r_now r < 2 ^ 63"
    and lim: "limit r < 2 ^ 32 - 1"
    and c: "retry_count (RetryLimit (r_opts r)) (r_now r) (r_retryState r) = Some (st, Some n)"
    and r': "r_retryState r' = st" "r_opts r' = r_opts r" "r_now r' = r_now r"
  shows "counted T0 (k + 1) r'"
proof -
  let ?T = "now_tick r" and ?L = "limit r" and ?C = "st_counter r"
  from k obtain Ts where Ts: "T0 \<le> Ts" "Ts \<le> ?T" "k \<le> ?L * (Ts - T0) + uint ?C" "uint ?C \<le> ?L"
    "k \<le> 0 \<and> ?C = 0 \<or> st_tick r = word_of_int Ts \<or> st_tick r = retryTickDead"
    unfolding counted_def by blast
  have live: "st_tick r \<noteq> retryTickDead" using retry_count_dead [OF c] by blast
  have "\<not> Count (RetryLimit (r_opts r)) < n"
    using c live by (auto simp: retry_count_def ToTicks_eq [OF P now] Let_def split: prod.splits if_splits)
  then have nL: "uint n \<le> ?L" by (simp add: word_le_def not_less)
  have n: "st = packErrorState (word_of_int ?T) n"
     "n = (if st_tick r \<noteq> word_of_int ?T then 1 else ?C + 1)"
    using c live by (auto simp: retry_count_def ToTicks_eq [OF P now] Let_def split: prod.splits if_splits)
  have bound: "k + 1 \<le> ?L * (?T - T0) + uint n"
  proof (cases "st_tick r = word_of_int ?T")
    case True
    then have "uint n = uint ?C + 1" using n(2) Ts(4) lim uint_Suc_u32 [of ?C] by simp
    moreover have "?L * (Ts - T0) \<le> ?L * (?T - T0)" using Ts(2) by (intro mult_left_mono) auto
    ultimately show ?thesis using Ts(3) by simp
  next
    case False
    then have n1: "uint n = 1" using n(2) by simp
    show ?thesis
    proof (cases "k \<le> 0")
      case True
      have "0 \<le> ?L * (?T - T0)" using Ts by simp
      with True n1 show ?thesis by simp
    next
      case False
      with Ts(5) live have "st_tick r = word_of_int Ts" by blast
      with \<open>st_tick r \<noteq> word_of_int ?T\<close> have "Ts \<noteq> ?T" by auto
      with Ts(2) have "?L * (Ts - T0 + 1) \<le> ?L * (?T - T0)" by (intro mult_left_mono) auto
      with Ts(3,4) n1 show ?thesis by (simp add: algebra_simps)
    qed
  qed
  show ?thesis
    unfolding counted_def by (rule exI [of _ ?T]) (use Ts bound nL n(1) r' in auto)
qed

definition within_limit :: "int \<Rightarrow> int \<Rightarrow> retry \<Rightarrow> bool" where
  "within_limit T0 k r \<longleftrightarrow>
     (if leaving r then k \<le> limit r * (now_tick r - T0 + 1) else counted T0 (k + pending r) r)"

lemma pending_nonneg: "0 \<le> pending r"
  by (simp add: pending_def split: retry_pc.splits)

lemma within_limit_bound: "within_limit T0 k r \<Longrightarrow> k \<le> limit r * (now_tick r - T0 + 1)"
  using counted_bound [of T0 "k + pending r" r] pending_nonneg [of r]
  by (auto simp: within_limit_def split: if_splits)

lemma within_limit_step:
  assumes a: "retry_act ev r = Some r'" and w: "within_limit T0 k r" and inv: "retry_inv r"
    and now: "0 \<le> r_now r" "r_now r < 2 ^ 63" and lim: "limit r < 2 ^ 32 - 1"
  shows "within_limit T0 (k + (if ev = RWaitElapsed then 1 else 0)) r'"
proof -
  let ?k = "k + (if ev = RWaitElapsed then 1 else 0)"
  have P: "0 < Period (RetryLimit (r_opts r))" using inv by (simp add: retry_inv_def)
  have o: "r_opts r' = r_opts r" by (rule retry_act_opts [OF a])
  have t: "now_tick r \<le> now_tick r'" using zdiv_mono1 [OF retry_act_now [OF a] P] o by simp
  have L: "limit r * (now_tick r - T0 + 1) \<le> limit r' * (now_tick r' - T0 + 1)"
    using t by (simp add: o mult_left_mono)
  show ?thesis
  proof (cases "leaving r")
    case True
    then show ?thesis using retry_act_leaving [OF a] w L by (simp add: within_limit_def)
  next
    case False
    then have c: "counted T0 (k + pending r) r" using w by (simp add: within_limit_def)
    show ?thesis
    proof (cases "ev = RTryCount")
      case False
      have st: "st_counter r' = st_counter r \<and> (st_tick r' = st_tick r \<or> st_tick r' = retryTickDead)"
        using retry_act_state [OF a] stop_keeps_counter [OF a] False
        by (cases "ev \<in> {RCallStop, RCallKill}") auto
      have "counted T0 (?k + pending r') r'"
        using retry_act_pending [OF a False] st o t by (intro counted_mono [OF c]) auto
      then show ?thesis
        using counted_bound pending_nonneg [of r'] by (fastforce simp: within_limit_def)
    next
      case True
      then obtain err where pc: "r_pc r = RCount err" using a by (auto split: retry_pc.splits)
      then have p0: "pending r = 0" by (simp add: pending_def)
      obtain st n where cnt: "retry_count (RetryLimit (r_opts r)) (r_now r) (r_retryState r) = Some (st, n)"
        using retry_count_total [OF P] by blast
      show ?thesis
      proof (cases n)
        case None
        then have "leaving r'" "r_now r' = r_now r"
          using a True pc cnt by (auto simp: leaving_def retry_break_def)
        then show ?thesis using counted_bound [OF c] p0 o True by (simp add: within_limit_def)
      next
        case (Some m)
        then have r': "r' = r\<lparr>r_retryState := st, r_status := Retrying,
            r_pc := RWait err (retry_wait (r_opts r) m) (r_now r)\<rparr>"
          using a True pc cnt by simp
        have "counted T0 (k + 0 + 1) r'"
          using counted_grant [OF c P now lim] cnt Some p0 by (simp add: r')
        then show ?thesis using True by (simp add: within_limit_def leaving_def pending_def r')
      qed
    qed
  qed
qed

lemma within_limit_run:
  assumes "retry_run r evs r'" and "retry_inv r" and "within_limit T0 k r" and "0 \<le> r_now r"
    and "r_now r' < 2 ^ 63" and "limit r < 2 ^ 32 - 1"
  shows "within_limit T0 (k + int (count_list evs RWaitElapsed)) r'"
  using assms
proof (induction rule: retry_run.induct)
  case (rrun_nil r)
  then show ?case by simp
next
  case (rrun_snoc r evs r' ev r'')
  have now: "r_now r' < 2 ^ 63" "0 \<le> r_now r'"
    using retry_act_now [OF rrun_snoc.hyps(2)] retry_run_now [OF rrun_snoc.hyps(1)] rrun_snoc.prems by simp_all
  have lim: "limit r' < 2 ^ 32 - 1"
    using retry_run_opts [OF rrun_snoc.hyps(1)] rrun_snoc.prems(5) by simp
  have "within_limit T0 (k + int (count_list evs RWaitElapsed)) r'"
    using rrun_snoc.IH rrun_snoc.prems now by simp
  from within_limit_step [OF rrun_snoc.hyps(2) this retry_run_inv [OF rrun_snoc.hyps(1) rrun_snoc.prems(1)] now(2,1) lim]
  show ?case by (cases "ev = RWaitElapsed") (simp_all add: ac_simps)
qed

lemma within_limit_new:
  assumes "0 < Period (RetryLimit opts)"
  shows "within_limit (now div Period (RetryLimit opts)) 0 (newRetryWorker base opts now)"
  using assms
  by (auto simp: within_limit_def leaving_def pending_def counted_def newRetryWorker_def unpackErrorState_def)

lemma WithDefaults_limit: "0 < Period (RetryLimit (WithDefaults opts)) \<and> uint (Count (RetryLimit (WithDefaults opts))) \<le> 10"
  using default_limit_range [of "RetryLimit opts"]
  by (auto simp: WithDefaults_def duration_units word_le_def)

text \<open>
  C1. The retry limit holds over any run. With \<open>Count\<close> retries per \<open>Period\<close>, a worker that has run
  from time \<open>now\<close> to time \<open>r_now r\<close> has restarted its task at most \<open>Count\<close> times for each period
  of the clock the run has touched, whatever the attempts did and whoever stopped them.
\<close>

theorem restarts_limited:
  assumes "retry_run (newRetryWorker base (WithDefaults opts) now) evs r" and "0 \<le> now" and "r_now r < 2 ^ 63"
  shows "int (count_list evs RWaitElapsed)
    \<le> uint (Count (RetryLimit (WithDefaults opts)))
       * (r_now r div Period (RetryLimit (WithDefaults opts)) - now div Period (RetryLimit (WithDefaults opts)) + 1)"
proof -
  let ?r = "newRetryWorker base (WithDefaults opts) now"
  have r0: "r_now ?r = now" "r_opts ?r = WithDefaults opts" by (simp_all add: newRetryWorker_def)
  have P: "0 < Period (RetryLimit (WithDefaults opts))" and L: "limit ?r < 2 ^ 32 - 1"
    using WithDefaults_limit [of opts] r0 by simp_all
  have "within_limit (now div Period (RetryLimit (WithDefaults opts))) (0 + int (count_list evs RWaitElapsed)) r"
    using within_limit_run [OF assms(1) retry_inv_new [OF P] within_limit_new [OF P]] assms(2,3) L r0 by simp
  from within_limit_bound [OF this] show ?thesis
    using retry_run_opts [OF assms(1)] r0 by simp
qed

section \<open>Stopping a retrier\<close>

lemma dead_step:
  assumes "retry_act ev r = Some r'" and "st_tick r = retryTickDead"
  shows "st_tick r' = retryTickDead \<and> pending r' + (if ev = RWaitElapsed then 1 else 0) \<le> pending r"
proof (cases "ev = RTryCount")
  case False
  have "st_tick r' = retryTickDead"
    using retry_act_state [OF assms(1)] stop_keeps_counter [OF assms(1)] False assms(2)
    by (cases "ev \<in> {RCallStop, RCallKill}") auto
  then show ?thesis using retry_act_pending [OF assms(1) False] by simp
next
  case True
  have "retry_count (RetryLimit (r_opts r)) (r_now r) (r_retryState r) = Some (r_retryState r, None)"
    using assms(2) by (auto simp: retry_count_def split: prod.splits)
  then show ?thesis
    using assms True by (auto simp: pending_def retry_break_def split: retry_pc.splits)
qed

lemma dead_run:
  "retry_run r evs r' \<Longrightarrow> st_tick r = retryTickDead \<Longrightarrow>
   st_tick r' = retryTickDead \<and> pending r' + int (count_list evs RWaitElapsed) \<le> pending r"
proof (induction rule: retry_run.induct)
  case (rrun_nil r)
  then show ?case by simp
next
  case (rrun_snoc r evs r' ev r'')
  then show ?case using dead_step [OF rrun_snoc.hyps(2)] by auto
qed

text \<open>
  C19. A stop or a kill disables the retries for good: in no run after it is the retry state
  enabled again, and the task is restarted at most once more, and then only when the worker was
  waiting out a back-off at the moment of the stop.
\<close>

theorem stop_disables_retries:
  assumes "r = retry_Stop r0 \<or> r = retry_Kill r0" and "retry_run r evs r'"
  shows "(ucast (r_retryState r') :: u32) = retryTickDead
    \<and> count_list evs RWaitElapsed \<le> (case r_pc r0 of RWait _ _ _ \<Rightarrow> 1 | _ \<Rightarrow> 0)"
proof -
  have "st_tick r = retryTickDead" "r_pc r = r_pc r0"
    using assms(1) disableRetries_state [of r0] by (auto simp: retry_Stop_def retry_Kill_def Let_def)
  with dead_run [OF assms(2)] pending_nonneg [of r'] show ?thesis
    by (auto simp: st_tick_ucast pending_def split: retry_pc.splits)
qed

section \<open>The back-off\<close>

lemma fl_between:
  assumes "of_int a \<le> x" and "x \<le> of_int b" and "0 \<le> a" and "b \<le> 2 ^ 53"
  shows "\<exists>y. fl x = Fin y \<and> of_int a \<le> y \<and> y \<le> of_int b"
proof -
  have ab: "a \<le> b" using assms(1,2) order_trans of_int_le_iff by metis
  have "\<bar>x\<bar> \<le> of_int b" using assms by (simp add: abs_le_iff)
  then have "fl x = Fin (fl_rat x)" using assms(4) by (rule fl_Fin)
  moreover have "of_int a \<le> fl_rat x" "fl_rat x \<le> of_int b"
    using fl_rat_mono [OF assms(1)] fl_rat_mono [OF assms(2)] ab assms(3,4)
      fl_rat_of_int [of a] fl_rat_of_int [of b] by simp_all
  ultimately show ?thesis by blast
qed

lemma fl_0 [simp]: "fl 0 = Fin 0"
  and fl_half [simp]: "fl (1 / 2) = Fin (1 / 2)"
  using fl_Fin [of 0 1] fl_Fin [of "1 / 2" 1] by simp_all

lemma fl_unit: "0 \<le> x \<Longrightarrow> x \<le> 1 \<Longrightarrow> \<exists>y. fl x = Fin y \<and> 0 \<le> y \<and> y \<le> 1 \<and> (x = 0 \<longrightarrow> y = 0)"
  using fl_between [of 0 x 1] by (cases "x = 0") auto

lemma fl_half_interval:
  assumes "1 / 2 \<le> x" and "x \<le> 3 / 2"
  shows "\<exists>y. fl x = Fin y \<and> 1 / 2 \<le> y \<and> y \<le> 3 / 2 \<and> (x = 1 / 2 \<longrightarrow> y = 1 / 2)"
proof -
  have "fl x = Fin (fl_rat x)" by (rule fl_Fin [of _ 2]) (use assms in auto)
  moreover have "fl_rat (3 / 2) = 3 / 2"
    using fl_rat_exact [of 3 "- 1"] by (simp add: power_int_minus)
  moreover have "x = 1 / 2 \<Longrightarrow> fl_rat x = 1 / 2" by (simp only: fl_rat_half)
  ultimately show ?thesis
    using fl_rat_mono [OF assms(1)] fl_rat_mono [OF assms(2)] fl_rat_half by (intro exI [of _ "fl_rat x"]) simp
qed

lemma rat_trunc_between:
  assumes "of_int a \<le> x" and "x \<le> of_int b" and "0 \<le> a"
  shows "a \<le> rat_trunc x \<and> rat_trunc x \<le> b"
proof -
  have "(0 :: rat) \<le> of_int a" using assms(3) by simp
  with assms(1) have "0 \<le> x" by linarith
  then show ?thesis
    using floor_mono [OF assms(1)] floor_mono [OF assms(2)] by (simp add: rat_trunc_nonneg)
qed

text \<open>The ratio of the counter to the limit, clamped to the unit interval.\<close>

lemma clamped_ratio:
  assumes "0 < l" and "0 \<le> c" and "c \<le> 2 ^ 53" and "l \<le> 2 ^ 53"
  shows "\<exists>y. f64_max (f64_min (f64_div (f64_of_int c) (f64_of_int l)) (Fin 1)) (Fin 0) = Fin y \<and> 0 \<le> y \<and> y \<le> 1
     \<and> (c = 0 \<longrightarrow> y = 0)"
proof -
  let ?q = "of_int c / of_int l :: rat"
  have q: "0 \<le> ?q" "?q \<le> of_int c"
  proof -
    have "(1 :: rat) \<le> of_int l" using assms(1) by simp
    with assms show "0 \<le> ?q" "?q \<le> of_int c"
      using mult_left_mono [of 1 "of_int l" "of_int c :: rat"] by (simp_all add: pos_divide_le_eq)
  qed
  then obtain y where y: "fl ?q = Fin y" "0 \<le> y" using fl_between [of 0 ?q c] assms by auto
  have "c = 0 \<Longrightarrow> y = 0" using y by simp
  with y assms show ?thesis
    by (auto simp: f64_of_int_exact f64_max_def f64_min_def)
qed

lemma scaled_between:
  assumes B: "0 \<le> B" "B \<le> 2 ^ 50" and h: "1 / 2 \<le> h" "h \<le> 3 / 2"
  shows "\<exists>v. f64_mul (f64_mul (Fin (of_int B)) (Fin h)) (Fin 2) = Fin v \<and> of_int B \<le> v \<and> v \<le> of_int (3 * B)
    \<and> (h = 1 / 2 \<longrightarrow> v = of_int B)"
proof -
  have B0: "(0 :: rat) \<le> of_int B" using B by simp
  have half: "fl_rat (of_int B / 2) = of_int B / 2" "fl_rat (of_int (3 * B) / 2) = of_int (3 * B) / 2"
    using fl_rat_exact [of B "- 1"] fl_rat_exact [of "3 * B" "- 1"] B by (simp_all add: power_int_minus)
  have p: "of_int B / 2 \<le> of_int B * h" "of_int B * h \<le> of_int (3 * B) / 2"
    using mult_left_mono [OF h(1) B0] mult_left_mono [OF h(2) B0] by simp_all
  have bB: "\<bar>of_int B * h\<bar> \<le> of_int (2 * B)"
    using p B0 by (simp add: abs_le_iff)
  have u: "fl (of_int B * h) = Fin (fl_rat (of_int B * h))"
    by (rule fl_Fin [OF bB]) (use B in simp)
  have ub: "of_int B / 2 \<le> fl_rat (of_int B * h)" "fl_rat (of_int B * h) \<le> of_int (3 * B) / 2"
    using fl_rat_mono [OF p(1)] fl_rat_mono [OF p(2)] half by simp_all
  let ?x = "fl_rat (of_int B * h) * 2"
  have "of_int B \<le> ?x" "?x \<le> of_int (3 * B)" using ub by simp_all
  from fl_between [OF this] obtain v where v: "fl ?x = Fin v" "of_int B \<le> v" "v \<le> of_int (3 * B)"
    using B by auto
  have "v = of_int B" if "h = 1 / 2"
  proof -
    have "of_int B * h = of_int B / 2" by (simp add: that)
    then have "?x = of_int B" by (simp only: half(1))
    then show ?thesis using v(1) f64_of_int_exact [of B] B by (simp add: f64_of_int_def)
  qed
  with u v show ?thesis by auto
qed



section \<open>Errors that are not retried\<close>

lemma NonRetriable_kept:
  "status_order order \<Longrightarrow> exit_error order (Some (NonRetriable x)) = Some (NonRetriable x)
   \<and> early_exit_error order (Some (NonRetriable x)) = Some (NonRetriable x)"
  by (simp add: exit_error_def early_exit_error_def NonRetriable_def StatusFromErr_none)

text \<open>
  C20. An error marked by \<open>NonRetriable\<close> ends the retries: the attempt's \<open>Run\<close> hands it on
  unwrapped, and the retrier leaves with it instead of counting another attempt. So does an exit
  without error, unless \<open>RetrySuccess\<close> is set.
\<close>

theorem final_results_not_retried:
  assumes "status_order order"
    and "r_pc r = RTry res"
    and "res = exit_error order (Some (NonRetriable x)) \<or> res = early_exit_error order (Some (NonRetriable x))
         \<or> res = None \<and> \<not> RetrySuccess (r_opts r)"
  shows "\<exists>r'. retry_act RTryCheck r = Some r' \<and> r_pc r' = RReturning res \<and> r_status r' = Idle
     \<and> r_retryState r' = r_retryState r"
  using assms(2,3) NonRetriable_kept [OF assms(1), of x]
  by (auto simp: retry_break_def retriable_def NonRetriable_def)

theorem final_results_not_retried_witness:
  "\<exists>r r'. retry_act RTryCheck r = Some r' \<and> r_pc r = RTry (Some (NonRetriable (Some (Msg ''bad request''))))
      \<and> r_pc r' = RReturning (Some (NonRetriable (Some (Msg ''bad request''))))"
proof -
  let ?e = "exit_error statuses (Some (NonRetriable (Some (Msg ''bad request''))))"
  let ?r = "(newRetryWorker None zero_options 0)\<lparr>r_pc := RTry ?e\<rparr>"
  have e: "?e = Some (NonRetriable (Some (Msg ''bad request'')))"
    using NonRetriable_kept [OF status_order_statuses] by blast
  have "r_pc ?r = RTry ?e" by simp
  with final_results_not_retried [OF status_order_statuses, of ?r ?e "Some (Msg ''bad request'')"] e
  show ?thesis by (metis (no_types, lifting))
qed

section \<open>A stop can be lost\<close>

lemma first_wait: "retry_wait (WithDefaults zero_options) 1 = 500000000"
proof -
  let ?o = "WithDefaults zero_options"
  have o: "RetryBackoffScale ?o = Fin 2" "RetryBackoff ?o = 500000000" "Count (RetryLimit ?o) = 10"
    by (simp_all add: WithDefaults_def zero_options_def dur_simps f64_le0_def default_limit_def rate_IsZero_def
        duration_units)
  have "f64_mul (f64_mul (Fin 500000000) (Fin (1 / 2))) (Fin 2) = Fin (of_int 500000000)"
    using scaled_between [of 500000000 "1 / 2"] by auto
  then show ?thesis
    using f64_of_int_exact [of 0] f64_of_int_exact [of 10] f64_of_int_exact [of 500000000]
    by (simp add: retry_wait_def o f64_max_def f64_min_def rat_trunc_def int64_ok_def Let_def)
qed

text \<open>A run into the first back-off: the task fails at once with \<open>exit 1\<close>.\<close>

definition fail_once :: "retry_ev list" where
  "fail_once =
     [RCallRun, RInner CallRun, RInner (LaunchReturns (Some (Some (Msg ''exit 1'')))), RInner (SelExit statuses),
      RInner DoReturn, RSelResult, RTryCheck, RTryCount]"

lemma default_limit_zero: "RetryLimit (WithDefaults zero_options) = \<lparr>Count = 10, Period = 30000000000\<rparr>"
  by (simp add: WithDefaults_def zero_options_def default_limit_def rate_IsZero_def duration_units)

lemma fail_once_waits:
  "\<exists>r. retry_exec fail_once (newRetryWorker None (WithDefaults zero_options) 0) = Some r
     \<and> r_pc r = RWait (Some (Msg ''exit 1'')) 500000000 0 \<and> r_ctx r = None \<and> r_base r = None \<and> r_now r = 0
     \<and> r_opts r = WithDefaults zero_options \<and> st_tick r = 0 \<and> \<not> r_retryCancel r
     \<and> (\<exists>m. r_must r = Some m \<and> w_ctx m \<noteq> None)"
proof -
  have e: "early_exit_error statuses (Some (Msg ''exit 1'')) = Some (Msg ''exit 1'')"
    by (simp add: early_exit_error_def StatusFromErr_none)
  have c: "retry_count \<lparr>Count = 10, Period = 30000000000\<rparr> 0 0 = Some (packErrorState 0 1, Some 1)"
    by (simp add: retry_count_def unpackErrorState_def rate_ToTicks_def int64_ok_def go_div_def Let_def
        retryTickDead_def)
  show ?thesis
    by (simp add: fail_once_def retry_ops must_ops e c first_wait default_limit_zero WithCancelOrOk_def
        retriable_def retryTickDead_def cancelOrOk_Cancel_def cancel_cause_def)
qed

text \<open>
  A stop can be lost. Called while the worker waits out its back-off with the wait just
  over, \<open>Stop\<close> finds only the previous attempt, which has ended; the select of \<open>tryRetry\<close> may
  then take the timer and not the cancelled channel, and a new attempt runs that nobody has told
  to stop.
\<close>

theorem stop_lost_in_backoff:
  "\<exists>evs r m. retry_run (newRetryWorker None (WithDefaults zero_options) 0) (evs @ [RCallStop, RWaitElapsed]) r
     \<and> r_must r = Some m \<and> r_pc r = RSelect \<and> w_pc m = NotRun \<and> w_ctx m = None \<and> \<not> w_stopChannelUsed m"
proof -
  obtain r m where r: "retry_exec fail_once (newRetryWorker None (WithDefaults zero_options) 0) = Some r"
    "r_pc r = RWait (Some (Msg ''exit 1'')) 500000000 0" "r_base r = None" "r_now r = 0"
    "st_tick r = 0" "\<not> r_retryCancel r" "r_must r = Some m"
    using fail_once_waits by blast
  obtain r' m' where "retry_exec [RTick 500000000, RCallStop, RWaitElapsed] r = Some r'" "r_must r' = Some m'"
    "r_pc r' = RSelect" "w_pc m' = NotRun" "w_ctx m' = None" "\<not> w_stopChannelUsed m'"
    using r by (auto simp: retry_Stop_def retry_attempt_def newMustWorker_def WithCancelOrOk_def Let_def)
  with retry_run_append [OF retry_exec_run retry_exec_run [OF r(1)]]
  have "retry_run (newRetryWorker None (WithDefaults zero_options) 0)
     ((fail_once @ [RTick 500000000]) @ [RCallStop, RWaitElapsed]) r'" by fastforce
  with \<open>r_must r' = Some m'\<close> \<open>r_pc r' = RSelect\<close> \<open>w_pc m' = NotRun\<close> \<open>w_ctx m' = None\<close> \<open>\<not> w_stopChannelUsed m'\<close>
  show ?thesis by blast
qed

theorem restarts_limited_witness:
  "\<exists>r. retry_run (newRetryWorker None (WithDefaults zero_options) 0) (fail_once @ [RTick 500000000, RWaitElapsed]) r
     \<and> int (count_list (fail_once @ [RTick 500000000, RWaitElapsed]) RWaitElapsed) \<le> 10"
proof -
  obtain r where r: "retry_exec fail_once (newRetryWorker None (WithDefaults zero_options) 0) = Some r"
    "r_pc r = RWait (Some (Msg ''exit 1'')) 500000000 0" "r_now r = 0"
    using fail_once_waits by blast
  obtain r' where r': "retry_exec [RTick 500000000, RWaitElapsed] r = Some r'" "r_now r' = 500000000"
    using r by (auto simp: retry_attempt_def)
  have run: "retry_run (newRetryWorker None (WithDefaults zero_options) 0) (fail_once @ [RTick 500000000, RWaitElapsed]) r'"
    using retry_run_append [OF retry_exec_run [OF r'(1)] retry_exec_run [OF r(1)]] .
  show ?thesis
    using restarts_limited [OF run] run r'(2) by (auto simp: default_limit_zero)
qed

theorem stop_disables_retries_witness:
  "\<exists>r. retry_run (retry_Stop (newRetryWorker None (WithDefaults zero_options) 0)) [RCallRun] r
     \<and> (ucast (r_retryState r) :: u32) = retryTickDead"
proof -
  let ?s = "retry_Stop (newRetryWorker None (WithDefaults zero_options) 0)"
  have "r_pc ?s = RNotRun" by (simp add: retry_Stop_def newRetryWorker_def)
  then have run: "retry_run ?s [RCallRun] (retry_attempt ?s)" by (intro retry_exec_run) simp
  from stop_disables_retries [OF disjI1 [OF refl] run] run show ?thesis by blast
qed

text \<open>
  C21. A retrier never panics with its defaults in place: the channel that cancels a back-off is
  closed at most once, only with the retries disabled, and no clock tick divides by zero; and
  when \<open>Run\<close> has returned the retrier's context is over.
\<close>

theorem retry_worker_safe:
  assumes "retry_run (newRetryWorker base (WithDefaults opts) now) evs r"
  shows "\<not> r_panic r \<and> (r_retryCancel r \<longrightarrow> (ucast (r_retryState r) :: u32) = retryTickDead)
    \<and> (\<forall>e. r_pc r = RReturned e \<longrightarrow> r_ctx r \<noteq> None)"
  using retry_run_inv [OF assms retry_inv_new] WithDefaults_limit [of opts]
  by (simp add: retry_inv_def st_tick_ucast)

theorem retry_worker_safe_witness:
  "\<exists>r. retry_run (newRetryWorker None (WithDefaults zero_options) 0) (fail_once @ [RCallStop]) r
     \<and> \<not> r_panic r \<and> r_retryCancel r"
proof -
  obtain r where r: "retry_exec fail_once (newRetryWorker None (WithDefaults zero_options) 0) = Some r"
    "st_tick r = 0" "\<not> r_retryCancel r"
    using fail_once_waits by blast
  have stop: "r_retryCancel (retry_Stop r)"
    using r(2,3) by (cases "unpackErrorState (r_retryState r)")
      (simp add: retry_Stop_def disableRetries_def Let_def retryTickDead_def)
  have "retry_exec [RCallStop] r = Some (retry_Stop r)" by simp
  from retry_run_append [OF retry_exec_run [OF this] retry_exec_run [OF r(1)]]
  have run: "retry_run (newRetryWorker None (WithDefaults zero_options) 0) (fail_once @ [RCallStop]) (retry_Stop r)" .
  from retry_worker_safe [OF run] run stop show ?thesis by blast
qed

end
