(* ===== verification/Pipe.thy ===== *)
theory Pipe
  imports Retry
begin

text \<open>
  \<open>pkg/task/task_pipe_mode.go\<close> and \<open>task_pipe.go\<close>: the pipelines of subtasks. A pipe asks its mode
  when to wait for the subtasks before the next one and what the end of a subtask does to the
  others; \<open>Launch\<close> is the loop of its goroutine and one goroutine per subtask.
\<close>

section \<open>The modes\<close>

datatype PipeMode = PipeOrdered | PipeParallel | PipeRace | PipeAny

fun PipeMode_String :: "PipeMode \<Rightarrow> string" where
  "PipeMode_String PipeParallel = ''parallel''"
| "PipeMode_String PipeOrdered = ''ordered''"
| "PipeMode_String PipeRace = ''race''"
| "PipeMode_String PipeAny = ''any''"

fun serialize :: "PipeMode \<Rightarrow> nat \<Rightarrow> nat \<Rightarrow> bool" where
  "serialize PipeParallel index count = False"
| "serialize PipeOrdered index count = True"
| "serialize PipeRace index count = False"
| "serialize PipeAny index count = False"

text \<open>\<open>end(err, cancel)\<close>, as its effect on the pipe's context.\<close>

fun mode_end :: "PipeMode \<Rightarrow> gerr option \<Rightarrow> ctx \<Rightarrow> ctx" where
  "mode_end PipeParallel err c = (if err \<noteq> None then cancelOrOk_Cancel c err else c)"
| "mode_end PipeOrdered err c = (if err \<noteq> None then cancelOrOk_Cancel c err else c)"
| "mode_end PipeRace err c = cancelOrOk_Cancel c err"
| "mode_end PipeAny err c = (if err = None then cancelOrOk_Cancel c None else c)"

definition PipeModes :: "PipeMode list" where
  "PipeModes = [PipeOrdered, PipeParallel, PipeRace, PipeAny]"

section \<open>The pipe\<close>

text \<open>
  A subtask's goroutine: before its select, in it, with the subtask's result before \<open>end\<close>, before
  the decrement of \<open>left\<close>, before the last cancellation, and done, with the result it saw unless
  it left because the pipe was over.
\<close>

datatype pipe_g =
    GStart
  | GSel
  | GEnd "gerr option"
  | GLeft "gerr option"
  | GLast "gerr option"
  | GDone "gerr option option"

text \<open>The loop: at its head, before \<open>serialize\<close>, in \<open>wg.Wait\<close>, before the spawn; behind it; returned.\<close>

datatype pipe_pc =
    PLoop nat
  | PSer nat
  | PWg nat
  | PSpawn nat
  | PJoin
  | PRet "gerr option"

record pipe =
  p_n :: nat
  p_ctx :: ctx
  p_left :: u32
  p_gs :: "pipe_g list"
  p_pc :: pipe_pc
  p_panic :: bool

text \<open>\<open>Launch\<close>: for no subtasks it returns the nil channel, on which nothing ever arrives.\<close>

definition pipe_Launch :: "ctx \<Rightarrow> nat \<Rightarrow> pipe option" where
  "pipe_Launch parent n =
     (if n = 0 then None
      else Some \<lparr>p_n = n, p_ctx = WithCancelOrOk parent, p_left = of_nat n, p_gs = [], p_pc = PLoop 0,
                 p_panic = False\<rparr>)"

definition wg_idle :: "pipe \<Rightarrow> bool" where
  "wg_idle p \<longleftrightarrow> (\<forall>g \<in> set (p_gs p). \<exists>r. g = GDone r)"

datatype pipe_ev =
    PCheck
  | PSerialize
  | PWgWait
  | PGo
  | GLaunch nat
  | GPipeDone nat
  | GSubtask nat "gerr option"
  | GCallEnd nat
  | GDecrement nat
  | GCancelNil nat
  | PDone
  | PParent gerr

text \<open>
  The mode is an interface value: the pair of its methods, or nil, on which a call panics.
  \<open>par\<close> is the type test on the mode at the end of \<open>Launch\<close>.
\<close>

type_synonym mode_ops = "((nat \<Rightarrow> nat \<Rightarrow> bool) \<times> (gerr option \<Rightarrow> ctx \<Rightarrow> ctx)) option"

definition goroutine :: "pipe \<Rightarrow> nat \<Rightarrow> pipe_g option" where
  "goroutine p k = (if k < length (p_gs p) then Some (p_gs p ! k) else None)"

definition set_g :: "pipe \<Rightarrow> nat \<Rightarrow> pipe_g \<Rightarrow> pipe" where
  "set_g p k g = p\<lparr>p_gs := (p_gs p)[k := g]\<rparr>"

fun pipe_act :: "mode_ops \<Rightarrow> bool \<Rightarrow> pipe_ev \<Rightarrow> pipe \<Rightarrow> pipe option" where
  "pipe_act ops par PCheck p =
     (case p_pc p of
        PLoop i \<Rightarrow> Some (p\<lparr>p_pc := if i < p_n p \<and> p_ctx p = None then PSer i else PJoin\<rparr>)
      | _ \<Rightarrow> None)"
| "pipe_act ops par PSerialize p =
     (case p_pc p of
        PSer i \<Rightarrow>
          (case ops of
             None \<Rightarrow> Some (p\<lparr>p_panic := True\<rparr>)
           | Some (ser, fin) \<Rightarrow> Some (p\<lparr>p_pc := if ser i (p_n p) then PWg i else PSpawn i\<rparr>))
      | _ \<Rightarrow> None)"
| "pipe_act ops par PWgWait p =
     (case p_pc p of PWg i \<Rightarrow> if wg_idle p then Some (p\<lparr>p_pc := PSpawn i\<rparr>) else None | _ \<Rightarrow> None)"
| "pipe_act ops par PGo p =
     (case p_pc p of
        PSpawn i \<Rightarrow>
          Some (if p_ctx p = None then p\<lparr>p_gs := p_gs p @ [GStart], p_pc := PLoop (Suc i)\<rparr>
                else p\<lparr>p_pc := PLoop (Suc i)\<rparr>)
      | _ \<Rightarrow> None)"
| "pipe_act ops par (GLaunch k) p =
     (if goroutine p k = Some GStart then Some (set_g p k GSel) else None)"
| "pipe_act ops par (GPipeDone k) p =
     (if goroutine p k = Some GSel \<and> p_ctx p \<noteq> None then Some (set_g p k (GDone None)) else None)"
| "pipe_act ops par (GSubtask k err) p =
     (if goroutine p k = Some GSel then Some (set_g p k (GEnd err)) else None)"
| "pipe_act ops par (GCallEnd k) p =
     (case goroutine p k of
        Some (GEnd err) \<Rightarrow>
          (case ops of
             None \<Rightarrow> Some (p\<lparr>p_panic := True\<rparr>)
           | Some (ser, fin) \<Rightarrow> Some ((set_g p k (GLeft err))\<lparr>p_ctx := fin err (p_ctx p)\<rparr>))
      | _ \<Rightarrow> None)"
| "pipe_act ops par (GDecrement k) p =
     (case goroutine p k of
        Some (GLeft err) \<Rightarrow>
          let left = p_left p - 1 in
          Some ((set_g p k (if left = 0 then GLast err else GDone (Some err)))\<lparr>p_left := left\<rparr>)
      | _ \<Rightarrow> None)"
| "pipe_act ops par (GCancelNil k) p =
     (case goroutine p k of
        Some (GLast err) \<Rightarrow> Some ((set_g p k (GDone (Some err)))\<lparr>p_ctx := cancelOrOk_Cancel (p_ctx p) None\<rparr>)
      | _ \<Rightarrow> None)"
| "pipe_act ops par PDone p =
     (if p_pc p = PJoin \<and> p_ctx p \<noteq> None
      then Some (p\<lparr>p_pc := PRet
             (case Cause (p_ctx p) of
                None \<Rightarrow> None
              | Some e \<Rightarrow> if par then Some (NonRetriable (Some e)) else Some e)\<rparr>)
      else None)"
| "pipe_act ops par (PParent c) p = Some (p\<lparr>p_ctx := cancel_cause (p_ctx p) c\<rparr>)"

definition ops_of :: "PipeMode \<Rightarrow> mode_ops" where
  "ops_of m = Some (serialize m, mode_end m)"

definition pipe_step :: "PipeMode option \<Rightarrow> pipe_ev \<Rightarrow> pipe \<Rightarrow> pipe option" where
  "pipe_step mode = pipe_act (case mode of None \<Rightarrow> None | Some m \<Rightarrow> ops_of m) (mode = Some PipeParallel)"

section \<open>What the goroutines have done\<close>

fun saw :: "pipe_g \<Rightarrow> gerr option option" where
  "saw (GLeft r) = Some r"
| "saw (GLast r) = Some r"
| "saw (GDone r) = r"
| "saw g = None"

fun counted_down :: "pipe_g \<Rightarrow> bool" where
  "counted_down (GLast r) = True"
| "counted_down (GDone r) = (r \<noteq> None)"
| "counted_down g = False"

text \<open>The results whose \<open>end\<close> has been called, the number of decrements, whether a goroutine is last.\<close>

definition ended :: "pipe_g list \<Rightarrow> gerr option set" where
  "ended gs = {r. \<exists>g \<in> set gs. saw g = Some r}"

definition downs :: "pipe_g list \<Rightarrow> nat" where
  "downs gs = length (filter counted_down gs)"

definition has_last :: "pipe_g list \<Rightarrow> bool" where
  "has_last gs \<longleftrightarrow> (\<exists>r. GLast r \<in> set gs)"

definition has_left :: "pipe_g list \<Rightarrow> bool" where
  "has_left gs \<longleftrightarrow> GDone None \<in> set gs"

lemma gs_start [simp]:
  "ended [] = {}" "downs [] = 0" "\<not> has_last []" "\<not> has_left []"
  "ended (gs @ [GStart]) = ended gs" "downs (gs @ [GStart]) = downs gs"
  "has_last (gs @ [GStart]) = has_last gs" "has_left (gs @ [GStart]) = has_left gs"
  by (auto simp: ended_def downs_def has_last_def has_left_def)

lemma set_update_hit: "k < length xs \<Longrightarrow> set (xs[k := y]) = insert y {xs ! j |j. j < length xs \<and> j \<noteq> k}"
  by (auto simp: set_conv_nth nth_list_update)

lemma set_split_nth: "k < length xs \<Longrightarrow> set xs = insert (xs ! k) {xs ! j |j. j < length xs \<and> j \<noteq> k}"
  by (auto simp: set_conv_nth)

lemma ended_update:
  assumes "k < length gs" and "saw (gs ! k) = None \<or> saw (gs ! k) = saw g"
  shows "ended (gs[k := g]) = (case saw g of None \<Rightarrow> ended gs | Some r \<Rightarrow> insert r (ended gs))"
  using assms(2) unfolding ended_def set_update_hit [OF assms(1)] set_split_nth [OF assms(1)]
  by (auto split: option.splits)

lemma downs_update:
  assumes "k < length gs"
  shows "downs (gs[k := g]) + of_bool (counted_down (gs ! k)) = downs gs + of_bool (counted_down g)"
  using assms unfolding downs_def
proof (induction gs arbitrary: k)
  case (Cons h gs)
  show ?case
  proof (cases k)
    case (Suc j)
    then show ?thesis using Cons.IH [of j] Cons.prems by simp
  qed simp
qed simp

lemma downs_Suc:
  "k < length gs \<Longrightarrow> \<not> counted_down (gs ! k) \<Longrightarrow> counted_down g \<Longrightarrow>
   downs (gs[k := g]) = Suc (downs gs) \<and> downs gs < length gs"
  using downs_update [of k gs g] length_filter_less [of "gs ! k" gs counted_down] by (simp add: downs_def)

lemma downs_same:
  "k < length gs \<Longrightarrow> counted_down (gs ! k) = counted_down g \<Longrightarrow> downs (gs[k := g]) = downs gs"
  using downs_update [of k gs g] by simp

lemma downs_le: "downs gs \<le> length gs"
  by (simp add: downs_def)

lemma has_last_update:
  "k < length gs \<Longrightarrow> \<forall>r. gs ! k \<noteq> GLast r \<Longrightarrow> has_last (gs[k := g]) \<longleftrightarrow> has_last gs \<or> (\<exists>r. g = GLast r)"
  unfolding has_last_def by (subst (2) set_split_nth [of k], assumption) (simp add: set_update_hit, metis)

lemma ended_nth: "k < length gs \<Longrightarrow> saw (gs ! k) = Some r \<Longrightarrow> r \<in> ended gs"
  unfolding ended_def using nth_mem by blast

lemma ended_same: "k < length gs \<Longrightarrow> saw (gs ! k) = saw g \<Longrightarrow> ended (gs[k := g]) = ended gs"
  using ended_nth [of k gs] by (subst ended_update) (auto split: option.splits)

lemma has_last_nth: "k < length gs \<Longrightarrow> gs ! k = GLast r \<Longrightarrow> has_last gs"
  unfolding has_last_def by (metis nth_mem)

lemma u32_of_nat_zero: "m < 2 ^ 32 \<Longrightarrow> (of_nat m :: u32) = 0 \<longleftrightarrow> m = 0"
  by (simp add: word_unat_eq_iff unat_of_nat)

lemma has_left_update:
  "k < length gs \<Longrightarrow> gs ! k \<noteq> GDone None \<Longrightarrow> has_left (gs[k := g]) \<longleftrightarrow> has_left gs \<or> g = GDone None"
  unfolding has_left_def by (subst (2) set_split_nth [of k], assumption) (auto simp: set_update_hit)

lemma goroutine_Some [simp]: "goroutine p k = Some g \<longleftrightarrow> k < length (p_gs p) \<and> p_gs p ! k = g"
  by (auto simp: goroutine_def)

lemma wg_idle_saw: "wg_idle p \<Longrightarrow> \<not> has_left (p_gs p) \<Longrightarrow> g \<in> set (p_gs p) \<Longrightarrow> \<exists>r. g = GDone (Some r)"
  unfolding wg_idle_def has_left_def by (metis option.exhaust)

section \<open>The invariant\<close>

definition at_place :: "pipe \<Rightarrow> bool" where
  "at_place p \<longleftrightarrow> length (p_gs p) \<le> p_n p \<and> 0 < p_n p \<and> p_n p < 2 ^ 32 \<and>
     (case p_pc p of
        PLoop i \<Rightarrow> i \<le> p_n p \<and> (length (p_gs p) = i \<or> p_ctx p \<noteq> None)
      | PSer i \<Rightarrow> i < p_n p \<and> length (p_gs p) = i
      | PWg i \<Rightarrow> i < p_n p \<and> length (p_gs p) = i
      | PSpawn i \<Rightarrow> i < p_n p \<and> length (p_gs p) = i
      | PJoin \<Rightarrow> length (p_gs p) = p_n p \<or> p_ctx p \<noteq> None
      | PRet r \<Rightarrow> p_ctx p \<noteq> None)"

definition counting :: "pipe \<Rightarrow> bool" where
  "counting p \<longleftrightarrow> p_left p = of_nat (p_n p - downs (p_gs p))
     \<and> (has_last (p_gs p) \<longrightarrow> downs (p_gs p) = p_n p)
     \<and> (downs (p_gs p) = p_n p \<longrightarrow> p_ctx p \<noteq> None \<or> has_last (p_gs p))"

text \<open>
  Why the pipe's context is over: the causes \<open>C\<close> its parent may have, a result that the mode takes
  as the end of the pipe, or that all subtasks have ended.
\<close>

definition ending :: "gerr set \<Rightarrow> (gerr option \<Rightarrow> ctx \<Rightarrow> ctx) \<Rightarrow> pipe \<Rightarrow> bool" where
  "ending C fin p \<longleftrightarrow>
     (has_left (p_gs p) \<longrightarrow> p_ctx p \<noteq> None)
     \<and> (\<forall>r \<in> ended (p_gs p). fin r None \<noteq> None \<longrightarrow> p_ctx p \<noteq> None)
     \<and> (\<forall>c. p_ctx p = Some c \<longrightarrow> c \<in> C \<or> (\<exists>r \<in> ended (p_gs p). fin r None = Some c)
          \<or> c = ErrOk \<and> downs (p_gs p) = p_n p \<and> (\<forall>r \<in> ended (p_gs p). fin r None = None))"

definition returning :: "bool \<Rightarrow> pipe \<Rightarrow> bool" where
  "returning par p \<longleftrightarrow>
     (\<forall>r. p_pc p = PRet r \<longrightarrow>
        r = (case Cause (p_ctx p) of None \<Rightarrow> None | Some e \<Rightarrow> if par then Some (NonRetriable (Some e)) else Some e))"

definition pipe_inv :: "gerr set \<Rightarrow> bool \<Rightarrow> (gerr option \<Rightarrow> ctx \<Rightarrow> ctx) \<Rightarrow> pipe \<Rightarrow> bool" where
  "pipe_inv C par fin p \<longleftrightarrow> at_place p \<and> counting p \<and> ending C fin p \<and> returning par p \<and> \<not> p_panic p"

fun parent_in :: "gerr set \<Rightarrow> pipe_ev \<Rightarrow> bool" where
  "parent_in C (PParent c) = (c \<in> C)"
| "parent_in C ev = True"

text \<open>The steps the pipe takes by itself: not the ends of its subtasks and of its parent.\<close>

fun internal :: "pipe_ev \<Rightarrow> bool" where
  "internal (GSubtask k r) = False"
| "internal (PParent c) = False"
| "internal ev = True"

section \<open>The contract of a mode\<close>

text \<open>
  What the pipe needs of its mode: \<open>end\<close> leaves a context that is over as it is, and ends a live one
  with the subtask's result or not at all.
\<close>

locale pipe_mode =
  fixes ser :: "nat \<Rightarrow> nat \<Rightarrow> bool" and fin :: "gerr option \<Rightarrow> ctx \<Rightarrow> ctx"
  assumes fin_over: "fin r (Some c) = Some c"
    and fin_live: "fin r None = None \<or> fin r None = Some (OrOk r)"
begin

abbreviation act :: "bool \<Rightarrow> pipe_ev \<Rightarrow> pipe \<Rightarrow> pipe option" where
  "act par \<equiv> pipe_act (Some (ser, fin)) par"

lemma act_ctx: "act par ev p = Some p' \<Longrightarrow> p_ctx p = Some c \<Longrightarrow> p_ctx p' = Some c"
  by (cases ev) (auto simp: set_g_def Let_def fin_over cancelOrOk_Cancel_def cancel_cause_def
      split: pipe_pc.splits option.splits pipe_g.splits if_splits)

lemma act_n: "act par ev p = Some p' \<Longrightarrow> p_n p' = p_n p"
  by (cases ev) (auto simp: set_g_def Let_def split: pipe_pc.splits option.splits pipe_g.splits if_splits)

lemma act_goroutine:
  "act par ev p = Some p' \<Longrightarrow> ev \<notin> {PCheck, PSerialize, PWgWait, PGo, PDone} \<Longrightarrow>
   p_pc p' = p_pc p \<and> length (p_gs p') = length (p_gs p)"
  by (cases ev) (auto simp: set_g_def Let_def split: option.splits pipe_g.splits if_splits)

lemma at_place_mono:
  "at_place p \<Longrightarrow> p_pc p' = p_pc p \<Longrightarrow> length (p_gs p') = length (p_gs p) \<Longrightarrow> p_n p' = p_n p \<Longrightarrow>
   (p_ctx p \<noteq> None \<Longrightarrow> p_ctx p' \<noteq> None) \<Longrightarrow> at_place p'"
  unfolding at_place_def by (cases "p_pc p") auto

lemma act_place_loop:
  "at_place p \<Longrightarrow> act par PCheck p = Some p' \<Longrightarrow> at_place p'"
  "at_place p \<Longrightarrow> act par PSerialize p = Some p' \<Longrightarrow> at_place p'"
  "at_place p \<Longrightarrow> act par PWgWait p = Some p' \<Longrightarrow> at_place p'"
  "at_place p \<Longrightarrow> act par PGo p = Some p' \<Longrightarrow> at_place p'"
  "at_place p \<Longrightarrow> act par PDone p = Some p' \<Longrightarrow> at_place p'"
  by (cases "p_pc p"; auto simp: at_place_def split: if_splits)+

lemma act_place:
  assumes "act par ev p = Some p'" and "at_place p"
  shows "at_place p'"
proof (cases "ev \<in> {PCheck, PSerialize, PWgWait, PGo, PDone}")
  case True
  with assms act_place_loop show ?thesis by blast
next
  case False
  show ?thesis
    by (rule at_place_mono [OF assms(2)])
       (use act_goroutine [OF assms(1) False] act_n [OF assms(1)] act_ctx [OF assms(1)] in auto)
qed

lemma act_panic: "act par ev p = Some p' \<Longrightarrow> p_panic p' = p_panic p"
  by (cases ev) (auto simp: set_g_def Let_def split: pipe_pc.splits option.splits pipe_g.splits if_splits)

lemma act_returning: "act par ev p = Some p' \<Longrightarrow> at_place p \<Longrightarrow> returning par p \<Longrightarrow> returning par p'"
  by (cases ev) (auto simp: returning_def at_place_def set_g_def Let_def fin_over cancelOrOk_Cancel_def cancel_cause_def
      split: pipe_pc.splits option.splits pipe_g.splits if_splits)

lemma counting_ctx:
  "counting p \<Longrightarrow> p_n p' = p_n p \<Longrightarrow> p_left p' = p_left p \<Longrightarrow> downs (p_gs p') = downs (p_gs p) \<Longrightarrow>
   has_last (p_gs p') = has_last (p_gs p) \<Longrightarrow> (p_ctx p \<noteq> None \<Longrightarrow> p_ctx p' \<noteq> None) \<Longrightarrow> counting p'"
  unfolding counting_def by auto

lemma counting_decrement:
  assumes "counting p" and "at_place p" and "act par (GDecrement k) p = Some p'"
  shows "counting p'"
proof -
  obtain r where k: "k < length (p_gs p)" "p_gs p ! k = GLeft r"
    and p': "p' = (set_g p k (if p_left p - 1 = 0 then GLast r else GDone (Some r)))\<lparr>p_left := p_left p - 1\<rparr>"
    using assms(3) by (auto simp: Let_def split: option.splits pipe_g.splits)
  let ?d = "downs (p_gs p)"
  have le: "Suc ?d \<le> p_n p" "p_n p < 2 ^ 32"
    using downs_Suc [OF k(1), of "GDone (Some r)"] k(2) assms(2) by (auto simp: at_place_def)
  have left: "p_left p = of_nat (p_n p - ?d)" using assms(1) by (simp add: counting_def)
  have left': "p_left p - 1 = of_nat (p_n p - Suc ?d)"
    using le unfolding left by (simp add: of_nat_diff)
  have zero: "p_left p - 1 = 0 \<longleftrightarrow> Suc ?d = p_n p"
    unfolding left' using le by (subst u32_of_nat_zero) auto
  have nl: "\<not> has_last (p_gs p)" using assms(1) le by (auto simp: counting_def)
  have g: "downs (p_gs p') = Suc ?d" "has_last (p_gs p') \<longleftrightarrow> Suc ?d = p_n p"
    using k nl zero by (auto simp: p' set_g_def downs_Suc has_last_update)
  show ?thesis
    unfolding counting_def g using left' g by (simp add: p' set_g_def)
qed

lemma act_counting:
  assumes "act par ev p = Some p'" and "counting p" and "at_place p"
  shows "counting p'"
proof (cases "\<exists>k. ev = GDecrement k")
  case True
  with assms counting_decrement show ?thesis by blast
next
  case False
  show ?thesis
  proof (cases "\<exists>k. ev = GCancelNil k")
    case True
    then show ?thesis
      using assms has_last_nth [of _ "p_gs p"]
      by (fastforce simp: counting_def set_g_def downs_same cancelOrOk_Cancel_def cancel_cause_def
          split: option.splits pipe_g.splits)
  next
    case no: False
    show ?thesis
    proof (rule counting_ctx [OF assms(2) act_n [OF assms(1)]])
      show "p_left p' = p_left p" "downs (p_gs p') = downs (p_gs p)" "has_last (p_gs p') = has_last (p_gs p)"
        using assms(1) False no
        by (cases ev; auto simp: set_g_def downs_same has_last_update split: pipe_pc.splits option.splits pipe_g.splits if_splits)+
    qed (use act_ctx [OF assms(1)] in auto)
  qed
qed

lemma ending_mono:
  assumes "ending C fin p" and "p_n p' = p_n p" and "downs (p_gs p') = downs (p_gs p)"
    and "ended (p_gs p') = ended (p_gs p)" and "has_left (p_gs p') \<longrightarrow> has_left (p_gs p) \<or> p_ctx p \<noteq> None"
    and "p_ctx p' = p_ctx p \<or> (\<exists>c \<in> C. p_ctx p' = Some c)"
  shows "ending C fin p'"
  using assms(6)
proof
  assume c: "p_ctx p' = p_ctx p"
  show ?thesis using assms(1,5) unfolding ending_def assms(2,3,4) c by blast
next
  assume "\<exists>c \<in> C. p_ctx p' = Some c"
  then show ?thesis unfolding ending_def by auto
qed

lemma ending_end:
  assumes "ending C fin p" and "at_place p" and "act par (GCallEnd k) p = Some p'"
  shows "ending C fin p'"
proof -
  obtain r where k: "k < length (p_gs p)" "p_gs p ! k = GEnd r"
    and p': "p' = (set_g p k (GLeft r))\<lparr>p_ctx := fin r (p_ctx p)\<rparr>"
    using assms(3) by (auto split: option.splits pipe_g.splits)
  have d: "downs (p_gs p) \<noteq> p_n p"
    using downs_Suc [OF k(1), of "GDone (Some r)"] k(2) assms(2) by (auto simp: at_place_def)
  have g: "ended (p_gs p') = insert r (ended (p_gs p))" "downs (p_gs p') = downs (p_gs p)"
    "has_left (p_gs p') = has_left (p_gs p)"
    using k by (simp_all add: p' set_g_def ended_update downs_same has_left_update)
  show ?thesis
  proof (cases "p_ctx p")
    case None
    with assms(1) d show ?thesis
      unfolding ending_def g by (auto simp: p' set_g_def)
  next
    case (Some c)
    with assms(1) d show ?thesis
      unfolding ending_def g by (simp add: p' set_g_def fin_over) blast
  qed
qed

lemma ending_last:
  assumes "ending C fin p" and "counting p" and "act par (GCancelNil k) p = Some p'"
  shows "ending C fin p'"
proof -
  obtain r where k: "k < length (p_gs p)" "p_gs p ! k = GLast r"
    and p': "p' = (set_g p k (GDone (Some r)))\<lparr>p_ctx := cancelOrOk_Cancel (p_ctx p) None\<rparr>"
    using assms(3) by (auto split: option.splits pipe_g.splits)
  have "r \<in> ended (p_gs p)" using k by (simp add: ended_nth)
  then have g: "ended (p_gs p') = ended (p_gs p)" "downs (p_gs p') = downs (p_gs p)"
    "has_left (p_gs p') = has_left (p_gs p)" "p_n p' = p_n p"
    using k by (auto simp add: p' set_g_def ended_update downs_same has_left_update)
  have "downs (p_gs p) = p_n p" using assms(2) has_last_nth [OF k] by (simp add: counting_def)
  with assms(1) show ?thesis
    unfolding ending_def g by (cases "p_ctx p") (auto simp: p' set_g_def cancelOrOk_Cancel_def cancel_cause_def OrOk_def)
qed

lemma ending_decrement:
  assumes "ending C fin p" and "counting p" and "at_place p" and "act par (GDecrement k) p = Some p'"
  shows "ending C fin p'"
proof -
  obtain r where k: "k < length (p_gs p)" "p_gs p ! k = GLeft r"
    and p: "p' = (set_g p k (if p_left p - 1 = 0 then GLast r else GDone (Some r)))\<lparr>p_left := p_left p - 1\<rparr>"
    using assms(4) by (auto simp: Let_def split: option.splits pipe_g.splits)
  define g where "g = (if p_left p - 1 = 0 then GLast r else GDone (Some r))"
  have g: "saw g = Some r" "g \<noteq> GDone None" "counted_down g" by (simp_all add: g_def)
  have p': "p' = (set_g p k g)\<lparr>p_left := p_left p - 1\<rparr>" using p by (simp add: g_def)
  have r: "r \<in> ended (p_gs p)" using k by (simp add: ended_nth)
  have d: "downs (p_gs p) \<noteq> p_n p"
    using downs_Suc [OF k(1), of g] k(2) g(3) assms(3) by (auto simp: at_place_def)
  have gs: "ended (p_gs p') = ended (p_gs p)" "has_left (p_gs p') = has_left (p_gs p)"
    "p_ctx p' = p_ctx p" "p_n p' = p_n p"
    using k g r by (auto simp add: p' set_g_def ended_update has_left_update)
  show ?thesis using assms(1) d unfolding ending_def gs by blast
qed

lemma act_ending:
  assumes "parent_in C ev" and "act par ev p = Some p'" and "ending C fin p" and "counting p" and "at_place p"
  shows "ending C fin p'"
proof (cases "\<exists>k. ev = GDecrement k \<or> ev = GCallEnd k \<or> ev = GCancelNil k")
  case True
  with assms ending_decrement ending_end ending_last show ?thesis by blast
next
  case False
  show ?thesis
  proof (rule ending_mono [OF assms(3) act_n [OF assms(2)]])
    show "downs (p_gs p') = downs (p_gs p)" "ended (p_gs p') = ended (p_gs p)"
      "has_left (p_gs p') \<longrightarrow> has_left (p_gs p) \<or> p_ctx p \<noteq> None"
      "p_ctx p' = p_ctx p \<or> (\<exists>c \<in> C. p_ctx p' = Some c)"
      using assms(1,2) False
      by (cases ev; auto simp: set_g_def downs_same ended_update has_left_update cancel_cause_def
          split: pipe_pc.splits option.splits pipe_g.splits if_splits)+
  qed
qed

sublocale guarded_system "act par" "parent_in C" "pipe_inv C par fin" for par C
  by unfold_locales
     (auto simp: pipe_inv_def intro: act_place act_counting act_ending act_returning dest: act_panic)

lemma inv_Launch: "pipe_Launch parent n = Some p \<Longrightarrow> n < 2 ^ 32 \<Longrightarrow> set_option parent \<subseteq> C \<Longrightarrow> pipe_inv C par fin p"
  by (auto simp: pipe_Launch_def pipe_inv_def at_place_def counting_def ending_def returning_def WithCancelOrOk_def
      split: if_splits)

lemma exec_ctx: "exec (act par) evs p = Some p' \<Longrightarrow> p_ctx p = Some c \<Longrightarrow> p_ctx p' = Some c"
  by (induction evs arbitrary: p) (auto split: option.splits dest: act_ctx)

lemma act_saw:
  assumes "act par ev p = Some p'" and "k < length (p_gs p)" and "saw (p_gs p ! k) = Some r"
  shows "k < length (p_gs p') \<and> saw (p_gs p' ! k) = Some r"
  using assms
  by (cases ev) (auto simp: set_g_def nth_list_update nth_append Let_def
      split: pipe_pc.splits option.splits pipe_g.splits if_splits)

lemma exec_saw:
  "exec (act par) evs p = Some p' \<Longrightarrow> k < length (p_gs p) \<and> saw (p_gs p ! k) = Some r \<Longrightarrow>
   k < length (p_gs p') \<and> saw (p_gs p' ! k) = Some r"
  by (induction evs arbitrary: p) (auto split: option.splits dest!: act_saw)

lemma act_ended:
  assumes "act par ev p = Some p'" and "\<forall>k. ev \<noteq> GCallEnd k"
  shows "ended (p_gs p') = ended (p_gs p)"
  using assms
  by (cases ev) (auto simp: set_g_def Let_def ended_same
      split: pipe_pc.splits option.splits pipe_g.splits if_splits)

lemma exec_ended: "exec (act par) evs p = Some p' \<Longrightarrow> \<forall>k. GCallEnd k \<notin> set evs \<Longrightarrow> ended (p_gs p') = ended (p_gs p)"
  by (induction evs arbitrary: p) (auto split: option.splits dest!: act_ended)

text \<open>A pipe whose parent lives ends with a result that ends it, or with success when all have ended.\<close>

lemma result:
  assumes "pipe_inv {} par fin p" and "p_pc p = PRet r"
  obtains s where "s \<in> ended (p_gs p)" "fin s None = p_ctx p" "p_ctx p \<noteq> None"
  | "p_ctx p = Some ErrOk" "downs (p_gs p) = p_n p" "\<forall>s \<in> ended (p_gs p). fin s None = None"
  using assms unfolding pipe_inv_def at_place_def ending_def by (cases "p_ctx p") auto

lemma all_down:
  assumes "at_place p" and "downs (p_gs p) = p_n p"
  shows "length (p_gs p) = p_n p \<and> (\<forall>k < p_n p. \<exists>s. saw (p_gs p ! k) = Some s \<and> s \<in> ended (p_gs p))"
proof -
  have "downs (p_gs p) \<le> length (p_gs p)" by (rule downs_le)
  with assms have l: "length (p_gs p) = p_n p" by (simp add: at_place_def)
  then have "filter counted_down (p_gs p) = p_gs p"
    using assms(2) unfolding downs_def by (metis filter_True length_filter_less less_irrefl)
  then have "\<forall>g \<in> set (p_gs p). counted_down g" unfolding filter_id_conv by simp
  then have "\<exists>s. saw (p_gs p ! k) = Some s" if "k < length (p_gs p)" for k
    using nth_mem [OF that] by (cases "p_gs p ! k") auto
  with l show ?thesis using ended_nth by metis
qed

text \<open>Nothing but a running subtask keeps a pipe waiting.\<close>

lemma goroutine_enabled:
  assumes "k < length (p_gs p)" and "\<forall>r. p_gs p ! k \<noteq> GDone r" and "p_gs p ! k = GSel \<longrightarrow> p_ctx p \<noteq> None"
  shows "\<exists>ev. internal ev \<and> act par ev p \<noteq> None"
proof (cases "p_gs p ! k")
  case GStart
  with assms(1) show ?thesis by (intro exI [of _ "GLaunch k"]) simp
next
  case GSel
  with assms(1,3) show ?thesis by (intro exI [of _ "GPipeDone k"]) auto
next
  case (GEnd r)
  with assms(1) show ?thesis by (intro exI [of _ "GCallEnd k"]) (simp add: goroutine_def)
next
  case (GLeft r)
  with assms(1) show ?thesis by (intro exI [of _ "GDecrement k"]) (simp add: goroutine_def Let_def)
next
  case (GLast r)
  with assms(1) show ?thesis by (intro exI [of _ "GCancelNil k"]) (simp add: goroutine_def)
qed (use assms(2) in simp)

lemma progress:
  assumes "pipe_inv C par fin p" and "\<forall>r. p_pc p \<noteq> PRet r"
  shows "(\<exists>ev. internal ev \<and> act par ev p \<noteq> None) \<or> (p_ctx p = None \<and> GSel \<in> set (p_gs p))"
    (is "?int \<or> ?sub")
proof -
  have idle: "?int \<or> ?sub" if "\<not> wg_idle p"
    using that goroutine_enabled unfolding wg_idle_def by (metis in_set_conv_nth)
  show ?thesis
  proof (cases "p_pc p")
    case (PLoop i)
    then show ?thesis by (intro disjI1 exI [of _ PCheck]) simp
  next
    case (PSer i)
    then show ?thesis by (intro disjI1 exI [of _ PSerialize]) simp
  next
    case (PWg i)
    show ?thesis
    proof (cases "wg_idle p")
      case True
      with PWg show ?thesis by (intro disjI1 exI [of _ PWgWait]) simp
    qed (rule idle)
  next
    case (PSpawn i)
    then show ?thesis by (intro disjI1 exI [of _ PGo]) simp
  next
    case PJoin
    show ?thesis
    proof (cases "p_ctx p")
      case None
      have n: "length (p_gs p) = p_n p" "\<not> has_left (p_gs p)"
        using assms(1) PJoin None by (auto simp: pipe_inv_def at_place_def ending_def)
      have "\<not> wg_idle p"
      proof
        assume w: "wg_idle p"
        then have "\<forall>g \<in> set (p_gs p). counted_down g" using wg_idle_saw [of p] n(2) by fastforce
        then have "downs (p_gs p) = p_n p" using n(1) by (simp add: downs_def)
        then have "has_last (p_gs p)" using assms(1) None by (simp add: pipe_inv_def counting_def)
        with w show False by (auto simp: wg_idle_def has_last_def)
      qed
      then show ?thesis by (rule idle)
    next
      case (Some c)
      with PJoin show ?thesis by (intro disjI1 exI [of _ PDone]) simp
    qed
  qed (use assms(2) in auto)
qed

end

section \<open>The contracts of the kinds of mode\<close>

locale fail_fast = pipe_mode +
  assumes fin_error: "fin (Some e) None \<noteq> None" and fin_ok: "fin None None = None"
begin

lemma fin_cases: "fin s None = Some c \<Longrightarrow> \<exists>e. s = Some e \<and> c = e"
  using fin_live [of s] by (cases s) (auto simp: fin_ok OrOk_def)

lemma fail_fast_result:
  assumes "pipe_inv {} par fin p" and "p_pc p = PRet r" and "Some ErrOk \<notin> ended (p_gs p)"
  shows "(r = None \<longleftrightarrow> length (p_gs p) = p_n p \<and> (\<forall>k < p_n p. saw (p_gs p ! k) = Some None))
    \<and> (\<forall>e. r = Some e \<longrightarrow> (\<exists>k e'. k < length (p_gs p) \<and> saw (p_gs p ! k) = Some (Some e')
          \<and> e = (if par then NonRetriable (Some e') else e')))"
proof -
  have r: "r = (case Cause (p_ctx p) of None \<Rightarrow> None | Some e \<Rightarrow> if par then Some (NonRetriable (Some e)) else Some e)"
    and pl: "at_place p" and en: "ending {} fin p" and co: "counting p"
    using assms(1,2) by (simp_all add: pipe_inv_def returning_def)
  show ?thesis
  proof (rule result [OF assms(1,2)])
    fix s assume s: "s \<in> ended (p_gs p)" "fin s None = p_ctx p" "p_ctx p \<noteq> None"
    then obtain e where e: "s = Some e" "p_ctx p = Some e" using fin_cases by fastforce
    with s assms(3) have "e \<noteq> ErrOk" by auto
    then have r: "r = Some (if par then NonRetriable (Some e) else e)" using r e by simp
    obtain k where "k < length (p_gs p)" "saw (p_gs p ! k) = Some (Some e)"
      using s(1) e(1) unfolding ended_def by (auto simp: in_set_conv_nth)
    with r pl show ?thesis unfolding at_place_def by fastforce
  next
    assume a: "p_ctx p = Some ErrOk" "downs (p_gs p) = p_n p" "\<forall>s \<in> ended (p_gs p). fin s None = None"
    then have "r = None" using r by simp
    moreover have "s = None" if "s \<in> ended (p_gs p)" for s
    proof (cases s)
      case (Some e)
      with a(3) that have "fin (Some e) None = None" by simp
      with fin_error show ?thesis by blast
    qed
    ultimately show ?thesis using all_down [OF pl a(2)] by auto
  qed
qed

end

text \<open>A mode that waits for every subtask before the next one.\<close>

definition one_by_one :: "pipe \<Rightarrow> bool" where
  "one_by_one p \<longleftrightarrow> (\<forall>k. Suc k < length (p_gs p) \<longrightarrow> p_gs p ! k = GDone (Some None))
     \<and> (\<forall>i. p_pc p = PSpawn i \<longrightarrow> (\<forall>k < length (p_gs p). p_gs p ! k = GDone (Some None)) \<or> p_ctx p \<noteq> None)"

locale serial = fail_fast +
  assumes ser_all: "ser i n"
begin

lemma one_by_one_keeps:
  assumes "pipe_inv C par fin p" and "one_by_one p" and "act par ev p = Some p'"
  shows "one_by_one p'"
proof (cases "ev = PWgWait")
  case True
  then obtain i where i: "p_pc p = PWg i" "wg_idle p" "p' = p\<lparr>p_pc := PSpawn i\<rparr>"
    using assms(3) by (auto split: pipe_pc.splits if_splits)
  have "p_gs p ! k = GDone (Some None)" if k: "k < length (p_gs p)" and c: "p_ctx p = None" for k
  proof -
    have "\<not> has_left (p_gs p)" using assms(1) c by (auto simp: pipe_inv_def ending_def)
    then obtain s where s: "p_gs p ! k = GDone (Some s)" using wg_idle_saw [OF i(2)] k nth_mem by blast
    then have "s \<in> ended (p_gs p)" using k by (simp add: ended_nth)
    then have "fin s None = None" using assms(1) c by (auto simp: pipe_inv_def ending_def)
    with s show ?thesis using fin_error by (cases s) auto
  qed
  with assms(2) i(3) show ?thesis by (auto simp: one_by_one_def)
next
  case False
  with assms(2,3) show ?thesis
    by (cases ev) (auto simp: one_by_one_def set_g_def nth_list_update nth_append Let_def ser_all less_Suc_eq
        fin_over cancel_cause_def cancelOrOk_Cancel_def
        split: pipe_pc.splits option.splits pipe_g.splits if_splits)
qed

sublocale one: guarded_system "act par" "\<lambda>ev. parent_in C ev" "\<lambda>p. pipe_inv C par fin p \<and> one_by_one p" for par C
  by unfold_locales (use keeps one_by_one_keeps in blast)

end

text \<open>A mode whose context only ends with success, and one that every end of a subtask ends.\<close>

locale only_success = pipe_mode +
  assumes fin_some: "fin (Some e) None = None"
begin

lemma never_fails: "pipe_inv {} par fin p \<Longrightarrow> p_pc p = PRet r \<Longrightarrow> r = None"
proof -
  assume i: "pipe_inv {} par fin p" and r: "p_pc p = PRet r"
  have "p_ctx p = Some ErrOk"
  proof (rule result [OF i r])
    fix s assume "fin s None = p_ctx p" "p_ctx p \<noteq> None"
    then show ?thesis using fin_live [of s] fin_some by (cases s) (auto simp: OrOk_def)
  qed
  with i r show ?thesis by (simp add: pipe_inv_def returning_def)
qed

end

locale first_wins = pipe_mode +
  assumes fin_any: "fin s None \<noteq> None"
begin

lemma first_end_decides:
  assumes "pipe_inv {} par fin p0" "ended (p_gs p0) = {}"
    and "exec (act par) (es @ GCallEnd k # fs) p0 = Some p" "\<forall>j. GCallEnd j \<notin> set es"
    and "\<forall>ev \<in> set (es @ GCallEnd k # fs). parent_in {} ev" and "p_pc p = PRet r"
  shows "\<exists>s. k < length (p_gs p) \<and> saw (p_gs p ! k) = Some s
    \<and> r = map_option (\<lambda>e. if par then NonRetriable (Some e) else e) (NotOk (Some (OrOk s)))"
proof -
  obtain p1 where p1: "exec (act par) es p0 = Some p1" "pipe_inv {} par fin p1"
    "exec (act par) (GCallEnd k # fs) p1 = Some p"
    using reached_keeps [OF assms(3,5,1)] by blast
  have e1: "ended (p_gs p1) = {}" using exec_ended [OF p1(1) assms(4)] assms(2) by simp
  then have "downs (p_gs p1) \<noteq> p_n p1"
    using p1(2) all_down [of p1] by (auto simp: pipe_inv_def at_place_def)
  with e1 p1(2) have c1: "p_ctx p1 = None" by (cases "p_ctx p1") (auto simp: pipe_inv_def ending_def)
  obtain s where k: "k < length (p_gs p1)" "p_gs p1 ! k = GEnd s"
    and p2: "exec (act par) fs ((set_g p1 k (GLeft s))\<lparr>p_ctx := fin s None\<rparr>) = Some p"
    using p1(3) c1 by (auto split: option.splits pipe_g.splits)
  have f: "fin s None = Some (OrOk s)" using fin_live fin_any by metis
  have "p_ctx p = Some (OrOk s)" using exec_ctx [OF p2, of "OrOk s"] f by simp
  moreover have "k < length (p_gs p) \<and> saw (p_gs p ! k) = Some s"
    using exec_saw [OF p2, of k s] k by (simp add: set_g_def)
  moreover have "returning par p"
    using exec_keeps [OF assms(3,5,1)] by (simp add: pipe_inv_def)
  ultimately show ?thesis
    using assms(6) by (auto simp: returning_def Cause_def split: option.splits)
qed

end

section \<open>The modes of the program\<close>

interpretation ordered: serial "serialize PipeOrdered" "mode_end PipeOrdered"
  by unfold_locales (auto simp: cancelOrOk_Cancel_def cancel_cause_def OrOk_def)

interpretation parallel: fail_fast "serialize PipeParallel" "mode_end PipeParallel"
  by unfold_locales (auto simp: cancelOrOk_Cancel_def cancel_cause_def OrOk_def)

interpretation race: first_wins "serialize PipeRace" "mode_end PipeRace"
  by unfold_locales (auto simp: cancelOrOk_Cancel_def cancel_cause_def OrOk_def)

interpretation any: only_success "serialize PipeAny" "mode_end PipeAny"
  by unfold_locales (auto simp: cancelOrOk_Cancel_def cancel_cause_def OrOk_def)

section \<open>Properties\<close>

lemma step_eq: "pipe_step (Some m) = pipe_act (Some (serialize m, mode_end m)) (m = PipeParallel)"
  by (simp add: pipe_step_def ops_of_def)

lemma quiet_parents: "(\<And>c. PParent c \<notin> set evs) \<Longrightarrow> \<forall>ev \<in> set evs. parent_in {} ev"
  by (metis parent_in.elims(3))

lemma any_parents: "\<forall>ev \<in> set evs. parent_in UNIV ev"
  by (metis UNIV_I parent_in.elims(3))

text \<open>
  C24. The result of an ordered or a parallel pipe whose own context nobody cancels: success
  exactly when every subtask was launched and ended with success, and otherwise the error of one
  of its subtasks, which a parallel pipe marks as not to be retried.
\<close>

theorem fail_fast_pipes:
  assumes "m = PipeOrdered \<or> m = PipeParallel" and "pipe_Launch None n = Some p0" and "n < 2 ^ 32"
    and "exec (pipe_step (Some m)) evs p0 = Some p" and "\<And>c. PParent c \<notin> set evs"
    and "p_pc p = PRet r" and "Some ErrOk \<notin> ended (p_gs p)"
  shows "(r = None \<longleftrightarrow> length (p_gs p) = p_n p \<and> (\<forall>k < p_n p. saw (p_gs p ! k) = Some None))
    \<and> (\<forall>e. r = Some e \<longrightarrow> (\<exists>k e'. k < length (p_gs p) \<and> saw (p_gs p ! k) = Some (Some e')
          \<and> e = (if m = PipeParallel then NonRetriable (Some e') else e')))"
  using assms(1)
proof
  assume m: "m = PipeOrdered"
  have "pipe_inv {} False (mode_end PipeOrdered) p"
    using ordered.exec_keeps [OF assms(4) [unfolded step_eq m] quiet_parents ordered.inv_Launch] assms(2,3,5) by auto
  from ordered.fail_fast_result [OF this assms(6,7)] m show ?thesis by simp
next
  assume m: "m = PipeParallel"
  have "pipe_inv {} True (mode_end PipeParallel) p"
    using parallel.exec_keeps [OF assms(4) [unfolded step_eq m] quiet_parents parallel.inv_Launch] assms(2,3,5) by auto
  from parallel.fail_fast_result [OF this assms(6,7)] m show ?thesis by simp
qed

text \<open>Two subtasks in a parallel pipe: the second fails.\<close>

definition second_fails :: "pipe_ev list" where
  "second_fails = [PCheck, PSerialize, PGo, GLaunch 0, PCheck, PSerialize, PGo, GLaunch 1, GSubtask 0 None, GCallEnd 0,
     GDecrement 0, GSubtask 1 (Some (Msg ''exit 1'')), GCallEnd 1, GDecrement 1, PCheck, PDone]"

lemma pipe_Launch_2: "pipe_Launch None 2 = Some \<lparr>p_n = 2, p_ctx = None, p_left = 2, p_gs = [], p_pc = PLoop 0, p_panic = False\<rparr>"
  by (simp add: pipe_Launch_def WithCancelOrOk_def)

lemmas run_pipe = pipe_step_def ops_of_def goroutine_def set_g_def Let_def OrOk_def cancelOrOk_Cancel_def
  cancel_cause_def

theorem fail_fast_pipes_witness:
  "\<exists>p0 p. pipe_Launch None 2 = Some p0 \<and> exec (pipe_step (Some PipeParallel)) second_fails p0 = Some p
     \<and> p_pc p = PRet (Some (NonRetriable (Some (Msg ''exit 1''))))
     \<and> (\<exists>k e'. k < length (p_gs p) \<and> saw (p_gs p ! k) = Some (Some e'))"
proof -
  obtain p where run: "exec (pipe_step (Some PipeParallel)) second_fails
      \<lparr>p_n = 2, p_ctx = None, p_left = 2, p_gs = [], p_pc = PLoop 0, p_panic = False\<rparr> = Some p"
    and p: "p_pc p = PRet (Some (NonRetriable (Some (Msg ''exit 1''))))"
      "p_gs p = [GDone (Some None), GLast (Some (Msg ''exit 1''))]"
    by (simp add: second_fails_def run_pipe Cause_def NotOk_def)
  from fail_fast_pipes [OF _ pipe_Launch_2 _ run _ p(1)] p(2) pipe_Launch_2 run p(1) show ?thesis
    by (fastforce simp: second_fails_def ended_def)
qed

text \<open>
  C26. An ordered pipe runs its subtasks one at a time: in every state it reaches, whatever else is
  cancelled, every subtask but the last one launched has ended with success.
\<close>

theorem ordered_one_at_a_time:
  assumes "pipe_Launch parent n = Some p0" and "n < 2 ^ 32" and "exec (pipe_step (Some PipeOrdered)) evs p0 = Some p"
    and "Suc k < length (p_gs p)"
  shows "p_gs p ! k = GDone (Some None)"
proof -
  have "one_by_one p0" using assms(1) by (auto simp: pipe_Launch_def one_by_one_def split: if_splits)
  then have "one_by_one p"
    using ordered.one.exec_keeps [OF assms(3) [unfolded step_eq] any_parents] ordered.inv_Launch [OF assms(1,2)] by auto
  with assms(4) show ?thesis by (simp add: one_by_one_def)
qed

theorem ordered_one_at_a_time_witness:
  "\<exists>p. exec (pipe_step (Some PipeOrdered))
       [PCheck, PSerialize, PWgWait, PGo, GLaunch 0, PCheck, PSerialize, GSubtask 0 None, GCallEnd 0, GDecrement 0,
        PWgWait, PGo]
       \<lparr>p_n = 2, p_ctx = None, p_left = 2, p_gs = [], p_pc = PLoop 0, p_panic = False\<rparr> = Some p
     \<and> p_gs p ! 0 = GDone (Some None)"
proof -
  let ?evs = "[PCheck, PSerialize, PWgWait, PGo, GLaunch 0, PCheck, PSerialize, GSubtask 0 None, GCallEnd 0, GDecrement 0,
        PWgWait, PGo]"
  obtain p where "exec (pipe_step (Some PipeOrdered)) ?evs
      \<lparr>p_n = 2, p_ctx = None, p_left = 2, p_gs = [], p_pc = PLoop 0, p_panic = False\<rparr> = Some p" "length (p_gs p) = 2"
    by (simp add: run_pipe wg_idle_def)
  with ordered_one_at_a_time [OF pipe_Launch_2, of ?evs p 0] show ?thesis by simp
qed

text \<open>
  In a race the first end of a subtask decides, success or failure: the result of the pipe is
  the result of the subtask whose goroutine first calls \<open>end\<close>, whatever the others return.
\<close>

theorem race_first_decides:
  assumes "pipe_Launch None n = Some p0" and "n < 2 ^ 32"
    and "exec (pipe_step (Some PipeRace)) (es @ GCallEnd k # fs) p0 = Some p"
    and "\<And>j. GCallEnd j \<notin> set es" and "\<And>c. PParent c \<notin> set (es @ GCallEnd k # fs)" and "p_pc p = PRet r"
  shows "\<exists>s. k < length (p_gs p) \<and> saw (p_gs p ! k) = Some s \<and> r = NotOk (Some (OrOk s))"
proof -
  have "ended (p_gs p0) = {}" using assms(1) by (auto simp: pipe_Launch_def split: if_splits)
  moreover have "pipe_inv {} False (mode_end PipeRace) p0" using race.inv_Launch [OF assms(1,2)] by simp
  ultimately show ?thesis
    using race.first_end_decides [OF _ _ assms(3) [unfolded step_eq] _ quiet_parents [OF assms(5)] assms(6)] assms(4)
    by (simp add: option.map_ident)
qed

theorem race_first_decides_witness:
  "\<exists>p. exec (pipe_step (Some PipeRace))
      ([PCheck, PSerialize, PGo, GLaunch 0, PCheck, PSerialize, PGo, GLaunch 1, GSubtask 1 None, GSubtask 0 (Some (Msg ''x''))]
        @ GCallEnd 1 # [GCallEnd 0, PCheck, PDone])
      \<lparr>p_n = 2, p_ctx = None, p_left = 2, p_gs = [], p_pc = PLoop 0, p_panic = False\<rparr> = Some p
    \<and> p_pc p = PRet None \<and> saw (p_gs p ! 1) = Some None"
proof -
  let ?es = "[PCheck, PSerialize, PGo, GLaunch 0, PCheck, PSerialize, PGo, GLaunch 1, GSubtask 1 None, GSubtask 0 (Some (Msg ''x''))]"
  obtain p where run: "exec (pipe_step (Some PipeRace)) (?es @ GCallEnd 1 # [GCallEnd 0, PCheck, PDone])
      \<lparr>p_n = 2, p_ctx = None, p_left = 2, p_gs = [], p_pc = PLoop 0, p_panic = False\<rparr> = Some p"
    and "p_pc p = PRet None" "saw (p_gs p ! 1) = Some None"
    by (simp add: run_pipe Cause_def NotOk_def)
  with race_first_decides [OF pipe_Launch_2 _ run _ _ this(2)] show ?thesis by simp
qed

text \<open>
  A pipe in mode \<open>any\<close> whose own context nobody cancels never fails: also when every subtask has
  failed, the last decrement of \<open>left\<close> cancels it with \<open>nil\<close> and it returns success.
\<close>

theorem any_never_fails:
  assumes "pipe_Launch None n = Some p0" and "n < 2 ^ 32" and "exec (pipe_step (Some PipeAny)) evs p0 = Some p"
    and "\<And>c. PParent c \<notin> set evs" and "p_pc p = PRet r"
  shows "r = None"
proof -
  have "pipe_inv {} False (mode_end PipeAny) p"
    using any.exec_keeps [OF assms(3) [unfolded step_eq] quiet_parents [OF assms(4)] any.inv_Launch] assms(1,2) by auto
  from any.never_fails [OF this assms(5)] show ?thesis .
qed

theorem any_never_fails_witness:
  "\<exists>p r. exec (pipe_step (Some PipeAny))
      [PCheck, PSerialize, PGo, GLaunch 0, PCheck, PSerialize, PGo, GLaunch 1, GSubtask 0 (Some (Msg ''a'')), GCallEnd 0,
       GDecrement 0, GSubtask 1 (Some (Msg ''b'')), GCallEnd 1, GDecrement 1, GCancelNil 1, PCheck, PDone]
      \<lparr>p_n = 2, p_ctx = None, p_left = 2, p_gs = [], p_pc = PLoop 0, p_panic = False\<rparr> = Some p
    \<and> p_gs p = [GDone (Some (Some (Msg ''a''))), GDone (Some (Some (Msg ''b'')))] \<and> p_pc p = PRet r \<and> r = None"
proof -
  let ?evs = "[PCheck, PSerialize, PGo, GLaunch 0, PCheck, PSerialize, PGo, GLaunch 1, GSubtask 0 (Some (Msg ''a'')), GCallEnd 0,
       GDecrement 0, GSubtask 1 (Some (Msg ''b'')), GCallEnd 1, GDecrement 1, GCancelNil 1, PCheck, PDone]"
  obtain p r where run: "exec (pipe_step (Some PipeAny)) ?evs
      \<lparr>p_n = 2, p_ctx = None, p_left = 2, p_gs = [], p_pc = PLoop 0, p_panic = False\<rparr> = Some p"
    and "p_gs p = [GDone (Some (Some (Msg ''a''))), GDone (Some (Some (Msg ''b'')))]" "p_pc p = PRet r"
    by (simp add: run_pipe Cause_def NotOk_def)
  with any_never_fails [OF pipe_Launch_2 _ run _ this(3)] show ?thesis by auto
qed

text \<open>
  C25. A pipe is never stuck: in every state it reaches before it returns, either one of its own
  goroutines can go on, or its context is live and it waits for a subtask that still runs.
\<close>

theorem pipe_not_stuck:
  assumes "pipe_Launch parent n = Some p0" and "n < 2 ^ 32" and "exec (pipe_step (Some m)) evs p0 = Some p"
    and "\<forall>r. p_pc p \<noteq> PRet r"
  shows "(\<exists>ev. internal ev \<and> pipe_step (Some m) ev p \<noteq> None) \<or> (p_ctx p = None \<and> GSel \<in> set (p_gs p))"
proof (cases m)
  case PipeOrdered
  show ?thesis
    using ordered.progress [OF ordered.exec_keeps [OF assms(3) [unfolded step_eq PipeOrdered] any_parents ordered.inv_Launch
        [OF assms(1,2)]] assms(4)] by (simp add: PipeOrdered step_eq)
next
  case PipeParallel
  show ?thesis
    using parallel.progress [OF parallel.exec_keeps [OF assms(3) [unfolded step_eq PipeParallel] any_parents parallel.inv_Launch
        [OF assms(1,2)]] assms(4)] by (simp add: PipeParallel step_eq)
next
  case PipeRace
  show ?thesis
    using race.progress [OF race.exec_keeps [OF assms(3) [unfolded step_eq PipeRace] any_parents race.inv_Launch
        [OF assms(1,2)]] assms(4)] by (simp add: PipeRace step_eq)
next
  case PipeAny
  show ?thesis
    using any.progress [OF any.exec_keeps [OF assms(3) [unfolded step_eq PipeAny] any_parents any.inv_Launch
        [OF assms(1,2)]] assms(4)] by (simp add: PipeAny step_eq)
qed

theorem pipe_not_stuck_witness:
  "\<exists>p. exec (pipe_step (Some PipeOrdered)) [PCheck, PSerialize, PWgWait, PGo, GLaunch 0, PCheck, PSerialize]
       \<lparr>p_n = 2, p_ctx = None, p_left = 2, p_gs = [], p_pc = PLoop 0, p_panic = False\<rparr> = Some p
     \<and> ((\<exists>ev. internal ev \<and> pipe_step (Some PipeOrdered) ev p \<noteq> None) \<or> (p_ctx p = None \<and> GSel \<in> set (p_gs p)))"
proof -
  obtain p where run: "exec (pipe_step (Some PipeOrdered)) [PCheck, PSerialize, PWgWait, PGo, GLaunch 0, PCheck, PSerialize]
      \<lparr>p_n = 2, p_ctx = None, p_left = 2, p_gs = [], p_pc = PLoop 0, p_panic = False\<rparr> = Some p"
    and pc: "\<forall>r. p_pc p \<noteq> PRet r"
    by (simp add: run_pipe wg_idle_def)
  from pipe_not_stuck [OF pipe_Launch_2 _ run pc] run show ?thesis by auto
qed

text \<open>
  A pipe without a mode, as the registry makes it for the kind \<open>pipe\<close>, panics at its first
  subtask: \<open>serialize\<close> is called on the nil interface.
\<close>

theorem pipe_without_mode_panics:
  "map_option (\<lambda>p0. map_option p_panic (exec (pipe_step None) [PCheck, PSerialize] p0)) (pipe_Launch None (Suc n)) = Some (Some True)"
  by (simp add: pipe_Launch_def pipe_step_def WithCancelOrOk_def)

section \<open>The small tasks\<close>

text \<open>\<open>task_noop.go\<close>: what the exit channel of a noop holds, and the selects a wait can take.\<close>

definition TaskNoop_Launch :: "gerr option option" where
  "TaskNoop_Launch = Some None"

definition TaskWait_select :: "duration \<Rightarrow> ctx \<Rightarrow> int \<Rightarrow> gerr option list" where
  "TaskWait_select d c elapsed =
     (if c \<noteq> None then [Cause c] else []) @ (if d \<le> 0 \<or> d \<le> elapsed then [None] else [])"

end
