(* ===== verification/Triggers.thy ===== *)
theory Triggers
  imports Sync_Map Duration Go_Strings "HOL-Library.Word"
begin

text \<open>
  \<open>pkg/job/trigger*.go\<close>: what launches and drops a job. \<open>trigger_event.go\<close> keeps named events with
  their subscriptions; a subscription is a pointer, so a number here. The keys of \<open>subscribers\<close> have
  type \<open>any\<close>: a pointer to a subscription, or the struct itself, which contains a function and so
  cannot be hashed: using it as a key panics.
\<close>

section \<open>Buffered subscriptions\<close>

text \<open>
  The counter of \<open>bufferedEventSubscription\<close>, and its goroutines: those in \<open>fn\<close>, those between \<open>fn\<close>
  and the decrement; and how often \<open>fn\<close> was called.
\<close>

record buffered =
  bq_queue :: u32
  bq_calling :: nat
  bq_returned :: nat
  bq_calls :: nat

definition new_buffered :: buffered where
  "new_buffered = \<lparr>bq_queue = 0, bq_calling = 0, bq_returned = 0, bq_calls = 0\<rparr>"

datatype buffered_ev = BSignal | BFnReturns | BDecrement | BRemove

fun buffered_act :: "buffered_ev \<Rightarrow> buffered \<Rightarrow> buffered option" where
  "buffered_act BSignal b =
     (let q = bq_queue b + 1 in
      Some (if q = 1 then b\<lparr>bq_queue := q, bq_calling := bq_calling b + 1, bq_calls := bq_calls b + 1\<rparr>
            else b\<lparr>bq_queue := q\<rparr>))"
| "buffered_act BFnReturns b =
     (if 0 < bq_calling b then Some (b\<lparr>bq_calling := bq_calling b - 1, bq_returned := bq_returned b + 1\<rparr>) else None)"
| "buffered_act BDecrement b =
     (if 0 < bq_returned b
      then let q = bq_queue b - 1; b = b\<lparr>bq_queue := q, bq_returned := bq_returned b - 1\<rparr> in
        Some (if sint q \<le> 0 then b else b\<lparr>bq_calling := bq_calling b + 1, bq_calls := bq_calls b + 1\<rparr>)
      else None)"
| "buffered_act BRemove b = Some (b\<lparr>bq_queue := - 0x80000000\<rparr>)"

definition signals :: "buffered_ev list \<Rightarrow> nat" where
  "signals evs = count_list evs BSignal"

text \<open>While nothing was removed: the queue counts the signals without a decrement.\<close>

definition buffered_inv :: "nat \<Rightarrow> buffered \<Rightarrow> bool" where
  "buffered_inv n b \<longleftrightarrow> (\<exists>q. unat (bq_queue b) = q \<and> q \<le> n \<and> n < 2 ^ 31
     \<and> bq_calling b + bq_returned b = (if 0 < q then 1 else 0)
     \<and> bq_calls b + q = n + (if 0 < q then 1 else 0))"

lemma sint_small: "unat (w :: u32) < 2 ^ 31 \<Longrightarrow> sint w = int (unat w)"
proof -
  assume a: "unat w < 2 ^ 31"
  have "uint w = int (unat w)" by (rule uint_nat)
  also have "\<dots> < int (2 ^ 31)" using a by (simp only: of_nat_less_iff)
  finally have "uint w < 2 ^ 31" by simp
  then have "signed_take_bit 31 (uint w) = uint w"
    using order_trans [OF _ uint_ge_0 [of w], of "- (2 ^ 31)"] by (intro signed_take_bit_int_eq_self) auto
  then show ?thesis by (simp add: sint_uint)
qed

lemma buffered_signal:
  assumes "buffered_inv n b" and "n + 1 < 2 ^ 31" and "buffered_act BSignal b = Some b'"
  shows "buffered_inv (n + 1) b'"
proof -
  have u: "unat (bq_queue b + 1) = unat (bq_queue b) + 1"
    using assms(1,2) by (auto simp: buffered_inv_def unat_word_ariths)
  have "bq_queue b + 1 = 1 \<longleftrightarrow> unat (bq_queue b) = 0"
    by (simp add: unat_eq_zero)
  with u assms show ?thesis by (auto simp: buffered_inv_def Let_def split: if_splits)
qed

lemma buffered_decrement:
  assumes "buffered_inv n b" and "buffered_act BDecrement b = Some b'"
  shows "buffered_inv n b'"
proof -
  have r: "0 < bq_returned b" using assms(2) by (auto split: if_splits)
  then have q: "0 < unat (bq_queue b)" "bq_calling b = 0" "bq_returned b = 1"
    using assms(1) by (auto simp: buffered_inv_def split: if_splits)
  then have "bq_queue b \<noteq> 0" by auto
  then have u: "unat (bq_queue b - 1) = unat (bq_queue b) - 1" by (rule unat_minus_one)
  have "sint (bq_queue b - 1) = int (unat (bq_queue b - 1))"
    using u assms(1) by (intro sint_small) (auto simp: buffered_inv_def)
  then have "sint (bq_queue b - 1) \<le> 0 \<longleftrightarrow> unat (bq_queue b) = 1" unfolding u using q(1) by linarith
  with u q r assms show ?thesis by (auto simp: buffered_inv_def Let_def split: if_splits)
qed

lemma buffered_exec:
  assumes "exec buffered_act evs b = Some b'" and "BRemove \<notin> set evs" and "buffered_inv n b" and "n + signals evs < 2 ^ 31"
  shows "buffered_inv (n + signals evs) b'"
  using assms
proof (induction evs arbitrary: n b)
  case (Cons ev evs)
  obtain b1 where b1: "buffered_act ev b = Some b1" "exec buffered_act evs b1 = Some b'"
    using Cons.prems(1) by (auto split: option.splits)
  show ?case
  proof (cases ev)
    case BSignal
    have "buffered_inv (n + 1) b1" using buffered_signal Cons.prems(3,4) b1(1) BSignal by (simp add: signals_def)
    from Cons.IH [OF b1(2) _ this] Cons.prems BSignal show ?thesis by (simp add: signals_def)
  next
    case BFnReturns
    have "buffered_inv n b1" using Cons.prems(3) b1(1) BFnReturns by (auto simp: buffered_inv_def split: if_splits)
    from Cons.IH [OF b1(2) _ this] Cons.prems BFnReturns show ?thesis by (simp add: signals_def)
  next
    case BDecrement
    have "buffered_inv n b1" using buffered_decrement Cons.prems(3) b1(1) BDecrement by simp
    from Cons.IH [OF b1(2) _ this] Cons.prems BDecrement show ?thesis by (simp add: signals_def)
  qed (use Cons.prems in simp)
qed (simp add: signals_def)



text \<open>
  Removing a buffered subscription while its callback runs makes it run on: the counter is set
  to the least 32-bit integer, the decrement after the callback wraps around to the greatest, and
  the loop goes on with \<open>2 ^ 31 - 1\<close> calls to go.
\<close>

theorem removed_while_running_loops:
  "\<exists>b. exec buffered_act [BSignal, BRemove, BFnReturns, BDecrement] new_buffered = Some b
     \<and> bq_calling b = 1 \<and> bq_calls b = 2 \<and> sint (bq_queue b) = 2 ^ 31 - 1"
  by (simp add: new_buffered_def)

section \<open>Named events\<close>

text \<open>The object of \<open>asyncEventSubscription\<close> or of \<open>bufferedEventSubscription\<close>: its callback and \<open>event\<close>.\<close>

datatype sub_kind = AsyncSub | BufferedSub buffered

record subscription =
  sub_kind :: sub_kind
  sub_fn :: nat
  sub_event :: "nat option"

datatype sub_key = KeyPointer nat | KeyStruct nat

record hub =
  hub_named :: "string \<Rightarrow> nat option"
  hub_subscribers :: "nat \<Rightarrow> sub_key \<Rightarrow> unit option"
  hub_subs :: "nat \<Rightarrow> subscription option"
  hub_next :: nat
  hub_panic :: bool

definition new_hub :: hub where
  "new_hub = \<lparr>hub_named = (\<lambda>_. None), hub_subscribers = (\<lambda>_ _. None), hub_subs = (\<lambda>_. None), hub_next = 0, hub_panic = False\<rparr>"

definition getNamedEvent :: "hub \<Rightarrow> string \<Rightarrow> bool \<Rightarrow> nat option \<times> hub" where
  "getNamedEvent h name ins =
     (case sm_Load (hub_named h) name of
        Some e \<Rightarrow> (Some e, h)
      | None \<Rightarrow>
          if \<not> ins then (None, h)
          else (Some (hub_next h), h\<lparr>hub_named := sm_Store (hub_named h) name (hub_next h),
                  hub_subscribers := (hub_subscribers h)(hub_next h := (\<lambda>_. None)), hub_next := Suc (hub_next h)\<rparr>))"

text \<open>\<open>Add\<close>, which the program never calls.\<close>

definition sub_Add :: "hub \<Rightarrow> nat \<Rightarrow> nat \<Rightarrow> hub" where
  "sub_Add h s e =
     h\<lparr>hub_subs := (hub_subs h)(s := map_option (\<lambda>x. x\<lparr>sub_event := Some e\<rparr>) (hub_subs h s)),
       hub_subscribers := (hub_subscribers h)(e := sm_Store (hub_subscribers h e) (KeyPointer s) ())\<rparr>"

definition sub_Remove :: "hub \<Rightarrow> nat \<Rightarrow> hub" where
  "sub_Remove h s =
     (case hub_subs h s of
        None \<Rightarrow> h
      | Some x \<Rightarrow>
          (case sub_kind x of
             AsyncSub \<Rightarrow> (case sub_event x of None \<Rightarrow> h | Some e \<Rightarrow> h\<lparr>hub_panic := True\<rparr>)
           | BufferedSub b \<Rightarrow>
               let h' = h\<lparr>hub_subs := (hub_subs h)(s := Some (x\<lparr>sub_kind := BufferedSub (b\<lparr>bq_queue := - 0x80000000\<rparr>)\<rparr>))\<rparr> in
               if sint (bq_queue b) \<ge> 0
               then (case sub_event x of
                       None \<Rightarrow> h'
                     | Some e \<Rightarrow> h'\<lparr>hub_subscribers := (hub_subscribers h')(e := sm_Delete (hub_subscribers h' e) (KeyPointer s))\<rparr>)
               else h'))"

definition named_Listen :: "hub \<Rightarrow> nat \<Rightarrow> subscription \<Rightarrow> nat \<times> hub" where
  "named_Listen h e x =
     (let s = hub_next h in
      (s, h\<lparr>hub_subs := (hub_subs h)(s \<mapsto> x), hub_next := Suc s,
            hub_subscribers := (hub_subscribers h)(e := sm_Store (hub_subscribers h e) (KeyPointer s) ())\<rparr>))"

definition hub_Listen :: "hub \<Rightarrow> string \<Rightarrow> nat \<Rightarrow> nat \<times> hub" where
  "hub_Listen h name fn =
     (case getNamedEvent h name True of
        (Some e, h) \<Rightarrow> named_Listen h e \<lparr>sub_kind = AsyncSub, sub_fn = fn, sub_event = None\<rparr>
      | (None, h) \<Rightarrow> (0, h))"

definition hub_ListenBuffered :: "hub \<Rightarrow> string \<Rightarrow> nat \<Rightarrow> nat \<times> hub" where
  "hub_ListenBuffered h name fn =
     (case getNamedEvent h name True of
        (Some e, h) \<Rightarrow> named_Listen h e \<lparr>sub_kind = BufferedSub new_buffered, sub_fn = fn, sub_event = None\<rparr>
      | (None, h) \<Rightarrow> (0, h))"

text \<open>\<open>Signal\<close>: the subscriptions whose \<open>Signal\<close> it starts a goroutine for.\<close>

definition hub_Signal :: "hub \<Rightarrow> string \<Rightarrow> nat set" where
  "hub_Signal h name =
     (case fst (getNamedEvent h name False) of
        None \<Rightarrow> {}
      | Some e \<Rightarrow> {s. sm_Load (hub_subscribers h e) (KeyPointer s) \<noteq> None})"

lemmas hub_ops = getNamedEvent_def hub_Listen_def hub_ListenBuffered_def named_Listen_def hub_Signal_def sub_Remove_def Let_def

text \<open>The hub's own objects: events and subscriptions have different numbers, all below the next.\<close>

definition hub_ok :: "hub \<Rightarrow> bool" where
  "hub_ok h \<longleftrightarrow> (\<forall>name e. sm_Load (hub_named h) name = Some e \<longrightarrow> e < hub_next h)
     \<and> (\<forall>name name' e. sm_Load (hub_named h) name = Some e \<longrightarrow> sm_Load (hub_named h) name' = Some e \<longrightarrow> name = name')
     \<and> (\<forall>e s. sm_Load (hub_subscribers h e) (KeyPointer s) \<noteq> None \<longrightarrow> s < hub_next h)
     \<and> (\<forall>s x. hub_subs h s = Some x \<longrightarrow> sub_event x = None) \<and> \<not> hub_panic h"

lemma hub_ok_new: "hub_ok new_hub"
  by (simp add: hub_ok_def new_hub_def sm_Load_def)

text \<open>The operations of the program on the hub.\<close>

datatype hub_op = HListen string nat | HListenBuffered string nat | HRemove nat

fun hub_apply :: "hub \<Rightarrow> hub_op list \<Rightarrow> hub" where
  "hub_apply h [] = h"
| "hub_apply h (HListen name fn # ops) = hub_apply (snd (hub_Listen h name fn)) ops"
| "hub_apply h (HListenBuffered name fn # ops) = hub_apply (snd (hub_ListenBuffered h name fn)) ops"
| "hub_apply h (HRemove s # ops) = hub_apply (sub_Remove h s) ops"

lemma hub_ok_get:
  assumes "hub_ok h" and "getNamedEvent h name ins = (r, h')"
  shows "hub_ok h' \<and> (\<forall>e. r = Some e \<longrightarrow> e < hub_next h')"
proof (cases "sm_Load (hub_named h) name = None \<and> ins")
  case True
  then have h': "r = Some (hub_next h)" "h' = h\<lparr>hub_named := sm_Store (hub_named h) name (hub_next h),
                  hub_subscribers := (hub_subscribers h)(hub_next h := (\<lambda>_. None)), hub_next := Suc (hub_next h)\<rparr>"
    using assms(2) by (auto simp: getNamedEvent_def)
  have n: "e < hub_next h" if "sm_Load (hub_named h) x = Some e" for x e using assms(1) that by (auto simp: hub_ok_def)
  have "hub_ok h'"
    unfolding hub_ok_def
  proof (intro conjI allI impI)
    fix x e assume "sm_Load (hub_named h') x = Some e"
    then show "e < hub_next h'" using n by (auto simp: h' sm_laws less_Suc_eq split: if_splits)
  next
    fix x y e assume "sm_Load (hub_named h') x = Some e" "sm_Load (hub_named h') y = Some e"
    then show "x = y" using assms(1) n by (fastforce simp: h' sm_laws hub_ok_def split: if_splits)
  next
    fix e t assume "sm_Load (hub_subscribers h' e) (KeyPointer t) \<noteq> None"
    then show "t < hub_next h'" using assms(1) by (auto simp: h' hub_ok_def sm_Load_def less_Suc_eq split: if_splits)
  qed (use assms(1) in \<open>auto simp: h' hub_ok_def\<close>)
  with h' show ?thesis by simp
next
  case False
  with assms show ?thesis by (auto simp: getNamedEvent_def hub_ok_def split: option.splits if_splits)
qed

lemma hub_ok_listen:
  assumes "hub_ok h" and "named_Listen h e x = (s, h')" and "e < hub_next h" and "sub_event x = None"
  shows "hub_ok h'"
proof -
  have h': "h' = h\<lparr>hub_subs := (hub_subs h)(hub_next h \<mapsto> x), hub_next := Suc (hub_next h),
            hub_subscribers := (hub_subscribers h)(e := sm_Store (hub_subscribers h e) (KeyPointer (hub_next h)) ())\<rparr>"
    using assms(2) by (auto simp: named_Listen_def Let_def)
  show ?thesis
    using assms(1,4) unfolding hub_ok_def h' by (auto simp: sm_laws less_Suc_eq split: if_splits)
qed

lemma sub_Remove_ok:
  assumes "hub_ok h"
  shows "hub_ok (sub_Remove h s) \<and> hub_named (sub_Remove h s) = hub_named h \<and> hub_subscribers (sub_Remove h s) = hub_subscribers h"
proof (cases "hub_subs h s")
  case (Some x)
  then have "sub_event x = None" using assms by (simp add: hub_ok_def)
  with Some assms show ?thesis
    by (cases "sub_kind x") (auto simp: sub_Remove_def hub_ok_def Let_def)
qed (use assms in \<open>simp add: sub_Remove_def\<close>)

lemma hub_Listen_ok:
  assumes "hub_ok h"
  shows "hub_ok (snd (hub_Listen h name fn)) \<and> hub_ok (snd (hub_ListenBuffered h name fn))"
proof -
  obtain r h1 where g: "getNamedEvent h name True = (r, h1)" by fastforce
  note ok = hub_ok_get [OF assms g]
  show ?thesis
  proof (cases r)
    case (Some e)
    obtain s2 h2 s3 h3 where
      l: "named_Listen h1 e \<lparr>sub_kind = AsyncSub, sub_fn = fn, sub_event = None\<rparr> = (s2, h2)"
      "named_Listen h1 e \<lparr>sub_kind = BufferedSub new_buffered, sub_fn = fn, sub_event = None\<rparr> = (s3, h3)"
      by fastforce
    from hub_ok_listen [OF _ l(1)] hub_ok_listen [OF _ l(2)] ok Some have "hub_ok h2" "hub_ok h3" by simp_all
    with g Some l show ?thesis by (simp add: hub_Listen_def hub_ListenBuffered_def)
  qed (use g ok in \<open>simp add: hub_Listen_def hub_ListenBuffered_def\<close>)
qed

lemma hub_apply_ok: "hub_ok h \<Longrightarrow> hub_ok (hub_apply h ops)"
  by (induction h ops rule: hub_apply.induct) (simp_all add: hub_Listen_ok sub_Remove_ok)

text \<open>
  A signal reaches the subscriptions of its name: a listener added to any hub the program can
  build is signalled with its name from then on, next to those before it, and no other name's
  subscriptions change.
\<close>

theorem signal_reaches_listeners:
  assumes "h = hub_apply new_hub ops" and "hub_Listen h name fn = (s, h')"
  shows "hub_Signal h' name = insert s (hub_Signal h name) \<and> s \<notin> hub_Signal h name
    \<and> (\<forall>other. other \<noteq> name \<longrightarrow> hub_Signal h' other = hub_Signal h other)"
proof -
  have ok: "hub_ok h" unfolding assms(1) by (rule hub_apply_ok [OF hub_ok_new])
  obtain e h1 where g: "getNamedEvent h name True = (Some e, h1)"
    by (cases "sm_Load (hub_named h) name") (auto simp: getNamedEvent_def)
  have ok1: "hub_ok h1" "e < hub_next h1" using hub_ok_get [OF ok g] by auto
  have e1: "sm_Load (hub_named h1) name = Some e" using g by (auto simp: getNamedEvent_def sm_laws split: option.splits)
  have same: "hub_Signal h1 x = hub_Signal h x" for x
  proof (cases "sm_Load (hub_named h) name")
    case None
    then have h1: "e = hub_next h" "h1 = h\<lparr>hub_named := sm_Store (hub_named h) name (hub_next h),
          hub_subscribers := (hub_subscribers h)(hub_next h := (\<lambda>_. None)), hub_next := Suc (hub_next h)\<rparr>"
      using g by (auto simp: getNamedEvent_def)
    have "y \<noteq> hub_next h" if "sm_Load (hub_named h) x = Some y" for y using ok that by (auto simp: hub_ok_def)
    with None show ?thesis
      by (cases "x = name"; cases "sm_Load (hub_named h) x")
         (auto simp: hub_Signal_def getNamedEvent_def h1 sm_laws, simp_all add: sm_Load_def)
  next
    case (Some y)
    then show ?thesis using g by (simp add: getNamedEvent_def)
  qed
  have h': "s = hub_next h1" "hub_named h' = hub_named h1"
    "hub_subscribers h' = (hub_subscribers h1)(e := sm_Store (hub_subscribers h1 e) (KeyPointer (hub_next h1)) ())"
    using assms(2) g by (auto simp: hub_Listen_def named_Listen_def Let_def)
  have "s \<notin> hub_Signal h1 name" using ok1(1) by (fastforce simp: hub_Signal_def hub_ok_def h' split: option.splits)
  moreover have "hub_Signal h' name = insert s (hub_Signal h1 name)"
    using e1 by (auto simp: hub_Signal_def getNamedEvent_def h' sm_laws split: if_splits)
  moreover have "hub_Signal h' x = hub_Signal h1 x" if "x \<noteq> name" for x
  proof -
    have "y \<noteq> e" if "sm_Load (hub_named h1) x = Some y" for y
      using ok1(1) e1 that \<open>x \<noteq> name\<close> unfolding hub_ok_def by blast
    then show ?thesis
      by (cases "sm_Load (hub_named h1) x") (auto simp: hub_Signal_def getNamedEvent_def h')
  qed
  ultimately show ?thesis using same by simp
qed

theorem signal_reaches_listeners_witness:
  "\<exists>s h'. hub_Listen (hub_apply new_hub [HListen ''a'' 1]) ''b'' 2 = (s, h') \<and> hub_Signal h' ''b'' = insert s (hub_Signal (hub_apply new_hub [HListen ''a'' 1]) ''b'')"
proof -
  obtain s h' where r: "hub_Listen (hub_apply new_hub [HListen ''a'' 1]) ''b'' 2 = (s, h')" by fastforce
  from signal_reaches_listeners [OF refl r] r show ?thesis by blast
qed

text \<open>
  Removing a subscription removes nothing. \<open>Listen\<close> stores the subscription without telling it
  its event, so \<open>Remove\<close> returns without deleting it: in every hub the program can build, each name
  signals after the removal what it signalled before. So a dropped listener goes on being called,
  and a \<open>once\<close> trigger, which removes itself before its callback, fires at every signal.
\<close>

theorem removal_has_no_effect:
  "hub_Signal (sub_Remove (hub_apply new_hub ops) s) name = hub_Signal (hub_apply new_hub ops) name"
  using sub_Remove_ok [OF hub_apply_ok [OF hub_ok_new, of ops], of s]
  by (simp add: hub_Signal_def getNamedEvent_def split: option.splits)

section \<open>Triggers\<close>

datatype trigger =
    TriggerNever
  | TriggerAlways
  | TriggerBoot
  | TriggerEvery duration
  | TriggerOn string
  | TriggerOnce string
  | TriggerAny "trigger list"

text \<open>
  The name a trigger gets: inline text first, then (\<open>WithDefaults\<close>) the ID where the name is empty.
\<close>

definition trigger_UnmarshalInline :: "(string \<Rightarrow> duration option) \<Rightarrow> trigger \<Rightarrow> string \<Rightarrow> trigger option" where
  "trigger_UnmarshalInline ParseDuration t txt =
     (case t of
        TriggerOn n \<Rightarrow> Some (TriggerOn txt)
      | TriggerOnce n \<Rightarrow> Some (TriggerOnce txt)
      | TriggerEvery d \<Rightarrow> map_option TriggerEvery (ParseDuration txt)
      | TriggerAny l \<Rightarrow> None
      | _ \<Rightarrow> Some t)"

definition trigger_WithDefaults :: "trigger \<Rightarrow> string \<Rightarrow> trigger" where
  "trigger_WithDefaults t i =
     (case t of
        TriggerOn n \<Rightarrow> if n = [] then TriggerOn i else t
      | TriggerOnce n \<Rightarrow> if n = [] then TriggerOnce i else t
      | _ \<Rightarrow> t)"

text \<open>The goroutine of \<open>always\<close> (no period) and \<open>every\<close>, and of \<open>boot\<close>, which calls once.\<close>

datatype ticker_pc = TkSleep int | TkTest | TkBegin | TkCalling | TkEnded

datatype ticker_kind = KAlways | KEvery duration | KBoot

record ticker =
  tk_kind :: ticker_kind
  tk_done :: bool
  tk_pc :: ticker_pc
  tk_calls :: nat
  tk_now :: int

datatype ticker_ev = TkWakes | TkTests | TkCalls | TkReturns | TkRemove | TkTick int

definition tk_again :: "ticker \<Rightarrow> ticker_pc" where
  "tk_again k = (case tk_kind k of KAlways \<Rightarrow> TkTest | KEvery d \<Rightarrow> TkSleep (tk_now k + max d 0) | KBoot \<Rightarrow> TkEnded)"

definition new_ticker :: "ticker_kind \<Rightarrow> int \<Rightarrow> ticker" where
  "new_ticker kind now =
     (let k = \<lparr>tk_kind = kind, tk_done = False, tk_pc = TkBegin, tk_calls = 0, tk_now = now\<rparr>
      in if kind = KBoot then k else k\<lparr>tk_pc := tk_again k\<rparr>)"

fun ticker_act :: "ticker_ev \<Rightarrow> ticker \<Rightarrow> ticker option" where
  "ticker_act TkWakes k = (case tk_pc k of TkSleep u \<Rightarrow> if u \<le> tk_now k then Some (k\<lparr>tk_pc := TkTest\<rparr>) else None | _ \<Rightarrow> None)"
| "ticker_act TkTests k =
     (if tk_pc k = TkTest then Some (k\<lparr>tk_pc := if tk_done k then TkEnded else TkBegin\<rparr>) else None)"
| "ticker_act TkCalls k =
     (if tk_pc k = TkBegin then Some (k\<lparr>tk_pc := TkCalling, tk_calls := tk_calls k + 1\<rparr>) else None)"
| "ticker_act TkReturns k = (if tk_pc k = TkCalling then Some (k\<lparr>tk_pc := tk_again k\<rparr>) else None)"
| "ticker_act TkRemove k = Some (if tk_kind k = KBoot then k else k\<lparr>tk_done := True\<rparr>)"
| "ticker_act (TkTick d) k = (if 0 < d then Some (k\<lparr>tk_now := tk_now k + d\<rparr>) else None)"

text \<open>Listening: what a trigger starts, and the handles that \<open>remove\<close> goes through.\<close>

datatype remove_handle = RemNone | RemSub nat | RemTicker nat

record listening =
  ln_hub :: hub
  ln_tickers :: "ticker list"
  ln_now :: int

definition start_ticker :: "ticker_kind \<Rightarrow> listening \<Rightarrow> nat \<times> listening" where
  "start_ticker kind l = (length (ln_tickers l), l\<lparr>ln_tickers := ln_tickers l @ [new_ticker kind (ln_now l)]\<rparr>)"

fun trigger_Listen :: "nat \<Rightarrow> trigger \<Rightarrow> listening \<Rightarrow> remove_handle list \<times> listening"
  and triggers_Listen :: "nat \<Rightarrow> trigger list \<Rightarrow> listening \<Rightarrow> remove_handle list \<times> listening" where
  "trigger_Listen fn TriggerNever l = ([RemNone], l)"
| "trigger_Listen fn TriggerAlways l = (let (i, l) = start_ticker KAlways l in ([RemTicker i], l))"
| "trigger_Listen fn TriggerBoot l = (let (i, l) = start_ticker KBoot l in ([RemNone], l))"
| "trigger_Listen fn (TriggerEvery d) l = (let (i, l) = start_ticker (KEvery d) l in ([RemTicker i], l))"
| "trigger_Listen fn (TriggerOn n) l = (let (s, h) = hub_Listen (ln_hub l) n fn in ([RemSub s], l\<lparr>ln_hub := h\<rparr>))"
| "trigger_Listen fn (TriggerOnce n) l = (let (s, h) = hub_Listen (ln_hub l) n fn in ([RemSub s], l\<lparr>ln_hub := h\<rparr>))"
| "trigger_Listen fn (TriggerAny ts) l = triggers_Listen fn ts l"
| "triggers_Listen fn [] l = ([], l)"
| "triggers_Listen fn (t # ts) l =
     (let (r, l) = trigger_Listen fn t l; (rs, l) = triggers_Listen fn ts l in (r @ rs, l))"

fun trigger_remove :: "remove_handle list \<Rightarrow> listening \<Rightarrow> listening" where
  "trigger_remove [] l = l"
| "trigger_remove (RemNone # rs) l = trigger_remove rs l"
| "trigger_remove (RemSub s # rs) l = trigger_remove rs (l\<lparr>ln_hub := sub_Remove (ln_hub l) s\<rparr>)"
| "trigger_remove (RemTicker i # rs) l =
     trigger_remove rs (if i < length (ln_tickers l)
                        then l\<lparr>ln_tickers := (ln_tickers l)[i := (ln_tickers l ! i)\<lparr>tk_done := True\<rparr>]\<rparr> else l)"

definition ticker_inv :: "int \<Rightarrow> ticker \<Rightarrow> bool" where
  "ticker_inv t0 k \<longleftrightarrow>
     (let d = (case tk_kind k of KEvery d \<Rightarrow> max d 0 | _ \<Rightarrow> 0); n = int (tk_calls k) in
      n * d \<le> tk_now k - t0
      \<and> (case tk_pc k of
           TkSleep u \<Rightarrow> (n + 1) * d \<le> u - t0
         | TkTest \<Rightarrow> (n + 1) * d \<le> tk_now k - t0
         | TkBegin \<Rightarrow> (n + 1) * d \<le> tk_now k - t0
         | _ \<Rightarrow> True))"

lemma ticker_keeps: "ticker_act ev k = Some k' \<Longrightarrow> ticker_inv t0 k \<Longrightarrow> ticker_inv t0 k'"
  by (cases ev; cases "tk_kind k")
     (auto simp: ticker_inv_def Let_def tk_again_def algebra_simps split: ticker_pc.splits if_splits)

interpretation ticking: guarded_system ticker_act "\<lambda>_. True" "ticker_inv t0" for t0
  by unfold_locales (rule ticker_keeps)

definition removed_inv :: "nat \<Rightarrow> ticker \<Rightarrow> bool" where
  "removed_inv n k \<longleftrightarrow> tk_done k \<and> tk_kind k \<noteq> KBoot
     \<and> tk_calls k + (if tk_pc k = TkBegin then 1 else 0) \<le> n"

lemma removed_keeps: "ticker_act ev k = Some k' \<Longrightarrow> removed_inv n k \<Longrightarrow> removed_inv n k'"
  by (cases ev; cases "tk_kind k")
     (auto simp: removed_inv_def tk_again_def split: ticker_pc.splits if_splits)

interpretation removed: guarded_system ticker_act "\<lambda>_. True" "removed_inv n" for n
  by unfold_locales (rule removed_keeps)

text \<open>
  An \<open>every\<close> trigger calls back no more often than once per period, however the callbacks take
  and the goroutine is scheduled; and once removed, an \<open>every\<close> or \<open>always\<close> trigger begins at most
  one more call.
\<close>

theorem every_keeps_its_period:
  assumes "exec ticker_act es (new_ticker (KEvery d) t0) = Some k" and "0 < d"
    and "exec ticker_act (TkRemove # fs) k = Some k'"
  shows "int (tk_calls k) \<le> (tk_now k - t0) div d \<and> tk_calls k' \<le> tk_calls k + 1"
proof -
  have kind: "tk_kind k1 = tk_kind k0" if "exec ticker_act evs k0 = Some k1" for evs k0 k1
    using that
  proof (induction evs arbitrary: k0)
    case (Cons ev evs)
    then obtain k2 where k2: "ticker_act ev k0 = Some k2" "exec ticker_act evs k2 = Some k1" by (auto split: option.splits)
    then have "tk_kind k2 = tk_kind k0" by (cases ev) (auto split: ticker_pc.splits if_splits)
    with Cons.IH [OF k2(2)] show ?case by simp
  qed simp
  have e: "tk_kind k = KEvery d" using kind [OF assms(1)] by (simp add: new_ticker_def tk_again_def Let_def)
  have "ticker_inv t0 (new_ticker (KEvery d) t0)"
    by (simp add: ticker_inv_def new_ticker_def tk_again_def Let_def)
  from ticking.exec_keeps [OF assms(1) _ this] e have "int (tk_calls k) * d \<le> tk_now k - t0"
    using assms(2) by (simp add: ticker_inv_def Let_def)
  then have "int (tk_calls k) \<le> (tk_now k - t0) div d"
    using assms(2) zdiv_mono1 [of "int (tk_calls k) * d" "tk_now k - t0" d] by simp
  moreover have "removed_inv (tk_calls k + 1) (k\<lparr>tk_done := True\<rparr>)" using e by (simp add: removed_inv_def)
  then have "removed_inv (tk_calls k + 1) k'"
    using removed.exec_keeps [of fs "k\<lparr>tk_done := True\<rparr>" k'] assms(3) e by simp
  ultimately show ?thesis by (simp add: removed_inv_def)
qed

theorem every_keeps_its_period_witness:
  "\<exists>k k'. exec ticker_act [TkTick 10, TkWakes, TkTests, TkCalls, TkReturns, TkTick 10, TkWakes, TkTests] (new_ticker (KEvery 10) 0) = Some k
     \<and> exec ticker_act [TkRemove, TkCalls] k = Some k' \<and> tk_calls k' = 2 \<and> int (tk_calls k) \<le> 2"
proof -
  obtain k k' where k: "exec ticker_act [TkTick 10, TkWakes, TkTests, TkCalls, TkReturns, TkTick 10, TkWakes, TkTests] (new_ticker (KEvery 10) 0) = Some k"
    "exec ticker_act [TkRemove, TkCalls] k = Some k'" "tk_calls k' = 2" "tk_now k = 20"
    by (simp add: new_ticker_def tk_again_def)
  with every_keeps_its_period [OF k(1) _ k(2)] show ?thesis by auto
qed

end
