(* ===== verification/Registry.thy ===== *)
theory Registry
  imports ArgReader Triggers "HOL-Library.Multiset"
begin

text \<open>
  \<open>pkg/automarshal/registry.go\<close> and the part of \<open>pkg/foreign\<close> it loads files with: identifiers, the
  registry of kinds and the choice of the kind that reads a JSON text. Of \<open>encoding/json\<close> the model
  takes the reading of a string, of an object into its raw messages, and the overlay of a message
  on a map, as \<open>json_env\<close>. A Go map comes with the order its range visits it in.
\<close>

section \<open>Identifiers\<close>

record ident =
  id_ID :: string
  id_Kind :: string
  id_pending :: "string option"

definition no_id :: ident where
  "no_id = \<lparr>id_ID = [], id_Kind = [], id_pending = None\<rparr>"

definition id_Label :: "ident \<Rightarrow> string" where
  "id_Label i = (if id_ID i = [] then id_Kind i else id_ID i)"

definition id_String :: "ident \<Rightarrow> string" where
  "id_String i = (if id_ID i = [] then id_Kind i else id_Kind i @ '':'' @ id_ID i)"

definition id_UnmarshalText :: "string \<Rightarrow> ident \<Rightarrow> ident" where
  "id_UnmarshalText data i =
     (if data = [] then i
      else case str_cut (CHR '' '') data of
        (ids, args, _) \<Rightarrow>
          let i = (case str_cut (CHR '':'') ids of
                     (before, after, True) \<Rightarrow> i\<lparr>id_Kind := before, id_ID := after\<rparr>
                   | (_, _, False) \<Rightarrow> i\<lparr>id_Kind := ids\<rparr>)
          in if TrimSpace args = [] then i else i\<lparr>id_pending := Some (TrimSpace args)\<rparr>)"

section \<open>Foreign files\<close>

datatype file_kind = RegularFile | Directory

definition path_Ext :: "string \<Rightarrow> string" where
  "path_Ext path =
     (let base = rev (takeWhile (\<lambda>c. c \<noteq> CHR ''/'') (rev path)) in
      if CHR ''.'' \<in> set base then CHR ''.'' # rev (takeWhile (\<lambda>c. c \<noteq> CHR ''.'') (rev base)) else [])"

datatype 'e foreign_err = StatErr | IsADirectory | BridgeErr 'e | NoUnmarshalerFor string

text \<open>The loop over the bridges of an extension: the first that succeeds, else the last error.\<close>

fun try_bridges :: "('w \<Rightarrow> ('e + 'w)) list \<Rightarrow> 'w \<Rightarrow> 'e option \<Rightarrow> 'e option + 'w" where
  "try_bridges [] out err = Inl err"
| "try_bridges (b # bs) out err = (case b out of Inr out' \<Rightarrow> Inr out' | Inl e \<Rightarrow> try_bridges bs out (Some e))"

definition UnmarshalContext :: "(string \<Rightarrow> file_kind option) \<Rightarrow> (string \<Rightarrow> (string \<Rightarrow> 'w \<Rightarrow> ('e + 'w)) list) \<Rightarrow> string \<Rightarrow> 'w
    \<Rightarrow> 'e foreign_err + 'w" where
  "UnmarshalContext stat Extensions path out =
     (case stat path of
        None \<Rightarrow> Inl StatErr
      | Some Directory \<Rightarrow> Inl IsADirectory
      | Some RegularFile \<Rightarrow>
          let ext = ToLower (path_Ext path) in
          (case try_bridges (map (\<lambda>b. b path) (Extensions ext)) out None of
             Inr out' \<Rightarrow> Inr out'
           | Inl (Some e) \<Rightarrow> Inl (BridgeErr e)
           | Inl None \<Rightarrow> Inl (NoUnmarshalerFor ext)))"

text \<open>\<open>Unmarshaler.Unmarshal\<close>: the bytes of a URL or of a file, decoded by \<open>u\<close>.\<close>

datatype 'e fetch_err = HttpFailed | HttpStatus nat | ReadFailed | DecodeErr 'e

definition Unmarshaler_Unmarshal :: "(string \<Rightarrow> 'w \<Rightarrow> 'e + 'w) \<Rightarrow> (string \<Rightarrow> (nat \<times> string) option) \<Rightarrow> (string \<Rightarrow> string option)
    \<Rightarrow> string \<Rightarrow> 'w \<Rightarrow> 'e fetch_err + 'w" where
  "Unmarshaler_Unmarshal u http_get ReadFile path out =
     (let decode = (\<lambda>data. case u data out of Inl e \<Rightarrow> Inl (DecodeErr e) | Inr out' \<Rightarrow> Inr out') in
      if HasPrefix path ''http://'' \<or> HasPrefix path ''https://''
      then (case http_get path of
              None \<Rightarrow> Inl HttpFailed
            | Some (code, body) \<Rightarrow> if code \<noteq> 200 then Inl (HttpStatus code) else decode body)
      else (case ReadFile path of None \<Rightarrow> Inl ReadFailed | Some data \<Rightarrow> decode data))"

definition foreign_Register :: "'b \<Rightarrow> string list \<Rightarrow> (string \<Rightarrow> 'b list) \<Rightarrow> string \<Rightarrow> 'b list" where
  "foreign_Register b exts Extensions = fold (\<lambda>e m. m(e := m e @ [b])) exts Extensions"

definition register_languages :: "'b \<Rightarrow> string list \<Rightarrow> (string \<Rightarrow> 'b option) \<Rightarrow> string \<Rightarrow> 'b option" where
  "register_languages b langs Languages = fold (\<lambda>l m. m(l \<mapsto> b)) langs Languages"

text \<open>A decoder is a bridge of its extensions, which runs nothing.\<close>

definition unmarshaler_Register :: "'b \<Rightarrow> string list \<Rightarrow> (string \<Rightarrow> 'b option) \<times> (string \<Rightarrow> 'b list) \<Rightarrow> (string \<Rightarrow> 'b option) \<times> (string \<Rightarrow> 'b list)" where
  "unmarshaler_Register u exts r = (fold (\<lambda>l m. m(l \<mapsto> u)) exts (fst r), foreign_Register u exts (snd r))"

definition Unmarshaler_Run :: "string \<Rightarrow> string list \<Rightarrow> string + 'c" where
  "Unmarshaler_Run script args = Inl ''run not implemented for unmarshaler''"

text \<open>The decoder of texts, by what its target can read.\<close>

datatype 'w text_target = ReadsText "string \<Rightarrow> bool \<times> 'w" | ReadsInline "string \<Rightarrow> bool \<times> 'w" | ReadsNothing 'w

definition foreign_UnmarshalText :: "string \<Rightarrow> 'w text_target \<Rightarrow> bool \<times> 'w" where
  "foreign_UnmarshalText input t =
     (case t of ReadsText f \<Rightarrow> f input | ReadsInline f \<Rightarrow> f input | ReadsNothing w \<Rightarrow> (False, w))"

text \<open>The decoders of the program: JSON, YAML, TOML and plain texts.\<close>

definition init_unmarshalers :: "'b \<Rightarrow> 'b \<Rightarrow> 'b \<Rightarrow> 'b \<Rightarrow> (string \<Rightarrow> 'b option) \<times> (string \<Rightarrow> 'b list) \<Rightarrow> (string \<Rightarrow> 'b option) \<times> (string \<Rightarrow> 'b list)" where
  "init_unmarshalers json yaml toml txt r =
     unmarshaler_Register txt [''.txt'']
       (unmarshaler_Register toml [''.toml'']
         (unmarshaler_Register yaml [''.yaml'', ''.yml''] (unmarshaler_Register json [''.json''] r)))"

section \<open>The registry\<close>

datatype reg_err =
    EmptyData
  | BadJson
  | NoUnmarshalerFound
  | InlineArgs rerr
  | LoadErr
  | NilPointer

text \<open>
  One entry of \<open>kindToUnmarshal\<close>: its defaults, the methods its type implements
  (\<open>UnmarshalInline\<close>, which returns whether it succeeded, and the two \<open>WithDefaults\<close>), and how JSON is
  read into it.
\<close>

record 'v kind_def =
  k_defaults :: 'v
  k_inline :: "(string \<Rightarrow> 'v \<Rightarrow> bool \<times> 'v) option"
  k_json :: "string \<Rightarrow> 'v \<Rightarrow> 'v option"
  k_defaultsID :: "(ident \<Rightarrow> 'v \<Rightarrow> 'v) option"
  k_withDefaults :: "('v \<Rightarrow> 'v) option"

record json_env =
  js_string :: "string \<Rightarrow> string option"
  js_object :: "string \<Rightarrow> (string \<times> string) list option"
  js_overlay :: "string \<Rightarrow> (string \<times> jany) list \<Rightarrow> (string \<times> jany) list option"
  js_print :: "(string \<times> jany) list \<Rightarrow> string option"

type_synonym 'v holder = "'v option \<times> ident"

record 'v registry =
  rg_kinds :: "string \<Rightarrow> 'v kind_def option"
  rg_nonObject :: "char \<Rightarrow> (string \<Rightarrow> 'v holder \<Rightarrow> reg_err + 'v holder) option"

definition RegisterNonObject :: "'v registry \<Rightarrow> char \<Rightarrow> (string \<Rightarrow> 'v holder \<Rightarrow> reg_err + 'v holder) \<Rightarrow> 'v registry" where
  "RegisterNonObject r c f = r\<lparr>rg_nonObject := (rg_nonObject r)(c \<mapsto> f)\<rparr>"

definition Define :: "'v registry \<Rightarrow> string \<Rightarrow> 'v kind_def \<Rightarrow> 'v registry" where
  "Define r kind k = r\<lparr>rg_kinds := (rg_kinds r)(kind \<mapsto> k)\<rparr>"

definition NewRegistry :: "'v registry" where
  "NewRegistry = \<lparr>rg_kinds = Map.empty, rg_nonObject = Map.empty\<rparr>"

text \<open>The factory of a kind: inline arguments first, then the message, then the defaults.\<close>

definition inline_args :: "'v kind_def \<Rightarrow> string option \<Rightarrow> string option \<times> 'v" where
  "inline_args k pending =
     (case (pending, k_inline k) of
        (Some p, Some f) \<Rightarrow> (case f p (k_defaults k) of (ok, v) \<Rightarrow> (if ok then None else Some p, v))
      | _ \<Rightarrow> (pending, k_defaults k))"

definition message_with_args :: "reader_env \<Rightarrow> json_env \<Rightarrow> string option \<Rightarrow> string \<Rightarrow> reg_err + string" where
  "message_with_args env js pending msg =
     (case pending of
        None \<Rightarrow> Inr msg
      | Some p \<Rightarrow>
          (case fst (rd_Set env p) of
             Inl e \<Rightarrow> Inl (InlineArgs e)
           | Inr args \<Rightarrow>
               (case js_overlay js msg args of
                  None \<Rightarrow> Inl BadJson
                | Some m \<Rightarrow> (case js_print js m of None \<Rightarrow> Inl BadJson | Some msg' \<Rightarrow> Inr msg'))))"

definition finish_value :: "'v kind_def \<Rightarrow> ident \<Rightarrow> 'v \<Rightarrow> 'v" where
  "finish_value k i v =
     (let v = (case k_defaultsID k of None \<Rightarrow> v | Some f \<Rightarrow> f i v)
      in case k_withDefaults k of None \<Rightarrow> v | Some f \<Rightarrow> f v)"

definition factory :: "reader_env \<Rightarrow> json_env \<Rightarrow> 'v kind_def \<Rightarrow> ident \<Rightarrow> string \<Rightarrow> reg_err + 'v" where
  "factory env js k i msg =
     (case inline_args k (id_pending i) of
        (pending, v) \<Rightarrow>
          (case message_with_args env js pending msg of
             Inl e \<Rightarrow> Inl e
           | Inr msg \<Rightarrow>
               (case k_json k msg v of
                  None \<Rightarrow> Inl BadJson
                | Some v \<Rightarrow> Inr (finish_value k (i\<lparr>id_pending := pending\<rparr>) v))))"

definition skip_leading :: "string \<Rightarrow> string" where
  "skip_leading = dropWhile (\<lambda>c. c = CHR '' '' \<or> c = CHR 0x09 \<or> c = CHR 0x0A)"

text \<open>The object form: the first key, in the order of the range, whose kind is defined.\<close>

fun by_kind :: "reader_env \<Rightarrow> json_env \<Rightarrow> 'v registry \<Rightarrow> (string \<times> string) list \<Rightarrow> reg_err + 'v holder" where
  "by_kind env js r [] = Inl NoUnmarshalerFound"
| "by_kind env js r ((idstr, data) # ids) =
     (let i = id_UnmarshalText idstr no_id in
      case rg_kinds r (id_Kind i) of
        None \<Rightarrow> by_kind env js r ids
      | Some k \<Rightarrow> (case factory env js k i data of Inl e \<Rightarrow> Inl e | Inr v \<Rightarrow> Inr (Some v, i)))"

definition non_object :: "'v registry \<Rightarrow> string \<Rightarrow> 'v holder \<Rightarrow> reg_err + 'v holder" where
  "non_object r data val =
     (case rg_nonObject r (hd data) of None \<Rightarrow> Inl NoUnmarshalerFound | Some f \<Rightarrow> f data val)"

definition reg_Unmarshal :: "reader_env \<Rightarrow> json_env \<Rightarrow> (string \<Rightarrow> 'v holder \<Rightarrow> reg_err + 'v holder) \<Rightarrow> 'v registry
    \<Rightarrow> string \<Rightarrow> 'v holder \<Rightarrow> reg_err + 'v holder" where
  "reg_Unmarshal env js load r data val =
     (let data = skip_leading data in
      if data = [] then Inl EmptyData
      else if hd data = CHR 0x22
      then (case js_string js data of
              None \<Rightarrow> Inl BadJson
            | Some txt \<Rightarrow>
                if HasPrefix txt ''@'' then load (fst (CutPrefix txt ''@'')) val
                else let i = id_UnmarshalText txt no_id in
                  (case rg_kinds r (id_Kind i) of
                     Some k \<Rightarrow> (case factory env js k i ''{}'' of Inl e \<Rightarrow> Inl e | Inr v \<Rightarrow> Inr (Some v, i))
                   | None \<Rightarrow> non_object r data val))
      else if hd data \<noteq> CHR ''{'' then non_object r data val
      else (case js_object js data of None \<Rightarrow> Inl BadJson | Some ids \<Rightarrow> by_kind env js r ids))"

definition reg_Marshal :: "((string \<times> string) list \<Rightarrow> string) \<Rightarrow> ('v option \<Rightarrow> string) \<Rightarrow> 'v holder \<Rightarrow> string" where
  "reg_Marshal print_object print val = print_object [(id_String (snd val), print (fst val))]"

section \<open>Identifiers are read back\<close>

lemma cut_id:
  assumes "CHR '':'' \<notin> set k"
  shows "str_cut (CHR '':'') (k @ CHR '':'' # x) = (k, x, True)"
  using assms by simp

text \<open>
  The text of an identifier, read into a fresh one, gives it back: without a space in its parts and
  without a colon in its kind.
\<close>

theorem id_roundtrip:
  assumes "CHR '' '' \<notin> set (id_Kind i)" and "CHR '' '' \<notin> set (id_ID i)" and "CHR '':'' \<notin> set (id_Kind i)"
  shows "id_UnmarshalText (id_String i) no_id = i\<lparr>id_pending := None\<rparr>"
proof -
  have "str_cut (CHR '' '') (id_String i) = (id_String i, [], False)"
    using assms by (intro str_cut_none) (simp add: id_String_def)
  moreover have "TrimSpace [] = []" by (simp add: TrimSpace_def)
  moreover have "str_cut (CHR '':'') (id_Kind i) = (id_Kind i, [], False)" using assms(3) by simp
  moreover note cut_id [OF assms(3), of "id_ID i"]
  ultimately show ?thesis
    by (cases i; cases "id_ID i = []"; cases "id_Kind i = []") (simp_all add: id_UnmarshalText_def id_String_def no_id_def Let_def)
qed

lemma id_roundtrip_witness:
  "id_UnmarshalText (id_String \<lparr>id_ID = ''web:8'', id_Kind = ''run'', id_pending = None\<rparr>) no_id
     = \<lparr>id_ID = ''web:8'', id_Kind = ''run'', id_pending = None\<rparr>"
  by (subst id_roundtrip) simp_all

section \<open>The form of a value does not matter\<close>

lemma by_kind_known:
  "by_kind env js r ids = by_kind env js r (filter (\<lambda>(t, _). rg_kinds r (id_Kind (id_UnmarshalText t no_id)) \<noteq> None) ids)"
  by (induction ids) (auto simp: Let_def split: option.splits)

lemma short_lists_equal: "length xs \<le> 1 \<Longrightarrow> mset xs = mset ys \<Longrightarrow> xs = ys"
  by (cases xs) (auto simp: mset_single_iff_right)

text \<open>
  The order in which the range over the fields of an object visits them does not matter, as long as
  at most one of its keys is of a defined kind.
\<close>

theorem field_order_irrelevant:
  assumes "mset ids = mset ids'"
    and "length (filter (\<lambda>(t, _). rg_kinds r (id_Kind (id_UnmarshalText t no_id)) \<noteq> None) ids) \<le> 1"
  shows "by_kind env js r ids = by_kind env js r ids'"
proof -
  let ?f = "filter (\<lambda>(t, _ :: string). rg_kinds r (id_Kind (id_UnmarshalText t no_id)) \<noteq> None)"
  have "mset (?f ids) = mset (?f ids')" using assms(1) by simp
  with assms(2) have f: "?f ids = ?f ids'" by (rule short_lists_equal)
  have "by_kind env js r ids = by_kind env js r (?f ids)" by (rule by_kind_known)
  also have "\<dots> = by_kind env js r (?f ids')" by (simp only: f)
  also have "\<dots> = by_kind env js r ids'" by (rule by_kind_known [symmetric])
  finally show ?thesis .
qed

definition plain_kind :: "(string \<Rightarrow> 'v \<Rightarrow> 'v option) \<Rightarrow> 'v \<Rightarrow> 'v kind_def" where
  "plain_kind json v =
     \<lparr>k_defaults = v, k_inline = None, k_json = json, k_defaultsID = None, k_withDefaults = None\<rparr>"

definition sample_registry :: "string registry" where
  "sample_registry = Define (Define NewRegistry ''a'' (plain_kind (\<lambda>m v. Some m) [])) ''b'' (plain_kind (\<lambda>m v. Some m) [])"

definition sample_js :: json_env where
  "sample_js =
     \<lparr>js_string = (\<lambda>s. Some (butlast (tl s))), js_object = (\<lambda>s. Some [(''a:x'', tl (butlast s))]),
      js_overlay = (\<lambda>msg m. Some m), js_print = (\<lambda>m. Some (concat (map fst m)))\<rparr>"

lemma field_order_irrelevant_witness:
  "by_kind sample_env sample_js sample_registry [(''c'', ''1''), (''a:x'', ''2'')]
     = by_kind sample_env sample_js sample_registry [(''a:x'', ''2''), (''c'', ''1'')]"
  by (rule field_order_irrelevant) (simp, code_simp)

text \<open>With two defined kinds it does.\<close>

lemma two_kinds_order_matters:
  "by_kind sample_env sample_js sample_registry [(''a'', ''1''), (''b'', ''2'')]
     \<noteq> by_kind sample_env sample_js sample_registry [(''b'', ''2''), (''a'', ''1'')]"
  by code_simp

lemma UnmarshalText_args:
  assumes "CHR '' '' \<notin> set key" and "key \<noteq> []"
  shows "id_UnmarshalText (key @ '' '' @ args) no_id =
    (let i = id_UnmarshalText key no_id in if TrimSpace args = [] then i else i\<lparr>id_pending := Some (TrimSpace args)\<rparr>)"
proof -
  have "str_cut (CHR '' '') (key @ CHR '' '' # args) = (key, args, True)" using assms(1) by simp
  moreover have "str_cut (CHR '' '') key = (key, [], False)" using assms(1) by simp
  moreover have "TrimSpace [] = []" by (simp add: TrimSpace_def)
  ultimately show ?thesis using assms(2)
    by (cases "str_cut (CHR '':'') key"; cases "snd (snd (str_cut (CHR '':'') key))")
      (simp_all add: id_UnmarshalText_def Let_def)
qed

lemma pending_None:
  assumes "CHR '' '' \<notin> set key"
  shows "id_pending (id_UnmarshalText key no_id) = None"
proof -
  have "str_cut (CHR '' '') key = (key, [], False)" using assms by simp
  then show ?thesis
    by (cases "str_cut (CHR '':'') key"; cases "snd (snd (str_cut (CHR '':'') key))")
      (auto simp: id_UnmarshalText_def no_id_def TrimSpace_def Let_def)
qed



section \<open>The registry of triggers\<close>

definition trigger_inline :: "(string \<Rightarrow> duration option) \<Rightarrow> string \<Rightarrow> trigger \<Rightarrow> bool \<times> trigger" where
  "trigger_inline ParseDuration txt t =
     (case trigger_UnmarshalInline ParseDuration t txt of None \<Rightarrow> (False, t) | Some t' \<Rightarrow> (True, t'))"

definition trigger_kind :: "(string \<Rightarrow> duration option) \<Rightarrow> (string \<Rightarrow> trigger \<Rightarrow> trigger option) \<Rightarrow> trigger \<Rightarrow> trigger kind_def" where
  "trigger_kind ParseDuration json t =
     \<lparr>k_defaults = t,
      k_inline = (case t of TriggerAny _ \<Rightarrow> None | _ \<Rightarrow> Some (trigger_inline ParseDuration)),
      k_json = json,
      k_defaultsID = Some (\<lambda>i t. trigger_WithDefaults t (id_ID i)),
      k_withDefaults = None\<rparr>"

text \<open>The array form, whose elements \<open>list_of\<close> reads, each through the registry.\<close>

definition trigger_array :: "(string \<Rightarrow> trigger list option) \<Rightarrow> string \<Rightarrow> trigger holder \<Rightarrow> reg_err + trigger holder" where
  "trigger_array list_of data val =
     (case list_of data of
        None \<Rightarrow> Inl BadJson
      | Some ts \<Rightarrow> Inr (Some (TriggerAny ts), (snd val)\<lparr>id_Kind := ''many''\<rparr>))"

definition TriggerRegistry :: "(string \<Rightarrow> duration option) \<Rightarrow> (string \<Rightarrow> trigger \<Rightarrow> trigger option)
    \<Rightarrow> (string \<Rightarrow> trigger list option) \<Rightarrow> trigger registry" where
  "TriggerRegistry ParseDuration json list_of =
     (let k = trigger_kind ParseDuration json;
          r = Define NewRegistry ''any'' (k (TriggerAny []));
          r = RegisterNonObject r (CHR ''['') (trigger_array list_of);
          r = Define r ''always'' (k TriggerAlways);
          r = Define r ''never'' (k TriggerNever);
          r = Define r ''boot'' (k TriggerBoot);
          r = Define r ''on'' (k (TriggerOn []));
          r = Define r ''once'' (k (TriggerOnce []))
      in Define r ''every'' (k (TriggerEvery 0)))"

lemmas trigger_registry = TriggerRegistry_def Define_def RegisterNonObject_def NewRegistry_def Let_def

text \<open>
  A trigger read from a JSON array does not survive being stored: it is given the kind \<open>many\<close>, which
  no registry entry has (the entry is \<open>any\<close>), so what \<open>Marshal\<close> prints of it is refused by \<open>Unmarshal\<close>.
\<close>

theorem array_trigger_lost:
  assumes "hd data = CHR ''[''" and "data \<noteq> []" and "list_of data = Some ts"
    and "\<And>b. js_object js (print_object [(''many'', b)]) = Some [(''many'', b)]"
    and "\<And>b. hd (print_object [(''many'', b)]) = CHR ''{'' \<and> print_object [(''many'', b)] \<noteq> []"
  shows "\<exists>val. reg_Unmarshal env js load (TriggerRegistry pd json list_of) data (None, no_id) = Inr val
    \<and> reg_Unmarshal env js load (TriggerRegistry pd json list_of) (reg_Marshal print_object print val) (None, no_id)
        = Inl NoUnmarshalerFound"
proof -
  let ?r = "TriggerRegistry pd json list_of"
  let ?val = "(Some (TriggerAny ts), no_id\<lparr>id_Kind := ''many''\<rparr>)"
  have s: "skip_leading x = x" if "hd x \<in> {CHR ''['', CHR ''{''}" "x \<noteq> []" for x
    using that by (cases x) (auto simp: skip_leading_def)
  have "reg_Unmarshal env js load ?r data (None, no_id) = Inr ?val"
    using assms(1-3) by (simp add: reg_Unmarshal_def s non_object_def trigger_registry trigger_array_def)
  moreover have "id_String (no_id\<lparr>id_Kind := ''many''\<rparr>) = ''many''" by (simp add: id_String_def no_id_def)
  moreover have "by_kind env js ?r [(''many'', b)] = Inl NoUnmarshalerFound" for b
    by (simp add: id_UnmarshalText_def no_id_def TrimSpace_def trigger_registry)
  ultimately show ?thesis
    using assms(4,5) by (intro exI [of _ ?val]) (simp add: reg_Marshal_def reg_Unmarshal_def s Let_def)
qed

definition one_field_js :: json_env where
  "one_field_js = sample_js\<lparr>js_object := (\<lambda>s. Some [(''many'', tl s)])\<rparr>"

lemma array_trigger_lost_witness:
  "\<exists>val. reg_Unmarshal sample_env one_field_js (\<lambda>_. Inr) (TriggerRegistry (\<lambda>_. None) (\<lambda>_. Some) (\<lambda>_. Some [TriggerBoot]))
          ''[boot]'' (None, no_id) = Inr val
    \<and> reg_Unmarshal sample_env one_field_js (\<lambda>_. Inr) (TriggerRegistry (\<lambda>_. None) (\<lambda>_. Some) (\<lambda>_. Some [TriggerBoot]))
          (reg_Marshal (\<lambda>fs. CHR ''{'' # snd (hd fs)) (\<lambda>_. ''boot'') val) (None, no_id) = Inl NoUnmarshalerFound"
  by (rule array_trigger_lost [where ts = "[TriggerBoot]"]) (simp_all add: one_field_js_def)

text \<open>
  A file named by a URL is never fetched: \<open>foreign.Unmarshal\<close> asks for its \<open>stat\<close> first, so the HTTP
  branch of the decoders is out of reach.
\<close>

lemma url_is_no_file:
  "stat path = None \<Longrightarrow> UnmarshalContext stat ext path out = Inl StatErr"
  by (simp add: UnmarshalContext_def)

text \<open>The first bridge that reads a file decides, and a failure is that of the last one.\<close>

lemma try_bridges_first:
  "try_bridges bs out err =
     (case dropWhile (\<lambda>b. \<exists>e. b out = Inl e) bs of
        b # _ \<Rightarrow> Inr (projr (b out))
      | [] \<Rightarrow> Inl (if bs = [] then err else Some (projl (last bs out))))"
proof (induction bs arbitrary: err)
  case (Cons b bs)
  then show ?case
    by (cases "b out") (auto split: list.splits, metis (mono_tags, lifting) dropWhile_eq_Nil_conv list.distinct(1))
qed simp

end
