(* ===== verification/RunTask.thy ===== *)
theory RunTask
  imports Retry LoadBalancer
begin

text \<open>
  The tasks that do something: \<open>pkg/task/task_run.go\<close> (programs, alone, in a cluster, behind a load
  balancer), \<open>process.go\<close> (what a process tree uses) and \<open>task_fetch.go\<close> (an HTTP request). Processes,
  sockets and HTTP are parameters; goroutines are events of a step function.
\<close>

section \<open>Reports of process trees\<close>

text \<open>What the operating system says of a process; \<open>None\<close> is an error. Times are milliseconds since the
  zero time, the epoch of \<open>CreateTime\<close> being that of Unix.\<close>

record process =
  pr_Username :: string
  pr_CreateTime :: "int option"
  pr_CPU :: "f64 option"
  pr_RSS :: "nat option"
  pr_Children :: "int list option"

definition UnixMilli :: "int \<Rightarrow> int" where
  "UnixMilli epo = epo + 62135596800000"

definition visit_process :: "process \<Rightarrow> int \<Rightarrow> report \<Rightarrow> report" where
  "visit_process p pid r =
     (let r = r\<lparr>rep_Pid := rep_Pid r @ [pid]\<rparr>;
          r = (if rep_Username r = [] then r\<lparr>rep_Username := pr_Username p\<rparr> else r);
          r = (if rep_CreateTime r = 0
               then (case pr_CreateTime p of None \<Rightarrow> r | Some epo \<Rightarrow> r\<lparr>rep_CreateTime := UnixMilli epo\<rparr>) else r);
          r = (case pr_CPU p of None \<Rightarrow> r | Some c \<Rightarrow> r\<lparr>rep_Cpu := f64_add (rep_Cpu r) c\<rparr>)
      in case pr_RSS p of None \<Rightarrow> r | Some n \<Rightarrow> r\<lparr>rep_Mem := f64_add (rep_Mem r) (f64_of_int (int n))\<rparr>)"

text \<open>\<open>fillReportRecursively\<close> and its loop over the children, on fuel; \<open>None\<close> is its lack.\<close>

fun fillReport :: "(int \<Rightarrow> process) \<Rightarrow> nat \<Rightarrow> int \<Rightarrow> report \<Rightarrow> report option"
  and fillChildren :: "(int \<Rightarrow> process) \<Rightarrow> nat \<Rightarrow> int list \<Rightarrow> report \<Rightarrow> report option" where
  "fillReport ps 0 pid r = None"
| "fillReport ps (Suc n) pid r =
     (if pid = 0 \<or> pid \<in> set (rep_Pid r) then Some r
      else (let r = visit_process (ps pid) pid r in
            case pr_Children (ps pid) of None \<Rightarrow> Some r | Some cs \<Rightarrow> fillChildren ps n cs r))"
| "fillChildren ps n [] r = Some r"
| "fillChildren ps n (c # cs) r = (case fillReport ps n c r of None \<Rightarrow> None | Some r' \<Rightarrow> fillChildren ps n cs r')"

text \<open>\<open>Report.String\<close>, over the printing of its numbers and of the time it has been up; the bracket stays open.\<close>

definition rep_String :: "(f64 \<Rightarrow> string) \<Rightarrow> (int list \<Rightarrow> string) \<Rightarrow> (int \<Rightarrow> string) \<Rightarrow> report \<Rightarrow> string" where
  "rep_String fixed2 pids up r =
     (if rep_Pid r = [] then ''[Not running]''
      else ''['' @ rep_Username r @ ''-'' @ pids (rep_Pid r) @ '' | CPU: '' @ fixed2 (rep_Cpu r) @ ''% MEM: ''
        @ fixed2 (f64_div (f64_div (rep_Mem r) (f64_of_int 1024)) (f64_of_int 1024)) @ ''MB, UP: '' @ up (rep_CreateTime r))"

definition InspectProcess :: "(int \<Rightarrow> process) \<Rightarrow> nat \<Rightarrow> int option \<Rightarrow> report option" where
  "InspectProcess ps fuel proc =
     (case proc of None \<Rightarrow> Some zero_report | Some pid \<Rightarrow> if pid = 0 then Some zero_report else fillReport ps fuel pid zero_report)"

definition rep_IsZero :: "report \<Rightarrow> bool" where
  "rep_IsZero r \<longleftrightarrow> rep_Pid r = []"

declare fillReport.simps [simp del] fillChildren.simps [simp del]
lemmas fill_simps = fillReport.simps fillChildren.simps

definition kids :: "(int \<Rightarrow> process) \<Rightarrow> int \<Rightarrow> int set" where
  "kids ps p = (case pr_Children (ps p) of None \<Rightarrow> {} | Some cs \<Rightarrow> set cs)"

lemma visit_Pid [simp]: "rep_Pid (visit_process p pid r) = rep_Pid r @ [pid]"
  by (simp add: visit_process_def Let_def split: option.splits)

text \<open>The processes below \<open>p\<close>, through processes that exist.\<close>

inductive below :: "(int \<Rightarrow> process) \<Rightarrow> int \<Rightarrow> int \<Rightarrow> bool" for ps p where
  root: "p \<noteq> 0 \<Longrightarrow> below ps p p"
| child: "below ps p q \<Longrightarrow> c \<in> kids ps q \<Longrightarrow> c \<noteq> 0 \<Longrightarrow> below ps p c"

inductive_cases belowE: "below ps p q"

lemma below_kid:
  assumes "below ps c q" and "p \<noteq> 0" and "c \<in> kids ps p"
  shows "below ps p q"
  using assms(1)
proof induction
  case root
  then show ?case using below.child [OF below.root [OF assms(2)]] assms(3) by blast
qed (rule below.child)

text \<open>What a traversal leaves: it adds distinct processes, each of them below its start, and with each of
  them its children.\<close>

definition visited :: "(int \<Rightarrow> process) \<Rightarrow> (int \<Rightarrow> bool) \<Rightarrow> int set \<Rightarrow> report \<Rightarrow> report \<Rightarrow> bool" where
  "visited ps P ts r r' \<longleftrightarrow>
     distinct (rep_Pid r') \<and> set (rep_Pid r) \<subseteq> set (rep_Pid r') \<and> ts - {0} \<subseteq> set (rep_Pid r') \<and>
     (\<forall>q \<in> set (rep_Pid r') - set (rep_Pid r). P q \<and> kids ps q - {0} \<subseteq> set (rep_Pid r'))"

lemma visited_then:
  assumes "visited ps P ts r r1" and "visited ps Q us r1 r2" and "\<And>q. P q \<Longrightarrow> R q" and "\<And>q. Q q \<Longrightarrow> R q"
  shows "visited ps R (ts \<union> us) r r2"
  using assms unfolding visited_def by blast

lemma fill_visits:
  "fillReport ps n p r = Some r' \<Longrightarrow> distinct (rep_Pid r) \<Longrightarrow> visited ps (below ps p) {p} r r'"
  "fillChildren ps n cs r = Some r' \<Longrightarrow> distinct (rep_Pid r) \<Longrightarrow> visited ps (\<lambda>q. \<exists>c \<in> set cs. below ps c q) (set cs) r r'"
proof (induction ps n p r and ps n cs r arbitrary: r' and r' rule: fillReport_fillChildren.induct)
  case (2 ps n pid r)
  show ?case
  proof (cases "pid = 0 \<or> pid \<in> set (rep_Pid r)")
    case True
    then show ?thesis using 2 by (auto simp: fill_simps visited_def)
  next
    case False
    let ?r1 = "visit_process (ps pid) pid r"
    have d: "distinct (rep_Pid ?r1)" using False 2(3) by simp
    show ?thesis
    proof (cases "pr_Children (ps pid)")
      case None
      then show ?thesis using False 2(2,3) below.root [of pid ps] by (auto simp: fill_simps Let_def visited_def kids_def)
    next
      case (Some cs)
      then have f: "fillChildren ps n cs ?r1 = Some r'" using False 2(2) by (simp add: fill_simps Let_def)
      have V: "visited ps (\<lambda>q. \<exists>c \<in> set cs. below ps c q) (set cs) ?r1 r'"
        using 2(1) [OF False refl Some f d] .
      have k: "kids ps pid = set cs" using Some by (simp add: kids_def)
      have "below ps pid q \<and> kids ps q - {0} \<subseteq> set (rep_Pid r')" if q: "q \<in> set (rep_Pid r') - set (rep_Pid r)" for q
      proof (cases "q = pid")
        case True
        then show ?thesis using V k below.root [of pid ps] False by (simp add: visited_def)
      next
        case neq: False
        have "(\<exists>c \<in> set cs. below ps c q) \<and> kids ps q - {0} \<subseteq> set (rep_Pid r')"
          using V q neq by (simp add: visited_def)
        then show ?thesis using below_kid [of ps _ q pid] False k by blast
      qed
      then show ?thesis using V unfolding visited_def by auto
    qed
  qed
next
  case (4 ps n c cs r)
  obtain r1 where r1: "fillReport ps n c r = Some r1" "fillChildren ps n cs r1 = Some r'"
    using 4(3) by (auto simp: fill_simps split: option.splits)
  have v: "visited ps (below ps c) {c} r r1" using 4(1) [OF r1(1) 4(4)] .
  then have "distinct (rep_Pid r1)" by (simp add: visited_def)
  from visited_then [OF v 4(2) [OF r1 this], of "\<lambda>q. \<exists>x \<in> set (c # cs). below ps x q"]
  show ?case by simp
qed (auto simp: fill_simps visited_def)

text \<open>Fuel: one more than the processes not yet visited, of a finite set closed under children.\<close>

lemma fill_enough:
  assumes "finite U"
  shows "(\<And>p. p \<in> U \<Longrightarrow> kids ps p - {0} \<subseteq> U) \<Longrightarrow> p \<in> insert 0 U \<Longrightarrow> card (U - set (rep_Pid r)) < n \<Longrightarrow> distinct (rep_Pid r) \<Longrightarrow> fillReport ps n p r \<noteq> None"
    "(\<And>p. p \<in> U \<Longrightarrow> kids ps p - {0} \<subseteq> U) \<Longrightarrow> set cs \<subseteq> insert 0 U \<Longrightarrow> card (U - set (rep_Pid r)) < n \<Longrightarrow> distinct (rep_Pid r) \<Longrightarrow> fillChildren ps n cs r \<noteq> None"
proof (induction ps n p r and ps n cs r rule: fillReport_fillChildren.induct)
  case (2 ps n pid r)
  show ?case
  proof (cases "pid = 0 \<or> pid \<in> set (rep_Pid r)")
    case False
    let ?r1 = "visit_process (ps pid) pid r"
    have "U - set (rep_Pid ?r1) \<subset> U - set (rep_Pid r)" using False 2(3) by auto
    then have "card (U - set (rep_Pid ?r1)) < n" using psubset_card_mono [of "U - set (rep_Pid r)"] assms(1) 2(4) by fastforce
    moreover have "distinct (rep_Pid ?r1)" using False 2(5) by simp
    moreover have "set cs \<subseteq> insert 0 U" if "pr_Children (ps pid) = Some cs" for cs
      using 2(2) [of pid] False 2(3) that by (auto simp: kids_def)
    ultimately show ?thesis
      using 2(1) [OF False refl _ 2(2)] False by (cases "pr_Children (ps pid)") (auto simp: fill_simps Let_def)
  qed (simp add: fill_simps)
next
  case (4 ps n c cs r)
  obtain r1 where r1: "fillReport ps n c r = Some r1" using 4(1) 4(3-6) by auto
  have v: "visited ps (below ps c) {c} r r1" using fill_visits(1) [OF r1 4(6)] .
  then have "card (U - set (rep_Pid r1)) \<le> card (U - set (rep_Pid r))"
    using assms(1) by (intro card_mono) (auto simp: visited_def)
  then have "fillChildren ps n cs r1 \<noteq> None"
    using 4(2) [OF r1] 4(3-5) v by (auto simp: visited_def)
  then show ?case using r1 by (simp add: fill_simps)
qed (simp_all add: fill_simps)

text \<open>
  C30. \<open>InspectProcess\<close> stops on every finite process table, cycles of reused process IDs included, and
  its report lists every process below the given one exactly once.
\<close>

theorem inspect_terminates:
  assumes "finite U" and "\<And>p. p \<in> U \<Longrightarrow> kids ps p - {0} \<subseteq> U" and "pid \<in> U" and "card U < n"
  shows "\<exists>r. InspectProcess ps n (Some pid) = Some r \<and> distinct (rep_Pid r) \<and> set (rep_Pid r) = {q. below ps pid q}"
proof (cases "pid = 0")
  case True
  have False if "below ps pid q" for q
    using that by induction (use True in auto)
  then show ?thesis using True by (auto simp: InspectProcess_def zero_report_def)
next
  case False
  have z: "rep_Pid zero_report = []" by (simp add: zero_report_def)
  obtain r where r: "fillReport ps n pid zero_report = Some r"
    using fill_enough(1) [OF assms(1,2), of pid zero_report n] assms(3,4) by (auto simp: z)
  have v: "visited ps (below ps pid) {pid} zero_report r" using fill_visits(1) [OF r] by (simp add: z)
  have "q \<in> set (rep_Pid r)" if "below ps pid q" for q
    using that by induction (use v False in \<open>auto simp: visited_def z\<close>)
  then have "set (rep_Pid r) = {q. below ps pid q}" using v by (auto simp: visited_def z)
  then show ?thesis using r v False by (simp add: InspectProcess_def visited_def)
qed

text \<open>Two processes that are each other's child, as after the reuse of an ID.\<close>

definition sample_processes :: "int \<Rightarrow> process" where
  "sample_processes pid =
     \<lparr>pr_Username = ''root'', pr_CreateTime = Some 0, pr_CPU = Some (Fin 1), pr_RSS = Some 4096,
      pr_Children = (if pid = 7 then Some [8, 9] else if pid = 8 then Some [7] else None)\<rparr>"

lemma inspect_terminates_witness:
  "\<exists>r. InspectProcess sample_processes 4 (Some 7) = Some r \<and> distinct (rep_Pid r)
     \<and> set (rep_Pid r) = {q. below sample_processes 7 q}"
  by (rule inspect_terminates [of "{7, 8, 9}"]) (auto simp: sample_processes_def kids_def split: if_splits)

section \<open>Programs\<close>

record taskrun =
  tr_Foreign :: string
  tr_Exec :: string
  tr_Args :: "string list"
  tr_Cwd :: string
  tr_Env :: "(string \<times> string) list"
  tr_N :: int
  tr_Proxy :: "lb_options option"

definition run_UnmarshalInline :: "string \<Rightarrow> taskrun \<Rightarrow> taskrun" where
  "run_UnmarshalInline txt t =
     (case str_cut (CHR '' '') txt of (before, after, _) \<Rightarrow> t\<lparr>tr_Exec := before, tr_Args := Fields after\<rparr>)"

definition run_WithDefaults :: "string \<Rightarrow> taskrun \<Rightarrow> taskrun" where
  "run_WithDefaults getwd t = (if tr_Cwd t = [] then t\<lparr>tr_Cwd := getwd\<rparr> else t)"

text \<open>The command of \<open>processRunner.Launch\<close>; a language that is not registered is a nil interface.\<close>

datatype 'c run_cmd = CmdOk 'c | CmdErr gerr | CmdPanic

definition run_command :: "(string \<Rightarrow> string list \<Rightarrow> 'c) \<Rightarrow> (string \<Rightarrow> (string \<Rightarrow> string list \<Rightarrow> (gerr + 'c)) option) \<Rightarrow> taskrun \<Rightarrow> 'c run_cmd" where
  "run_command exec_cmd Languages t =
     (if tr_Foreign t \<in> {[], ''run''} then CmdOk (exec_cmd (tr_Exec t) (tr_Args t))
      else (case Languages (tr_Foreign t) of
              None \<Rightarrow> CmdPanic
            | Some run \<Rightarrow> (case run (tr_Exec t) (tr_Args t) of Inl e \<Rightarrow> CmdErr e | Inr c \<Rightarrow> CmdOk c)))"

text \<open>\<open>cmd.Env\<close>, as pairs; the range over \<open>Env\<close> is in the order of the list.\<close>

definition run_env :: "(string \<times> string) list \<Rightarrow> string \<Rightarrow> nat \<Rightarrow> string \<Rightarrow> string option \<Rightarrow> taskrun \<Rightarrow> (string \<times> string) list" where
  "run_env environ ns n local ipc t =
     environ @ tr_Env t @ [(''GOSU_NS'', ns), (''GOSU_CID'', format_nat 10 n), (''GOSU_LOCAL'', local)]
       @ (case ipc of None \<Rightarrow> [] | Some adr \<Rightarrow> [(''GOSU_SERVE'', adr)])"

text \<open>What a child process sees: of several values of a variable \<open>os/exec\<close> keeps the last.\<close>

definition child_env :: "(string \<times> string) list \<Rightarrow> string \<Rightarrow> string option" where
  "child_env env k = map_of (rev env) k"

text \<open>
  The namespace, the number of the instance and the addresses are the daemon's, whatever the manifest
  and the daemon's own environment say; any other variable is the manifest's, and the daemon's where
  the manifest has none.
\<close>

lemma gosu_variables_win:
  "child_env (run_env environ ns n loc ipc t) =
     (child_env environ ++ child_env (tr_Env t))(''GOSU_NS'' \<mapsto> ns, ''GOSU_CID'' \<mapsto> format_nat 10 n, ''GOSU_LOCAL'' \<mapsto> loc)
       ++ (case ipc of None \<Rightarrow> Map.empty | Some adr \<Rightarrow> [''GOSU_SERVE'' \<mapsto> adr])"
  by (auto simp: child_env_def run_env_def fun_eq_iff map_add_def split: option.splits)

text \<open>A server is up when what it first answers names HTTP; \<open>dial\<close> is its first answer, if it accepts at all.\<close>

definition lifecheck :: "(string \<Rightarrow> string option) \<Rightarrow> string \<Rightarrow> bool" where
  "lifecheck dial adr =
     (case dial adr of None \<Rightarrow> False | Some reply \<Rightarrow> str_Contains (take 1024 reply) ''HTTP/1.1'')"

text \<open>The wait of \<open>processRunner.Launch\<close> for its server, and the goroutines around the process.\<close>

datatype run_chan = ChanResult | ChanErr gerr

datatype run_pc = RnHead | RnCheck | RnPause | RnRet run_chan

record runner =
  rn_lb :: bool
  rn_windows :: bool
  rn_ctx :: ctx
  rn_stopping :: bool
  rn_exit :: "gerr option option"
  rn_done :: bool
  rn_result :: "gerr option option"
  rn_pc :: run_pc
  rn_upstream :: bool
  rn_watching :: bool
  rn_removing :: bool
  rn_signals :: "string list"
  rn_reports :: nat
  rn_reporting :: bool

definition start_runner :: "bool \<Rightarrow> bool \<Rightarrow> ctx \<Rightarrow> runner" where
  "start_runner lb windows c =
     \<lparr>rn_lb = lb, rn_windows = windows, rn_ctx = c, rn_stopping = False, rn_exit = None, rn_done = False, rn_result = None,
      rn_pc = (if lb then RnHead else RnRet ChanResult), rn_upstream = False, rn_watching = True, rn_removing = False,
      rn_signals = [], rn_reports = 0, rn_reporting = True\<rparr>"

datatype runner_ev =
    RnTest
  | RnLifecheck bool
  | RnContextDone gerr
  | RnTimer
  | RnExits "gerr option"
  | RnWaited
  | RnStopping
  | RnSignals
  | RnRemoves
  | RnReports
  | RnReportsZero
  | RnCancelled gerr

fun runner_act :: "runner_ev \<Rightarrow> runner \<Rightarrow> runner option" where
  "runner_act RnTest r =
     (if rn_pc r = RnHead then Some (r\<lparr>rn_pc := if rn_done r then RnRet ChanResult else RnCheck\<rparr>) else None)"
| "runner_act (RnLifecheck ok) r =
     (if rn_pc r = RnCheck
      then Some (if ok then r\<lparr>rn_upstream := True, rn_removing := True, rn_pc := RnRet ChanResult\<rparr> else r\<lparr>rn_pc := RnPause\<rparr>)
      else None)"
| "runner_act (RnContextDone e) r =
     (if rn_pc r \<in> {RnCheck, RnPause} \<and> rn_ctx r \<noteq> live \<and> e \<in> {CtxCanceled, CtxDeadline}
      then Some (r\<lparr>rn_pc := RnRet (ChanErr e)\<rparr>) else None)"
| "runner_act RnTimer r = (if rn_pc r = RnPause then Some (r\<lparr>rn_pc := RnHead\<rparr>) else None)"
| "runner_act (RnExits e) r = (if rn_exit r = None then Some (r\<lparr>rn_exit := Some e\<rparr>) else None)"
| "runner_act RnWaited r =
     (if rn_exit r \<noteq> None \<and> rn_result r = None then Some (r\<lparr>rn_done := True, rn_result := rn_exit r\<rparr>) else None)"
| "runner_act RnStopping r = Some (r\<lparr>rn_stopping := True\<rparr>)"
| "runner_act RnSignals r =
     (if rn_watching r \<and> rn_stopping r
      then Some (r\<lparr>rn_watching := False, rn_signals := rn_signals r @ [if rn_windows r then ''kill'' else ''interrupt'']\<rparr>) else None)"
| "runner_act RnRemoves r =
     (if rn_removing r \<and> rn_stopping r then Some (r\<lparr>rn_removing := False, rn_upstream := False\<rparr>) else None)"
| "runner_act RnReports r = (if rn_reporting r \<and> \<not> rn_done r then Some (r\<lparr>rn_reports := rn_reports r + 1\<rparr>) else None)"
| "runner_act RnReportsZero r = (if rn_reporting r \<and> rn_done r then Some (r\<lparr>rn_reporting := False, rn_reports := 0\<rparr>) else None)"
| "runner_act (RnCancelled c) r = Some (r\<lparr>rn_ctx := cancel_cause (rn_ctx r) c\<rparr>)"

definition result_is_exit :: "runner \<Rightarrow> bool" where
  "result_is_exit r \<longleftrightarrow> (rn_result r \<noteq> None \<longrightarrow> rn_result r = rn_exit r)"

definition upstream_checked :: "runner \<Rightarrow> bool" where
  "upstream_checked r \<longleftrightarrow> (\<not> rn_lb r \<longrightarrow> rn_pc r = RnRet ChanResult) \<and> (rn_upstream r \<longrightarrow> rn_lb r)"

definition error_is_cancel :: "runner \<Rightarrow> bool" where
  "error_is_cancel r \<longleftrightarrow> (\<forall>e. rn_pc r = RnRet (ChanErr e) \<longrightarrow> rn_ctx r \<noteq> live)"

definition signalled_once :: "runner \<Rightarrow> bool" where
  "signalled_once r \<longleftrightarrow> (rn_watching r \<longrightarrow> rn_signals r = []) \<and> length (rn_signals r) \<le> 1 \<and> (rn_signals r \<noteq> [] \<longrightarrow> rn_stopping r)"

definition runner_inv :: "runner \<Rightarrow> bool" where
  "runner_inv r \<longleftrightarrow> result_is_exit r \<and> upstream_checked r \<and> error_is_cancel r \<and> signalled_once r"

lemma runner_result_is_exit: "runner_act ev r = Some r' \<Longrightarrow> result_is_exit r \<Longrightarrow> result_is_exit r'"
  by (cases ev) (auto simp: result_is_exit_def split: if_splits)

lemma runner_upstream_checked: "runner_act ev r = Some r' \<Longrightarrow> upstream_checked r \<Longrightarrow> upstream_checked r'"
  by (cases ev) (auto simp: upstream_checked_def split: if_splits)

lemma runner_error_is_cancel: "runner_act ev r = Some r' \<Longrightarrow> error_is_cancel r \<Longrightarrow> error_is_cancel r'"
  by (cases ev) (auto simp: error_is_cancel_def cancel_cause_def split: if_splits option.splits)

lemma runner_signalled_once: "runner_act ev r = Some r' \<Longrightarrow> signalled_once r \<Longrightarrow> signalled_once r'"
  by (cases ev) (auto simp: signalled_once_def split: if_splits)

interpretation runner: guarded_system runner_act "\<lambda>_. True" runner_inv
  by unfold_locales
    (simp add: runner_inv_def runner_result_is_exit runner_upstream_checked runner_error_is_cancel runner_signalled_once)

lemmas runner_facts = runner_inv_def result_is_exit_def upstream_checked_def error_is_cancel_def signalled_once_def

lemma runner_keeps_lb: "runner_act ev r = Some r' \<Longrightarrow> rn_lb r' = rn_lb r"
  by (cases ev) (auto split: if_splits)

lemma runner_adds: "runner_act ev r = Some r' \<Longrightarrow> rn_upstream r' \<Longrightarrow> rn_upstream r \<or> ev = RnLifecheck True"
  by (cases ev) (auto split: if_splits)

lemma runner_exec_lb: "exec runner_act evs q = Some r \<Longrightarrow> rn_lb r = rn_lb q"
  by (induction evs arbitrary: q) (auto split: option.splits dest: runner_keeps_lb)

lemma runner_exec_adds: "exec runner_act evs q = Some r \<Longrightarrow> rn_upstream r \<Longrightarrow> rn_upstream q \<or> RnLifecheck True \<in> set evs"
  by (induction evs arbitrary: q) (auto split: option.splits dest: runner_adds)



text \<open>
  An upstream outlives its process: one that ends by itself stays in the balancer until the worker is
  told to stop.
\<close>

lemma upstream_outlives_process:
  "\<exists>r. exec runner_act [RnTest, RnLifecheck True, RnExits None, RnWaited] (start_runner True False live) = Some r
    \<and> rn_result r = Some None \<and> rn_upstream r \<and> runner_act RnRemoves r = None"
  by (simp add: start_runner_def)

section \<open>Requests\<close>

record taskfetch =
  tf_Url :: string
  tf_Method :: string
  tf_Body :: string

definition validHttpMethods :: "string list" where
  "validHttpMethods = [''GET'', ''HEAD'', ''POST'', ''PUT'', ''DELETE'', ''CONNECT'', ''OPTIONS'', ''TRACE'', ''PATCH'']"

text \<open>The flag is \<open>err == nil\<close>.\<close>

definition fetch_UnmarshalInline :: "string \<Rightarrow> taskfetch \<Rightarrow> bool \<times> taskfetch" where
  "fetch_UnmarshalInline txt t =
     (case (case str_cut (CHR '' '') txt of
              (before, after, True) \<Rightarrow> (before \<in> set validHttpMethods, after, t\<lparr>tf_Method := before\<rparr>)
            | (_, _, False) \<Rightarrow> (True, txt, t)) of
        (ok, txt, t) \<Rightarrow>
          if \<not> ok then (False, t)
          else (case str_cut (CHR '' '') txt of
                  (before, after, True) \<Rightarrow> (True, t\<lparr>tf_Body := after, tf_Url := before\<rparr>)
                | (_, _, False) \<Rightarrow> (True, t\<lparr>tf_Url := txt\<rparr>)))"

datatype 'j fetch_value = FetchStatus nat | FetchBody 'j

text \<open>
  The exit of a fetch, and what it sets on the whiteboard: \<open>new_request\<close> is the error of a bad request,
  \<open>http\<close> the status and the body of the answer, both of which may fail.
\<close>

definition fetch_Launch :: "(string \<Rightarrow> string \<Rightarrow> string option \<Rightarrow> gerr option) \<Rightarrow> (string \<Rightarrow> string \<Rightarrow> string option \<Rightarrow> gerr + nat \<times> (gerr + string))
    \<Rightarrow> (string \<Rightarrow> gerr + 'j) \<Rightarrow> taskfetch \<Rightarrow> gerr option \<times> (string \<times> 'j fetch_value) list" where
  "fetch_Launch new_request http json t =
     (let body = (if tf_Body t = [] then None else Some (tf_Body t)) in
      case new_request (tf_Method t) (tf_Url t) body of
        Some e \<Rightarrow> (Some (NonRetriable (Some e)), [])
      | None \<Rightarrow>
          (case http (tf_Method t) (tf_Url t) body of
             Inl e \<Rightarrow> (Some e, [])
           | Inr (code, read) \<Rightarrow>
               let set = [(''status'', FetchStatus code)] in
               if code \<noteq> 200 then (None, set)
               else (case read of
                       Inl e \<Rightarrow> (Some e, set)
                     | Inr txt \<Rightarrow> (case json txt of Inl e \<Rightarrow> (Some e, set) | Inr j \<Rightarrow> (None, set @ [(''body'', FetchBody j)])))))"

text \<open>
  A fetch succeeds exactly when its request was answered with JSON, or with any status but 200: a
  server's error is a success, since the error returned there is the nil one of the request.
\<close>

theorem fetch_exit:
  "fst (fetch_Launch new_request http json t) = None \<longleftrightarrow>
     new_request (tf_Method t) (tf_Url t) (if tf_Body t = [] then None else Some (tf_Body t)) = None \<and>
     (\<exists>code read. http (tf_Method t) (tf_Url t) (if tf_Body t = [] then None else Some (tf_Body t)) = Inr (code, read) \<and>
        (code \<noteq> 200 \<or> (\<exists>txt j. read = Inr txt \<and> json txt = Inr j)))"
  by (auto simp: fetch_Launch_def Let_def split: option.splits sum.splits prod.splits if_splits)

section \<open>Clusters\<close>

text \<open>
  \<open>TaskRun.Launch\<close> for several instances: its loop (at its head, behind it, returned) and, of each
  instance it has started, the goroutine: before its select, in it, behind it with the result of its
  program, before the cancellation by the last one, and over. A single instance is a runner alone. The
  balancer is closed, once, when the result is known.
\<close>

datatype cl_g = ClStart | ClSel | ClEnd "gerr option" | ClLast | ClOver "gerr option option"

datatype cl_pc = ClLoop nat | ClJoin | ClRet "gerr option"

record cluster =
  cl_N :: nat
  cl_ctx :: ctx
  cl_left :: u32
  cl_gs :: "cl_g list"
  cl_pc :: cl_pc
  cl_proxy :: bool
  cl_proxy_closed :: nat

definition start_cluster :: "ctx \<Rightarrow> bool \<Rightarrow> nat \<Rightarrow> cluster" where
  "start_cluster parent proxy n =
     \<lparr>cl_N = n, cl_ctx = WithCancelOrOk parent, cl_left = of_nat n, cl_gs = [], cl_pc = ClLoop 0, cl_proxy = proxy,
      cl_proxy_closed = 0\<rparr>"

datatype cluster_ev =
    ClCheck
  | ClLaunch nat
  | ClPipeDone nat
  | ClRuns nat "gerr option"
  | ClDecide nat
  | ClCancelNil nat
  | ClDone
  | ClParent gerr

definition cl_at :: "cluster \<Rightarrow> nat \<Rightarrow> cl_g option" where
  "cl_at s k = (if k < length (cl_gs s) then Some (cl_gs s ! k) else None)"

definition cl_set :: "cluster \<Rightarrow> nat \<Rightarrow> cl_g \<Rightarrow> cluster" where
  "cl_set s k g = s\<lparr>cl_gs := (cl_gs s)[k := g]\<rparr>"

fun cluster_act :: "cluster_ev \<Rightarrow> cluster \<Rightarrow> cluster option" where
  "cluster_act ClCheck s =
     (case cl_pc s of
        ClLoop i \<Rightarrow>
          Some (if i < cl_N s \<and> cl_ctx s = live then s\<lparr>cl_gs := cl_gs s @ [ClStart], cl_pc := ClLoop (Suc i)\<rparr>
                else s\<lparr>cl_pc := ClJoin\<rparr>)
      | _ \<Rightarrow> None)"
| "cluster_act (ClLaunch k) s = (if cl_at s k = Some ClStart then Some (cl_set s k ClSel) else None)"
| "cluster_act (ClPipeDone k) s =
     (if cl_at s k = Some ClSel \<and> cl_ctx s \<noteq> live then Some (cl_set s k (ClOver None)) else None)"
| "cluster_act (ClRuns k err) s = (if cl_at s k = Some ClSel then Some (cl_set s k (ClEnd err)) else None)"
| "cluster_act (ClDecide k) s =
     (case cl_at s k of
        Some (ClEnd (Some e)) \<Rightarrow>
          Some ((cl_set s k (ClOver (Some (Some e))))\<lparr>cl_ctx := cancelOrOk_Cancel (cl_ctx s) (Some e)\<rparr>)
      | Some (ClEnd None) \<Rightarrow>
          let left = cl_left s - 1 in
          Some ((cl_set s k (if left = 0 then ClLast else ClOver (Some None)))\<lparr>cl_left := left\<rparr>)
      | _ \<Rightarrow> None)"
| "cluster_act (ClCancelNil k) s =
     (if cl_at s k = Some ClLast
      then Some ((cl_set s k (ClOver (Some None)))\<lparr>cl_ctx := cancelOrOk_Cancel (cl_ctx s) None\<rparr>) else None)"
| "cluster_act ClDone s =
     (if cl_pc s = ClJoin \<and> cl_ctx s \<noteq> live
      then Some (s\<lparr>cl_pc := ClRet (case Cause (cl_ctx s) of None \<Rightarrow> None | Some e \<Rightarrow> Some (NonRetriable (Some e))),
                   cl_proxy_closed := cl_proxy_closed s + of_bool (cl_proxy s)\<rparr>)
      else None)"
| "cluster_act (ClParent c) s = Some (s\<lparr>cl_ctx := cancel_cause (cl_ctx s) c\<rparr>)"

text \<open>The instances that ended well, and those whose error was reported.\<close>

definition ended_well :: "cl_g list \<Rightarrow> nat" where
  "ended_well gs = length (filter (\<lambda>g. g \<in> {ClLast, ClOver (Some None)}) gs)"

definition failed_with :: "cluster \<Rightarrow> gerr \<Rightarrow> bool" where
  "failed_with s e \<longleftrightarrow> ClOver (Some (Some e)) \<in> set (cl_gs s)"

definition cl_started :: "cluster \<Rightarrow> bool" where
  "cl_started s \<longleftrightarrow> length (cl_gs s) \<le> cl_N s \<and> (\<forall>i. cl_pc s = ClLoop i \<longrightarrow> length (cl_gs s) = i)"

definition cl_counts :: "cluster \<Rightarrow> bool" where
  "cl_counts s \<longleftrightarrow> cl_left s = of_nat (cl_N s - ended_well (cl_gs s)) \<and> (ClLast \<in> set (cl_gs s) \<longrightarrow> ended_well (cl_gs s) = cl_N s)"

definition cl_cause :: "gerr set \<Rightarrow> cluster \<Rightarrow> bool" where
  "cl_cause C s \<longleftrightarrow>
     (\<forall>c. cl_ctx s = Some c \<longrightarrow> c \<in> C \<or> failed_with s c \<or> (c = ErrOk \<and> ended_well (cl_gs s) = cl_N s)) \<and>
     (\<forall>e. failed_with s e \<longrightarrow> cl_ctx s \<noteq> live)"

definition cl_returns :: "cluster \<Rightarrow> bool" where
  "cl_returns s \<longleftrightarrow>
     (\<forall>r. cl_pc s = ClRet r \<longrightarrow> cl_ctx s \<noteq> live \<and>
        r = (case Cause (cl_ctx s) of None \<Rightarrow> None | Some e \<Rightarrow> Some (NonRetriable (Some e)))) \<and>
     cl_proxy_closed s = (case cl_pc s of ClRet r \<Rightarrow> of_bool (cl_proxy s) | _ \<Rightarrow> 0)"

definition cluster_inv :: "gerr set \<Rightarrow> cluster \<Rightarrow> bool" where
  "cluster_inv C s \<longleftrightarrow> cl_N s < 2 ^ 32 \<and> cl_started s \<and> cl_counts s \<and> cl_cause C s \<and> cl_returns s"

lemma ended_well_update:
  "k < length gs \<Longrightarrow> gs ! k \<notin> {ClLast, ClOver (Some None)} \<Longrightarrow>
   ended_well (gs[k := g]) = ended_well gs + of_bool (g \<in> {ClLast, ClOver (Some None)})"
  unfolding ended_well_def
proof (induction gs arbitrary: k)
  case (Cons h gs)
  then show ?case by (cases k) auto
qed simp

lemma ended_well_last: "k < length gs \<Longrightarrow> gs ! k = ClLast \<Longrightarrow> ended_well (gs[k := ClOver (Some None)]) = ended_well gs"
  unfolding ended_well_def
proof (induction gs arbitrary: k)
  case (Cons h gs)
  then show ?case by (cases k) auto
qed simp

lemma ended_well_less: "k < length gs \<Longrightarrow> gs ! k \<notin> {ClLast, ClOver (Some None)} \<Longrightarrow> ended_well gs < length gs"
  unfolding ended_well_def by (rule length_filter_less [of "gs ! k"]) auto

lemma ended_well_snoc [simp]: "ended_well (gs @ [ClStart]) = ended_well gs"
  by (simp add: ended_well_def)

lemma cl_at_Some [simp]: "cl_at s k = Some g \<longleftrightarrow> k < length (cl_gs s) \<and> cl_gs s ! k = g"
  by (auto simp: cl_at_def)

lemma cluster_started: "cluster_act ev s = Some s' \<Longrightarrow> cl_started s \<Longrightarrow> cl_started s'"
  by (cases ev) (auto simp: cl_started_def cl_set_def Let_def split: if_splits cl_pc.splits option.splits cl_g.splits)

lemma u32_zero: "m < 2 ^ 32 \<Longrightarrow> (of_nat m :: u32) = 0 \<longleftrightarrow> m = 0"
  by (simp add: word_unat_eq_iff unat_of_nat)

lemma last_update: "ClLast \<in> set (gs[k := g]) \<Longrightarrow> g \<noteq> ClLast \<Longrightarrow> ClLast \<in> set gs"
  using set_update_subset_insert [of gs k g] by auto

lemma cluster_step_counts:
  assumes "k < length (cl_gs s)" and "cl_gs s ! k \<notin> {ClLast, ClOver (Some None)}" and "g \<notin> {ClLast, ClOver (Some None)}"
    and "cl_counts s"
  shows "cl_counts ((cl_set s k g)\<lparr>cl_ctx := c\<rparr>)" and "cl_counts (cl_set s k g)"
  using assms ended_well_update [OF assms(1,2), of g] last_update [of "cl_gs s" k g]
  by (auto simp: cl_counts_def cl_set_def)

lemma cluster_decide_counts:
  assumes "k < length (cl_gs s)" and "cl_gs s ! k = ClEnd None" and "cl_N s < 2 ^ 32" and "cl_started s" and "cl_counts s"
  shows "cl_counts ((cl_set s k (if cl_left s - 1 = 0 then ClLast else ClOver (Some None)))\<lparr>cl_left := cl_left s - 1\<rparr>)"
    and "cl_left s - 1 = 0 \<Longrightarrow> Suc (ended_well (cl_gs s)) = cl_N s"
proof -
  let ?w = "ended_well (cl_gs s)"
  have w: "?w < cl_N s" using ended_well_less [of k "cl_gs s"] assms(1,2,4) by (simp add: cl_started_def)
  have l: "cl_left s - 1 = of_nat (cl_N s - Suc ?w)"
    using assms(5) w by (simp add: cl_counts_def of_nat_diff algebra_simps)
  have z: "cl_left s - 1 = 0 \<longleftrightarrow> cl_N s - Suc ?w = 0"
    unfolding l using assms(3) by (intro u32_zero) simp
  then show "cl_left s - 1 = 0 \<Longrightarrow> Suc ?w = cl_N s" using w by simp
  have e: "ended_well ((cl_gs s)[k := g]) = Suc ?w" if "g \<in> {ClLast, ClOver (Some None)}" for g
    using ended_well_update [of k "cl_gs s" g] assms(1,2) that by auto
  have nl: "ClLast \<notin> set (cl_gs s)" using assms(5) w by (auto simp: cl_counts_def)
  show "cl_counts ((cl_set s k (if cl_left s - 1 = 0 then ClLast else ClOver (Some None)))\<lparr>cl_left := cl_left s - 1\<rparr>)"
  proof (cases "cl_left s - 1 = 0")
    case True
    then have "Suc ?w = cl_N s" using z w by simp
    then show ?thesis unfolding True by (simp add: cl_counts_def cl_set_def e)
  next
    case False
    have "ClLast \<notin> set ((cl_gs s)[k := ClOver (Some None)])" using nl last_update [of "cl_gs s" k "ClOver (Some None)"] by auto
    with False show ?thesis by (simp add: cl_counts_def cl_set_def e l del: of_nat_diff)
  qed
qed

lemma cluster_counts:
  assumes "cluster_act ev s = Some s'" and "cl_N s < 2 ^ 32" and "cl_started s" and "cl_counts s"
  shows "cl_counts s'"
proof (cases ev)
  case ClCheck
  then show ?thesis using assms(1,4) by (auto simp: cl_counts_def split: cl_pc.splits if_splits)
next
  case (ClDecide k)
  then obtain err where k: "k < length (cl_gs s)" "cl_gs s ! k = ClEnd err" using assms(1) by (auto split: option.splits cl_g.splits)
  show ?thesis
  proof (cases err)
    case None
    have "s' = (cl_set s k (if cl_left s - 1 = 0 then ClLast else ClOver (Some None)))\<lparr>cl_left := cl_left s - 1\<rparr>"
      using assms(1) ClDecide k None by (simp add: cl_at_def Let_def)
    with cluster_decide_counts(1) [OF k(1) _ assms(2,3,4)] k(2) None show ?thesis by simp
  next
    case (Some e)
    then show ?thesis using assms(1,4) ClDecide k cluster_step_counts(1) [of k s "ClOver (Some (Some e))"] by (auto simp: cl_at_def)
  qed
next
  case (ClCancelNil k)
  then have k: "k < length (cl_gs s)" "cl_gs s ! k = ClLast" using assms(1) by (auto split: if_splits)
  then have "ClLast \<in> set (cl_gs s)" using nth_mem by force
  then show ?thesis
    using assms(1,4) k ended_well_last [OF k] ClCancelNil by (auto simp: cl_counts_def cl_set_def)
next
  case ClDone
  then show ?thesis using assms(1,4) by (auto simp: cl_counts_def split: if_splits)
qed (use assms(1,4) cluster_step_counts(2) [of _ s] in \<open>auto simp: cl_counts_def split: if_splits\<close>)

lemma failed_update:
  assumes "k < length (cl_gs s)" and "\<And>r. cl_gs s ! k \<noteq> ClOver r"
  shows "failed_with (cl_set s k g) e \<longleftrightarrow> failed_with s e \<or> g = ClOver (Some (Some e))"
proof -
  have "set ((cl_gs s)[k := g]) = insert g {cl_gs s ! j |j. j < length (cl_gs s) \<and> j \<noteq> k}"
    "set (cl_gs s) = insert (cl_gs s ! k) {cl_gs s ! j |j. j < length (cl_gs s) \<and> j \<noteq> k}"
    using assms(1) by (auto simp: set_conv_nth nth_list_update)
  then show ?thesis using assms(2) [of "Some (Some e)"] unfolding failed_with_def cl_set_def by (metis (no_types, lifting) cluster.select_convs(4) cluster.surjective cluster.update_convs(4) insert_iff)
qed

lemma failed_ctx [simp]:
  "failed_with (s\<lparr>cl_ctx := c\<rparr>) e = failed_with s e" "failed_with (s\<lparr>cl_left := l\<rparr>) e = failed_with s e"
  by (simp_all add: failed_with_def)

text \<open>A step that leaves the counts and the errors, and one after which the context has a good cause.\<close>

lemma cl_cause_same:
  assumes "cl_cause C s" and "cl_ctx s' = cl_ctx s" and "\<And>e. failed_with s' e = failed_with s e"
    and "ended_well (cl_gs s') = ended_well (cl_gs s) \<or> ended_well (cl_gs s) < cl_N s" and "cl_N s' = cl_N s"
  shows "cl_cause C s'"
  using assms unfolding cl_cause_def by (metis order_less_irrefl)

lemma cl_cause_cancel:
  assumes "cl_cause C s" and "cl_ctx s' = cancel_cause (cl_ctx s) c" and "\<And>e. failed_with s e \<Longrightarrow> failed_with s' e"
    and "c \<in> C \<or> failed_with s' c \<or> c = ErrOk \<and> ended_well (cl_gs s') = cl_N s'"
    and "ended_well (cl_gs s') = ended_well (cl_gs s)" and "cl_N s' = cl_N s"
  shows "cl_cause C s'"
  using assms unfolding cl_cause_def cancel_cause_def by (cases "cl_ctx s") auto

lemma cluster_cause:
  assumes "cluster_act ev s = Some s'" and "cl_N s < 2 ^ 32" and "cl_started s" and "cl_counts s" and "cl_cause C s"
    and "\<And>c. ev = ClParent c \<Longrightarrow> c \<in> C"
  shows "cl_cause C s'"
proof (cases ev)
  case ClCheck
  then show ?thesis using assms(1) by (intro cl_cause_same [OF assms(5)]) (auto simp: failed_with_def split: cl_pc.splits if_splits)
next
  case (ClDecide k)
  then obtain err where k: "k < length (cl_gs s)" "cl_gs s ! k = ClEnd err" using assms(1) by (auto split: option.splits cl_g.splits)
  have w: "ended_well (cl_gs s) < cl_N s" using ended_well_less [of k "cl_gs s"] k assms(3) by (simp add: cl_started_def)
  show ?thesis
  proof (cases err)
    case None
    then have "s' = (cl_set s k (if cl_left s - 1 = 0 then ClLast else ClOver (Some None)))\<lparr>cl_left := cl_left s - 1\<rparr>"
      using assms(1) ClDecide k by (simp add: cl_at_def Let_def)
    then show ?thesis using k w failed_update [of k s]
      by (intro cl_cause_same [OF assms(5)]) (auto simp: cl_set_def)
  next
    case (Some e)
    then have "s' = (cl_set s k (ClOver (Some (Some e))))\<lparr>cl_ctx := cancelOrOk_Cancel (cl_ctx s) (Some e)\<rparr>"
      using assms(1) ClDecide k by (simp add: cl_at_def)
    then show ?thesis
      using k failed_update [of k s] ended_well_update [of k "cl_gs s" "ClOver (Some (Some e))"]
      by (intro cl_cause_cancel [OF assms(5), of _ e]) (auto simp: cl_set_def cancelOrOk_Cancel_def)
  qed
next
  case (ClCancelNil k)
  then have k: "k < length (cl_gs s)" "cl_gs s ! k = ClLast"
    and s': "s' = (cl_set s k (ClOver (Some None)))\<lparr>cl_ctx := cancelOrOk_Cancel (cl_ctx s) None\<rparr>"
    using assms(1) by (auto split: if_splits)
  then have "ended_well (cl_gs s) = cl_N s" using assms(4) nth_mem [of k "cl_gs s"] by (simp add: cl_counts_def)
  then show ?thesis
    using k s' failed_update [of k s] ended_well_last [of k "cl_gs s"]
    by (intro cl_cause_cancel [OF assms(5), of _ ErrOk]) (auto simp: cl_set_def cancelOrOk_Cancel_def)
next
  case (ClParent c)
  then show ?thesis using assms(1,6) by (intro cl_cause_cancel [OF assms(5), of _ c]) auto
next
  case ClDone
  then show ?thesis using assms(1) by (intro cl_cause_same [OF assms(5)]) (auto simp: failed_with_def split: if_splits)
qed (use assms(1) in \<open>intro cl_cause_same [OF assms(5)];
      auto simp: failed_update ended_well_update split: if_splits; simp add: cl_set_def ended_well_update\<close>)+

lemma cluster_returns:
  assumes "cluster_act ev s = Some s'" and "cl_returns s"
  shows "cl_returns s'"
  using assms
  by (cases ev) (auto simp: cl_returns_def cl_set_def cancelOrOk_Cancel_def cancel_cause_def Let_def
      split: if_splits cl_pc.splits option.splits cl_g.splits)

lemma cluster_N: "cluster_act ev s = Some s' \<Longrightarrow> cl_N s' = cl_N s"
  by (cases ev) (auto simp: cl_set_def Let_def split: if_splits cl_pc.splits option.splits cl_g.splits)

definition parent_among :: "gerr set \<Rightarrow> cluster_ev \<Rightarrow> bool" where
  "parent_among C ev \<longleftrightarrow> (\<forall>c. ev = ClParent c \<longrightarrow> c \<in> C)"

interpretation cluster: guarded_system cluster_act "parent_among C" "cluster_inv C" for C
  by unfold_locales
    (auto simp: cluster_inv_def parent_among_def cluster_N dest: cluster_started cluster_counts cluster_cause cluster_returns)

lemma cluster_start_inv: "n < 2 ^ 32 \<Longrightarrow> set_option parent \<subseteq> C \<Longrightarrow> cluster_inv C (start_cluster parent proxy n)"
  by (auto simp: cluster_inv_def start_cluster_def cl_started_def cl_counts_def cl_cause_def cl_returns_def failed_with_def
      ended_well_def WithCancelOrOk_def)



section \<open>The launch of a program\<close>

text \<open>\<open>TaskRun.Launch\<close>: one process or a cluster, in front of it a balancer when the task asks for one.\<close>

datatype run_plan = OneProcess runner | ManyProcesses cluster

definition run_Launch :: "bool \<Rightarrow> ctx \<Rightarrow> taskrun \<Rightarrow> run_plan" where
  "run_Launch windows c t =
     (let proxy = (tr_Proxy t \<noteq> None) in
      if tr_N t \<le> 1 then OneProcess (start_runner proxy windows c)
      else ManyProcesses (start_cluster c proxy (nat (tr_N t))))"

text \<open>The worker is killed when its balancer cannot listen, unless it is over already.\<close>

definition proxy_kills :: "gerr option \<Rightarrow> ctx \<Rightarrow> bool" where
  "proxy_kills listen_err c \<longleftrightarrow> listen_err \<noteq> None \<and> c = live"

text \<open>
  \<open>processRunner.Launch\<close> up to its goroutines: the command with its environment, started or not; \<open>start\<close>
  is what \<open>cmd.Start\<close> says of the command in its directory, and \<open>adr\<close> a new address for the program to
  serve on when it stands behind a balancer.
\<close>

datatype launched = LaunchPanics | LaunchFails gerr | Launched "(string \<times> string) list" runner

definition runner_Launch :: "(string \<Rightarrow> string list \<Rightarrow> 'c) \<Rightarrow> (string \<Rightarrow> (string \<Rightarrow> string list \<Rightarrow> (gerr + 'c)) option)
    \<Rightarrow> ('c \<Rightarrow> string \<Rightarrow> (string \<times> string) list \<Rightarrow> gerr option) \<Rightarrow> (string \<times> string) list \<Rightarrow> string \<Rightarrow> nat \<Rightarrow> string \<Rightarrow> string
    \<Rightarrow> bool \<Rightarrow> ctx \<Rightarrow> taskrun \<Rightarrow> launched" where
  "runner_Launch exec_cmd Languages start environ ns n local adr windows c t =
     (case run_command exec_cmd Languages t of
        CmdPanic \<Rightarrow> LaunchPanics
      | CmdErr e \<Rightarrow> LaunchFails e
      | CmdOk cmd \<Rightarrow>
          let lb = (tr_Proxy t \<noteq> None);
              env = run_env environ ns n local (if lb then Some adr else None) t
          in (case start cmd (tr_Cwd t) env of Some e \<Rightarrow> LaunchFails e | None \<Rightarrow> Launched env (start_runner lb windows c)))"

text \<open>A program is told its address exactly when its runner waits for it to serve there.\<close>

lemma launched_knows_address:
  assumes "runner_Launch exec_cmd Languages start environ ns n local adr windows c t = Launched env r"
  shows "if rn_lb r then rn_pc r = RnHead \<and> last env = (''GOSU_SERVE'', adr)
    else rn_pc r = RnRet ChanResult \<and> last env = (''GOSU_LOCAL'', local)"
  using assms by (auto simp: runner_Launch_def start_runner_def run_env_def Let_def split: run_cmd.splits option.splits)

end
