(* ===== verification/TaskRegistry.thy ===== *)
theory TaskRegistry
  imports Pipe Registry RunTask
begin

text \<open>
  The registry of tasks: what \<open>pkg/task/task_pipe.go\<close>, \<open>task_run.go\<close>, \<open>task_fetch.go\<close> and
  \<open>task_noop.go\<close> define in their \<open>init\<close>, and the array form of a pipe. A mode that is a nil interface
  is \<open>None\<close>, and reading its name is a panic. How JSON is read into a task, and the elements of an
  array, are the parameters \<open>json\<close> and \<open>list_of\<close>.
\<close>

datatype rtask =
    RtNoop
  | RtWait duration
  | RtRun taskrun
  | RtFetch taskfetch
  | RtPipe "PipeMode option" "(rtask option \<times> ident) list"

definition kind_id :: "string \<Rightarrow> ident" where
  "kind_id k = no_id\<lparr>id_Kind := k\<rparr>"

fun task_inline :: "(string \<Rightarrow> duration option) \<Rightarrow> string \<Rightarrow> rtask \<Rightarrow> bool \<times> rtask" where
  "task_inline ParseDuration txt (RtWait d) =
     (case ParseDuration txt of None \<Rightarrow> (False, RtWait 0) | Some d \<Rightarrow> (True, RtWait d))"
| "task_inline ParseDuration txt (RtRun t) = (True, RtRun (run_UnmarshalInline txt t))"
| "task_inline ParseDuration txt (RtFetch t) = map_prod id RtFetch (fetch_UnmarshalInline txt t)"
| "task_inline ParseDuration txt t = (False, t)"

fun reads_inline :: "rtask \<Rightarrow> bool" where
  "reads_inline RtNoop = False"
| "reads_inline (RtPipe m ts) = False"
| "reads_inline t = True"

fun run_defaults :: "string \<Rightarrow> rtask \<Rightarrow> rtask" where
  "run_defaults getwd (RtRun t) = RtRun (run_WithDefaults getwd t)"
| "run_defaults getwd t = t"

definition task_kind :: "(string \<Rightarrow> duration option) \<Rightarrow> string \<Rightarrow> (string \<Rightarrow> rtask \<Rightarrow> rtask option) \<Rightarrow> rtask \<Rightarrow> rtask kind_def" where
  "task_kind ParseDuration getwd json t =
     \<lparr>k_defaults = t,
      k_inline = (if reads_inline t then Some (task_inline ParseDuration) else None),
      k_json = json,
      k_defaultsID = None,
      k_withDefaults = Some (run_defaults getwd)\<rparr>"

text \<open>An array: its first element, a pipe without subtasks, may choose the mode of the others.\<close>

definition array_mode :: "(rtask option \<times> ident) list \<Rightarrow> PipeMode option \<times> (rtask option \<times> ident) list" where
  "array_mode tmp =
     (case fst (hd tmp) of Some (RtPipe m []) \<Rightarrow> (m, tl tmp) | _ \<Rightarrow> (Some PipeParallel, tmp))"

definition task_array :: "(string \<Rightarrow> (rtask option \<times> ident) list option) \<Rightarrow> string \<Rightarrow> rtask holder \<Rightarrow> reg_err + rtask holder" where
  "task_array list_of data val =
     (case list_of data of
        None \<Rightarrow> Inl BadJson
      | Some tmp \<Rightarrow>
          if tmp = [] then Inr (Some RtNoop, kind_id ''noop'')
          else (case array_mode tmp of
                  (None, _) \<Rightarrow> Inl NilPointer
                | (Some m, ts) \<Rightarrow> Inr (Some (RtPipe (Some m) ts), kind_id (PipeMode_String m))))"

definition zero_run :: taskrun where
  "zero_run = \<lparr>tr_Foreign = [], tr_Exec = [], tr_Args = [], tr_Cwd = [], tr_Env = [], tr_N = 0, tr_Proxy = None\<rparr>"

definition zero_fetch :: taskfetch where
  "zero_fetch = \<lparr>tf_Url = [], tf_Method = [], tf_Body = []\<rparr>"

definition define_modes :: "(rtask \<Rightarrow> rtask kind_def) \<Rightarrow> rtask registry \<Rightarrow> rtask registry" where
  "define_modes k r = fold (\<lambda>m r. Define r (PipeMode_String m) (k (RtPipe (Some m) []))) PipeModes r"

definition define_languages :: "(rtask \<Rightarrow> rtask kind_def) \<Rightarrow> string list \<Rightarrow> rtask registry \<Rightarrow> rtask registry" where
  "define_languages k langs r = fold (\<lambda>lang r. Define r lang (k (RtRun (zero_run\<lparr>tr_Foreign := lang\<rparr>)))) langs r"

definition TaskRegistry :: "(string \<Rightarrow> duration option) \<Rightarrow> string \<Rightarrow> string list \<Rightarrow> (string \<Rightarrow> rtask \<Rightarrow> rtask option)
    \<Rightarrow> (string \<Rightarrow> (rtask option \<times> ident) list option) \<Rightarrow> rtask registry" where
  "TaskRegistry ParseDuration getwd langs json list_of =
     (let k = task_kind ParseDuration getwd json;
          r = Define NewRegistry ''fetch'' (k (RtFetch zero_fetch));
          r = Define (Define r ''wait'' (k (RtWait 0))) ''noop'' (k RtNoop);
          r = define_modes k (Define r ''pipe'' (k (RtPipe None [])));
          r = RegisterNonObject r (CHR ''['') (task_array list_of);
          r = Define r ''run'' (k (RtRun zero_run))
      in define_languages k langs r)"

section \<open>Arrays and objects\<close>

lemma languages_keep:
  "rg_nonObject (define_languages k langs r) = rg_nonObject r"
  "kind \<notin> set langs \<Longrightarrow> rg_kinds (define_languages k langs r) kind = rg_kinds r kind"
  by (induction langs arbitrary: r) (auto simp: define_languages_def Define_def)

lemma registered_array: "rg_nonObject (TaskRegistry pd wd langs json list_of) (CHR ''['') = Some (task_array list_of)"
  by (simp add: TaskRegistry_def Let_def languages_keep RegisterNonObject_def Define_def)

lemma registered_mode:
  assumes "PipeMode_String m \<notin> set langs"
  shows "rg_kinds (TaskRegistry pd wd langs json list_of) (PipeMode_String m) = Some (task_kind pd wd json (RtPipe (Some m) []))"
  using assms
  by (cases m) (simp_all add: TaskRegistry_def Let_def languages_keep RegisterNonObject_def Define_def define_modes_def PipeModes_def)

lemma mode_ident: "id_UnmarshalText (PipeMode_String m) no_id = kind_id (PipeMode_String m)"
  by (cases m) (simp_all add: id_UnmarshalText_def kind_id_def no_id_def TrimSpace_def)

lemma skip_no_space: "hd x \<in> {CHR ''['', CHR ''{''} \<Longrightarrow> x \<noteq> [] \<Longrightarrow> skip_leading x = x"
  by (cases x) (auto simp: skip_leading_def)

text \<open>
  A pipe read from an array, of the mode its first element chooses or parallel, is stored under the
  name of its mode and is read back as the same pipe, when JSON gives back the subtasks it printed.
\<close>

theorem array_pipe_roundtrip:
  assumes "hd data = CHR ''[''" and "data \<noteq> []" and "list_of data = Some tmp" and "tmp \<noteq> []"
    and mode: "array_mode tmp = (Some m, ts)" "PipeMode_String m \<notin> set langs"
    and print: "\<And>b. js_object js (print_object [(PipeMode_String m, b)]) = Some [(PipeMode_String m, b)]"
      "\<And>b. hd (print_object [(PipeMode_String m, b)]) = CHR ''{'' \<and> print_object [(PipeMode_String m, b)] \<noteq> []"
    and json: "json (print (Some (RtPipe (Some m) ts))) (RtPipe (Some m) []) = Some (RtPipe (Some m) ts)"
  shows "let R = TaskRegistry pd wd langs json list_of; pipe = (Some (RtPipe (Some m) ts), kind_id (PipeMode_String m)) in
    reg_Unmarshal env js load R data val = Inr pipe \<and>
    reg_Unmarshal env js load R (reg_Marshal print_object print pipe) val' = Inr pipe"
proof -
  let ?R = "TaskRegistry pd wd langs json list_of" and ?k = "task_kind pd wd json (RtPipe (Some m) [])"
  let ?i = "kind_id (PipeMode_String m)"
  have "reg_Unmarshal env js load ?R data val = Inr (Some (RtPipe (Some m) ts), ?i)"
    using assms(1-4) mode
    by (simp add: reg_Unmarshal_def skip_no_space non_object_def registered_array task_array_def)
  moreover have "id_String ?i = PipeMode_String m" by (simp add: id_String_def kind_id_def no_id_def)
  moreover have "factory env js ?k ?i (print (Some (RtPipe (Some m) ts))) = Inr (RtPipe (Some m) ts)"
    using json by (simp add: factory_def inline_args_def message_with_args_def task_kind_def kind_id_def no_id_def finish_value_def)
  moreover have "rg_kinds ?R (PipeMode_String m) = Some ?k" by (rule registered_mode [OF mode(2)])
  ultimately show ?thesis
    using print by (simp add: Let_def reg_Marshal_def reg_Unmarshal_def skip_no_space mode_ident kind_id_def)
qed

lemma array_pipe_roundtrip_witness:
  "let R = TaskRegistry (\<lambda>_. None) [] [''js''] (\<lambda>_ _. Some (RtPipe (Some PipeRace) [(Some RtNoop, kind_id ''noop'')]))
         (\<lambda>_. Some [(Some (RtPipe (Some PipeRace) []), kind_id ''race''), (Some RtNoop, kind_id ''noop'')]);
       pipe = (Some (RtPipe (Some PipeRace) [(Some RtNoop, kind_id ''noop'')]), kind_id (PipeMode_String PipeRace)) in
    reg_Unmarshal sample_env (sample_js\<lparr>js_object := (\<lambda>s. Some [(''race'', drop 5 s)])\<rparr>) (\<lambda>_. Inr) R ''[race, noop]'' (None, no_id) = Inr pipe \<and>
    reg_Unmarshal sample_env (sample_js\<lparr>js_object := (\<lambda>s. Some [(''race'', drop 5 s)])\<rparr>) (\<lambda>_. Inr) R
      (reg_Marshal (\<lambda>fs. CHR ''{'' # fst (hd fs) @ snd (hd fs)) (\<lambda>_. []) pipe) (None, no_id) = Inr pipe"
  by (rule array_pipe_roundtrip
        [where tmp = "[(Some (RtPipe (Some PipeRace) []), kind_id ''race''), (Some RtNoop, kind_id ''noop'')]"])
    (simp_all add: array_mode_def)

text \<open>An array whose first element is the word \<open>pipe\<close> has no mode: its name is read through nil.\<close>

lemma pipe_word_first_panics:
  assumes "list_of data = Some ((Some (RtPipe None []), i) # ts)"
  shows "task_array list_of data val = Inl NilPointer"
  using assms by (simp add: task_array_def array_mode_def)

end
