(* ===== verification/Config.thy ===== *)
theory Config
  imports ArgReader "HOL-Library.Word"
begin

unbundle bit_operations_syntax

text \<open>
  The small stores around the daemon: \<open>pkg/settings/settings.go\<close> (a value kept in a file and in
  memory), \<open>pkg/ipc/address.go\<close> (names and addresses of pipes) and \<open>pkg/util/rng.go\<close>. The file, the
  JSON printer and reader and the system's source of random bytes are parameters.
\<close>

section \<open>Settings\<close>

text \<open>
  The pointer \<open>last\<close> is \<open>st_last\<close>; reading JSON may also give a nil pointer, for the text \<open>null\<close>,
  which is the value \<open>Some None\<close> of \<open>decode\<close>. The file is \<open>None\<close> when it cannot be read, and
  \<open>st_writable\<close> says whether it can be written.
\<close>

record 'a storage =
  st_file :: "string option"
  st_writable :: bool
  st_defaults :: 'a
  st_last :: "'a option"

record 'a settings_codec =
  sc_encode :: "'a \<Rightarrow> string option"
  sc_decode :: "string \<Rightarrow> 'a option option"

datatype settings_err = MarshalErr | WriteErr | ReadErr | UnmarshalErr

definition mk_Settings :: "'a \<Rightarrow> string option \<Rightarrow> bool \<Rightarrow> 'a storage" where
  "mk_Settings defaults file writable = \<lparr>st_file = file, st_writable = writable, st_defaults = defaults, st_last = None\<rparr>"

definition saveLocked :: "'a settings_codec \<Rightarrow> 'a \<Rightarrow> 'a storage \<Rightarrow> settings_err option \<times> 'a storage" where
  "saveLocked C val c =
     (case sc_encode C val of
        None \<Rightarrow> (Some MarshalErr, c)
      | Some res \<Rightarrow>
          if st_writable c then (None, c\<lparr>st_file := Some res, st_last := Some val\<rparr>) else (Some WriteErr, c))"

definition reloadLocked :: "'a settings_codec \<Rightarrow> 'a storage \<Rightarrow> 'a option \<times> settings_err option \<times> 'a storage" where
  "reloadLocked C c =
     (let read = (case st_file c of
                    None \<Rightarrow> Inl ReadErr
                  | Some data \<Rightarrow> (case sc_decode C data of None \<Rightarrow> Inl UnmarshalErr | Some result \<Rightarrow> Inr result))
      in case read of
           Inr result \<Rightarrow> (result, None, c\<lparr>st_last := result\<rparr>)
         | Inl e \<Rightarrow> (Some (st_defaults c), Some e, snd (saveLocked C (st_defaults c) c)))"

definition st_Save :: "'a settings_codec \<Rightarrow> 'a \<Rightarrow> 'a storage \<Rightarrow> settings_err option \<times> 'a storage" where
  "st_Save C val c = saveLocked C val c"

definition st_Reload :: "'a settings_codec \<Rightarrow> 'a storage \<Rightarrow> 'a option \<times> settings_err option \<times> 'a storage" where
  "st_Reload C c = reloadLocked C c"

definition st_Get :: "'a settings_codec \<Rightarrow> 'a storage \<Rightarrow> 'a option \<times> 'a storage" where
  "st_Get C c =
     (case st_last c of
        Some v \<Rightarrow> (Some v, c)
      | None \<Rightarrow> (case reloadLocked C c of (res, _, c') \<Rightarrow> (res, c')))"

text \<open>A restart of the program: the file stays, the memory is lost.\<close>

definition st_restart :: "'a storage \<Rightarrow> 'a storage" where
  "st_restart c = c\<lparr>st_last := None\<rparr>"

text \<open>
  What \<open>Save\<close> reported as saved is what \<open>Get\<close> returns, now and after a restart; and from the
  second \<open>Get\<close> on, \<open>Get\<close> changes nothing.
\<close>

theorem saved_settings_survive:
  assumes "\<And>x t. sc_encode C x = Some t \<Longrightarrow> sc_decode C t = Some (Some x)"
    and "st_Save C v c = (None, c')"
  shows "fst (st_Get C c') = Some v \<and> fst (st_Get C (st_restart c')) = Some v
    \<and> snd (st_Get C (snd (st_Get C (st_restart c')))) = snd (st_Get C (st_restart c'))"
proof -
  obtain t where "sc_encode C v = Some t" and c': "c' = c\<lparr>st_file := Some t, st_last := Some v\<rparr>"
    using assms(2) by (auto simp: st_Save_def saveLocked_def split: option.splits if_splits)
  then have "sc_decode C t = Some (Some v)" using assms(1) by blast
  then show ?thesis by (simp add: c' st_Get_def st_restart_def reloadLocked_def)
qed

definition unary_codec :: "nat settings_codec" where
  "unary_codec = \<lparr>sc_encode = (\<lambda>n. Some (replicate n CHR ''1'')),
     sc_decode = (\<lambda>t. if list_all (\<lambda>c. c = CHR ''1'') t then Some (Some (length t)) else None)\<rparr>"

lemma saved_settings_survive_witness:
  "let c' = snd (st_Save unary_codec 3 (mk_Settings 1 None True)) in
     fst (st_Get unary_codec c') = Some 3 \<and> fst (st_Get unary_codec (st_restart c')) = Some 3
     \<and> snd (st_Get unary_codec (snd (st_Get unary_codec (st_restart c')))) = snd (st_Get unary_codec (st_restart c'))"
  unfolding Let_def
  by (rule saved_settings_survive [where c = "mk_Settings 1 None True"])
    (auto simp: unary_codec_def st_Save_def saveLocked_def mk_Settings_def list_all_iff)

text \<open>
  A file that cannot be read, or whose text is no JSON of the settings, is overwritten with the
  defaults: the secret and the seed in it are gone. The text \<open>null\<close> is accepted as a nil pointer.
\<close>

lemma corrupt_settings_overwritten:
  assumes "st_file c = Some data" and "sc_decode C data = None" and "sc_encode C (st_defaults c) = Some t" and "st_writable c"
  shows "st_Reload C c = (Some (st_defaults c), Some UnmarshalErr, c\<lparr>st_file := Some t, st_last := Some (st_defaults c)\<rparr>)"
  using assms by (simp add: st_Reload_def reloadLocked_def saveLocked_def)

lemma null_settings_are_nil:
  assumes "st_file c = Some ''null''" and "sc_decode C ''null'' = Some None" and "st_last c = None"
  shows "st_Get C c = (None, c)"
  using assms by (simp add: st_Get_def reloadLocked_def)

section \<open>Addresses of pipes\<close>

definition ipc_prefix :: "bool \<Rightarrow> string" where
  "ipc_prefix windows =
     (if windows then [CHR 0x5C, CHR 0x5C, CHR ''.'', CHR 0x5C] @ ''pipe'' @ CHR 0x5C # ''gosu-'' else ''/tmp/gosu-'')"

definition ipc_suffix :: "bool \<Rightarrow> string" where
  "ipc_suffix windows = (if windows then '''' else ''.sock'')"

definition FromAddress :: "bool \<Rightarrow> string \<Rightarrow> string option" where
  "FromAddress w adr =
     (if \<not> HasPrefix adr (ipc_prefix w) \<or> \<not> HasSuffix adr (ipc_suffix w) then None
      else Some (drop (length (ipc_prefix w)) (take (length adr - length (ipc_suffix w)) adr)))"

text \<open>Without a name, \<open>base32\<close> writes twelve random bytes.\<close>

definition NewAddress :: "bool \<Rightarrow> ('b list \<Rightarrow> string) \<Rightarrow> 'b list \<Rightarrow> string \<Rightarrow> string" where
  "NewAddress w base32 rnd name =
     ipc_prefix w @ (if name = [] then ToLower (base32 rnd) else name) @ ipc_suffix w"

definition escape_name :: "string \<Rightarrow> string" where
  "escape_name name =
     concat (map (\<lambda>c. if \<not> TestRune RunesAlphanum c then ''xU'' @ FormatInt (int (of_char c)) 16 else [c]) name)"

definition NewAddressEscape :: "bool \<Rightarrow> ('b list \<Rightarrow> string) \<Rightarrow> 'b list \<Rightarrow> string \<Rightarrow> string" where
  "NewAddressEscape w base32 rnd name = NewAddress w base32 rnd (escape_name name)"

text \<open>The slice of \<open>FromAddress\<close> is in range: the prefix and the suffix cannot overlap.\<close>

lemma prefix_and_suffix_disjoint:
  assumes "HasPrefix adr (ipc_prefix w)" and "HasSuffix adr (ipc_suffix w)"
  obtains name where "adr = ipc_prefix w @ name @ ipc_suffix w"
proof -
  obtain x where x: "adr = ipc_prefix w @ x" using assms(1) unfolding HasPrefix_def prefix_def by blast
  obtain y where y: "adr = y @ ipc_suffix w" using assms(2) unfolding HasSuffix_def suffix_def by blast
  note xy = x y
  then consider us where "ipc_prefix w = y @ us" "us @ x = ipc_suffix w" | us where "x = us @ ipc_suffix w"
    using append_eq_append_conv2 [of "ipc_prefix w" x y "ipc_suffix w"] by auto
  then show thesis
  proof cases
    case 1
    have "us = []"
    proof (rule ccontr)
      assume "us \<noteq> []"
      then have "hd us \<in> set (ipc_prefix w)" "hd us = hd (ipc_suffix w)" "ipc_suffix w \<noteq> []"
        using 1 by (auto simp: hd_append simp flip: 1(2))
      then show False by (cases w) (auto simp: ipc_prefix_def ipc_suffix_def)
    qed
    then have "x = ipc_suffix w" using 1 by simp
    then show thesis using that [of "[]"] xy(1) by simp
  qed (use that xy(1) in simp)
qed

text \<open>
  A pipe's name is read back from its address; and an address that \<open>FromAddress\<close> accepts is the one
  \<open>NewAddress\<close> makes of the name it gives, unless that name is empty.
\<close>

theorem address_roundtrip:
  "(name \<noteq> [] \<longrightarrow> FromAddress w (NewAddress w base32 rnd name) = Some name) \<and>
   (FromAddress w adr = Some name' \<longrightarrow> name' \<noteq> [] \<longrightarrow> NewAddress w base32 rnd name' = adr)"
proof -
  have "NewAddress w base32 rnd name' = adr" if "FromAddress w adr = Some name'" "name' \<noteq> []"
    using that by (auto simp: FromAddress_def NewAddress_def split: if_splits elim: prefix_and_suffix_disjoint)
  then show ?thesis by (simp add: FromAddress_def NewAddress_def HasPrefix_def HasSuffix_def suffix_def)
qed

lemma address_roundtrip_witness:
  "(''abc'' \<noteq> [] \<longrightarrow> FromAddress False (NewAddress False (\<lambda>_ :: nat list. ''X'') [] ''abc'') = Some ''abc'') \<and>
   (FromAddress False ''/tmp/gosu-abc.sock'' = Some ''abc'' \<longrightarrow> ''abc'' \<noteq> [] \<longrightarrow>
      NewAddress False (\<lambda>_ :: nat list. ''X'') [] ''abc'' = ''/tmp/gosu-abc.sock'')"
  by (rule address_roundtrip)

text \<open>An escaped name has letters and digits only, but two names may share one.\<close>

lemma digit_char_alnum: "d < 16 \<Longrightarrow> TestRune RunesAlphanum (digit_char d)"
proof -
  assume "d < 16"
  then have "d \<in> set [0..<16]" by simp
  moreover have "list_all (\<lambda>d. TestRune RunesAlphanum (digit_char d)) [0..<16]" by code_simp
  ultimately show ?thesis by (simp only: list_all_iff)
qed

lemma format_nat_alnum: "1 < b \<Longrightarrow> b \<le> 16 \<Longrightarrow> c \<in> set (format_nat b n) \<Longrightarrow> TestRune RunesAlphanum c"
proof (induction b n rule: format_nat.induct)
  case (1 b n)
  have b: "n mod b < 16" using 1(2,3) pos_mod_bound [of b n] by (meson less_le_trans mod_less_divisor order.strict_trans zero_less_one)
  show ?case
  proof (cases "b < 2 \<or> n < b")
    case True
    then have "c = digit_char n" "n < 16" using 1(2,3,4) by (auto simp: format_nat.simps [of b n])
    then show ?thesis using digit_char_alnum by simp
  next
    case False
    then have "c \<in> set (format_nat b (n div b)) \<or> c = digit_char (n mod b)" using 1(4) by (auto simp: format_nat.simps [of b n])
    then show ?thesis using 1(1) [OF False 1(2,3)] digit_char_alnum [OF b] by blast
  qed
qed

lemma escaped_names_are_plain: "list_all (TestRune RunesAlphanum) (escape_name name)"
proof -
  have "TestRune RunesAlphanum (CHR ''x'')" "TestRune RunesAlphanum (CHR ''U'')" by code_simp+
  then show ?thesis
    using format_nat_alnum [of 16] by (fastforce simp: escape_name_def list_all_iff FormatInt_def)
qed

lemma escaped_names_collide: "escape_name ''.'' = escape_name ''xU2e''"
  by code_simp

section \<open>Random bytes\<close>

text \<open>
  What \<open>crypto/rand\<close> gives is \<open>Some (buf, x)\<close>, the whole buffer and the count it claims; else each
  word of the buffer is made of a time and of a word of \<open>math/rand\<close>.
\<close>

definition le_bytes :: "64 word \<Rightarrow> 8 word list" where
  "le_bytes j = map (\<lambda>k. ucast (drop_bit (8 * k) j)) [0..<8]"

definition weak_word :: "64 word \<times> 64 word \<Rightarrow> 64 word" where
  "weak_word tm = (fst tm * 6364136223846793005 + 1442695040888963407) XOR snd tm"

definition RandomBytes :: "(nat \<Rightarrow> (8 word list \<times> nat) option) \<Rightarrow> (nat \<Rightarrow> 64 word \<times> 64 word) \<Rightarrow> nat \<Rightarrow> 8 word list" where
  "RandomBytes read weak n =
     (let words = (n + 7) div 8; fallback = concat (map (\<lambda>i. le_bytes (weak_word (weak i))) [0..<words]) in
      take n (case read (8 * words) of
                Some (buf, x) \<Rightarrow> if x < n then fallback else buf
              | None \<Rightarrow> fallback))"

lemma concat_le_bytes_length: "length (concat (map (\<lambda>i. le_bytes (f i)) [0..<n])) = 8 * n"
  by (induction n) (simp_all add: le_bytes_def)

text \<open>
  As many bytes as asked for are returned, whatever becomes of the system's random source; they are
  the system's when it filled the buffer.
\<close>

theorem random_bytes_length:
  assumes "\<And>n buf x. read n = Some (buf, x) \<Longrightarrow> length buf = n"
  shows "length (RandomBytes read weak n) = n
    \<and> (read (8 * ((n + 7) div 8)) = Some (buf, 8 * ((n + 7) div 8)) \<longrightarrow> RandomBytes read weak n = take n buf)"
proof -
  have n: "n \<le> 8 * ((n + 7) div 8)" by linarith
  then show ?thesis
    using assms [of "8 * ((n + 7) div 8)"]
    by (auto simp: RandomBytes_def Let_def concat_le_bytes_length split: option.splits prod.splits)
qed

lemma random_bytes_length_witness:
  "length (RandomBytes (\<lambda>n. Some (replicate n 7, n)) (\<lambda>_. (0, 0)) (12 :: nat)) = 12 \<and>
   (Some (replicate (8 * ((12 + 7) div 8 :: nat)) 7, 8 * ((12 + 7) div 8 :: nat)) = Some ([7] :: 8 word list, 8 * ((12 + 7) div 8 :: nat)) \<longrightarrow>
      RandomBytes (\<lambda>n. Some (replicate n 7, n)) (\<lambda>_. (0, 0)) (12 :: nat) = take 12 [7])"
  by (rule random_bytes_length) auto

end
