(* ===== verification/Units.thy ===== *)
theory Units
  imports Rate Go_Strings
begin

text \<open>
  The text and JSON forms of \<open>pkg/util/size.go\<close>, \<open>duration.go\<close>, \<open>rate.go\<close> and of \<open>pkg/task/status.go\<close>.
  Of the standard library, \<open>ParseDuration\<close>, \<open>Duration.String\<close>, the reading of JSON strings and numbers
  and \<open>Sscanf("%f%s")\<close> are parameters, \<open>None\<close> being their error. The available memory is one too.
\<close>

section \<open>Sizes\<close>

definition size_units :: "(string \<times> f64) list" where
  "size_units = map (map_prod id f64_of_int)
     [(''b'', 1), (''byte'', 1), (''k'', 1024), (''kb'', 1000), (''kib'', 1024), (''kilobyte'', 1000), (''kibibyte'', 1024),
      (''m'', 1024 ^ 2), (''mb'', 1000 ^ 2), (''mib'', 1024 ^ 2), (''megabyte'', 1000 ^ 2), (''mebibyte'', 1024 ^ 2),
      (''g'', 1024 ^ 3), (''gb'', 1000 ^ 3), (''gib'', 1024 ^ 3), (''gigabyte'', 1000 ^ 3), (''gibibyte'', 1024 ^ 3)]"

definition size_IsZero :: "int \<Rightarrow> bool" where
  "size_IsZero v \<longleftrightarrow> v = 0"

definition size_IsPositive :: "int \<Rightarrow> bool" where
  "size_IsPositive v \<longleftrightarrow> 0 < v"

text \<open>The positive case of \<open>String\<close>.\<close>

definition size_steps :: "int \<Rightarrow> string" where
  "size_steps v =
     (if v \<le> 1024 then Itoa v @ ''b''
      else let v = v div 1024 in
        if v \<le> 1024 then Itoa v @ ''kb''
        else let v = v div 1024 in
          if v \<le> 1024 then Itoa v @ ''mb'' else Itoa (v div 1024) @ ''gb'')"

text \<open>\<open>String\<close>, on fuel: \<open>None\<close> when its recursion has not ended.\<close>

fun size_String :: "nat \<Rightarrow> int \<Rightarrow> string option" where
  "size_String 0 v = None"
| "size_String (Suc n) v =
     (if v < 0 then map_option ((@) ''-'') (size_String n (wrap64 (- v)))
      else if v = 0 then Some ''0''
      else Some (size_steps v))"

definition size_unit :: "string \<Rightarrow> string" where
  "size_unit u =
     (let u = TrimPrefix (ToLower (fst (CutSuffix u ''s''))) '' '' in if u = [] then ''b'' else u)"

definition size_UnmarshalText :: "(string \<Rightarrow> (f64 \<times> string) option) \<Rightarrow> int \<Rightarrow> string \<Rightarrow> int \<Rightarrow> bool \<times> int" where
  "size_UnmarshalText Sscanf memory txt old =
     (case Sscanf txt of
        None \<Rightarrow> (False, old)
      | Some (val, unit) \<Rightarrow>
          let u = size_unit unit in
          if u = ''%'' \<or> u = ''percent''
          then (True, f64_to_int64 (f64_div (f64_mul val (f64_of_int memory)) (f64_of_int 100)))
          else (case map_of size_units u of
                  Some mult \<Rightarrow> (True, f64_to_int64 (f64_mul val mult))
                | None \<Rightarrow>
                    (case map_of size_units (take 1 u) of
                       Some mult \<Rightarrow> (True, f64_to_int64 (f64_mul val mult))
                     | None \<Rightarrow> (False, old))))"

text \<open>What the system says is available, as an \<open>int64\<close>; 16 gibibytes when it says nothing.\<close>

definition getTotalMemory :: "int option \<Rightarrow> int" where
  "getTotalMemory available = (case available of None \<Rightarrow> 16 * 1024 * 1024 * 1024 | Some n \<Rightarrow> wrap64 n)"

text \<open>\<open>Bytesize\<close>, of a size, of any type of integers, of a float or of a text, whose error is dropped.\<close>

datatype size_arg = SzSize int | SzInt int | SzFloat f64 | SzString string

definition Bytesize :: "(string \<Rightarrow> (f64 \<times> string) option) \<Rightarrow> int \<Rightarrow> size_arg \<Rightarrow> int" where
  "Bytesize Sscanf memory d =
     (case d of
        SzSize v \<Rightarrow> v
      | SzInt i \<Rightarrow> wrap64 i
      | SzFloat f \<Rightarrow> f64_to_int64 f
      | SzString s \<Rightarrow> snd (size_UnmarshalText Sscanf memory s 0))"

definition json_quote :: "string \<Rightarrow> string" where
  "json_quote s = CHR 0x22 # s @ [CHR 0x22]"

definition size_MarshalJSON :: "int \<Rightarrow> string option" where
  "size_MarshalJSON v = (if v = 0 then Some ''null'' else map_option json_quote (size_String 2 v))"

text \<open>\<open>UnmarshalJSON\<close> decodes the string, and then reads the text it decoded it from.\<close>

definition size_UnmarshalJSON :: "(string \<Rightarrow> (f64 \<times> string) option) \<Rightarrow> int \<Rightarrow> (string \<Rightarrow> string option) \<Rightarrow> (string \<Rightarrow> f64 option)
    \<Rightarrow> string \<Rightarrow> int \<Rightarrow> bool \<times> int" where
  "size_UnmarshalJSON Sscanf memory json_string json_float txt old =
     (if txt = [] \<or> hd txt = CHR ''n'' then (True, old)
      else if hd txt = CHR 0x22
      then (case json_string txt of None \<Rightarrow> (False, old) | Some str \<Rightarrow> size_UnmarshalText Sscanf memory txt old)
      else (case json_float txt of None \<Rightarrow> (False, old) | Some fp \<Rightarrow> (True, f64_to_int64 fp)))"

text \<open>
  \<open>String\<close> ends for every size, at most one call deep, but for the least integer, whose negation is
  itself: there it calls itself for ever.
\<close>

theorem size_String_terminates:
  assumes "- (2 ^ 63) \<le> v" and "v < 2 ^ 63" and "2 \<le> n"
  shows "size_String n v \<noteq> None \<longleftrightarrow> v \<noteq> - (2 ^ 63)"
proof -
  obtain m where m: "n = Suc (Suc m)" using assms(3) by (metis Suc_le_D numeral_2_eq_2 Suc_le_mono)
  show ?thesis
  proof (cases "v = - (2 ^ 63)")
    case True
    have "size_String k (- (2 ^ 63)) = None" for k
      by (induction k) (simp_all add: wrap64_def)
    then show ?thesis by (simp add: True)
  next
    case False
    then have "v < 0 \<Longrightarrow> wrap64 (- v) = - v" using assms by (simp add: wrap64_def)
    then show ?thesis using False by (simp add: m)
  qed
qed

lemma size_String_terminates_witness: "size_String 2 (- 5) \<noteq> None \<longleftrightarrow> (- 5 :: int) \<noteq> - (2 ^ 63)"
  by (rule size_String_terminates) simp_all

text \<open>
  A size never survives JSON: what \<open>MarshalJSON\<close> prints of any size but zero is a string, and
  \<open>UnmarshalJSON\<close> gives \<open>Sscanf\<close> the string with its quotes, which begin no number.
\<close>

theorem size_json_refused:
  assumes "\<And>s. Sscanf (CHR 0x22 # s) = None" and "v \<noteq> 0" and "size_MarshalJSON v = Some txt"
  shows "size_UnmarshalJSON Sscanf memory json_string json_float txt old = (False, old)"
  using assms by (auto simp: size_MarshalJSON_def size_UnmarshalJSON_def json_quote_def size_UnmarshalText_def split: option.splits)

lemma size_json_refused_witness:
  "size_UnmarshalJSON (\<lambda>s. if hd s = CHR 0x22 then None else Some (Fin 1, ''kb'')) 0 (\<lambda>s. Some (butlast (tl s))) (\<lambda>_. None)
     (json_quote ''1kb'') 0 = (False, 0)"
proof (rule size_json_refused [where v = 2000])
  show "size_MarshalJSON 2000 = Some (json_quote ''1kb'')" by code_simp
qed simp_all

text \<open>The text form loses too: \<open>String\<close> divides by 1024, and the unit it writes is read as 1000.\<close>

lemma size_text_shrinks:
  assumes "Sscanf ''2kb'' = Some (Fin 2, ''kb'')"
  shows "size_String 2 2048 = Some ''2kb'' \<and> size_UnmarshalText Sscanf memory ''2kb'' 0 = (True, 2000)"
proof -
  have "size_unit ''kb'' = ''kb''" "''kb'' \<noteq> ''%''" "''kb'' \<noteq> ''percent''" by code_simp+
  moreover have "map_of size_units ''kb'' = Some (f64_of_int 1000)" by (simp add: size_units_def)
  moreover have "f64_to_int64 (f64_mul (Fin 2) (f64_of_int 1000)) = 2000"
    by (simp add: f64_of_int_def fl_numeral rat_trunc_def int64_ok_def)
  moreover have "size_String 2 2048 = Some ''2kb''" by code_simp
  ultimately show ?thesis by (simp add: assms size_UnmarshalText_def)
qed

section \<open>Durations\<close>

definition dur_MarshalJSON :: "(duration \<Rightarrow> string) \<Rightarrow> duration \<Rightarrow> string" where
  "dur_MarshalJSON dur_String d = (if d = 0 then ''null'' else json_quote (dur_String d))"

definition microToMilli :: f64 where
  "microToMilli = f64_div (f64_of_int Microsecond) (f64_of_int Millisecond)"

definition dur_UnmarshalJSON :: "(string \<Rightarrow> duration option) \<Rightarrow> (string \<Rightarrow> string option) \<Rightarrow> (string \<Rightarrow> f64 option) \<Rightarrow> string \<Rightarrow> duration
    \<Rightarrow> bool \<times> duration" where
  "dur_UnmarshalJSON ParseDuration json_string json_float txt old =
     (if txt = [] \<or> hd txt = CHR ''n'' then (True, old)
      else if hd txt = CHR 0x22
      then (case json_string txt of
              None \<Rightarrow> (False, old)
            | Some str \<Rightarrow> (case ParseDuration str of None \<Rightarrow> (False, 0) | Some d \<Rightarrow> (True, d)))
      else (case json_float txt of None \<Rightarrow> (False, old) | Some fp \<Rightarrow> (True, f64_to_int64 (f64_div fp microToMilli))))"

text \<open>The constructor \<open>Duration\<close>, of the types the program gives it.\<close>

datatype dur_arg = DurString string | DurInt int | DurFloat f64

definition mk_Duration :: "(string \<Rightarrow> duration option) \<Rightarrow> dur_arg \<Rightarrow> duration" where
  "mk_Duration ParseDuration a =
     (case a of
        DurString s \<Rightarrow> (case ParseDuration s of None \<Rightarrow> 0 | Some d \<Rightarrow> d)
      | DurInt i \<Rightarrow> wrap64 i
      | DurFloat f \<Rightarrow> f64_to_int64 (f64_mul f (f64_of_int Millisecond)))"

text \<open>
  A duration printed as JSON is read back, over any old value but for the zero duration, which prints
  as \<open>null\<close> and leaves the old value.
\<close>

theorem duration_json_roundtrip:
  assumes "ParseDuration (dur_String d) = Some d" and "json_string (json_quote (dur_String d)) = Some (dur_String d)"
  shows "dur_UnmarshalJSON ParseDuration json_string json_float (dur_MarshalJSON dur_String d) old
    = (True, if d = 0 then old else d)"
  using assms by (simp add: dur_UnmarshalJSON_def dur_MarshalJSON_def json_quote_def)

lemma duration_json_roundtrip_witness:
  "dur_UnmarshalJSON (\<lambda>s. if s = ''5s'' then Some 5000000000 else None) (\<lambda>s. Some (butlast (tl s))) (\<lambda>_. None)
     (dur_MarshalJSON (\<lambda>_. ''5s'') 5000000000) 7 = (True, if (5000000000 :: int) = 0 then 7 else 5000000000)"
  by (rule duration_json_roundtrip) (simp_all add: json_quote_def)

text \<open>A number is a duration in milliseconds for the constructor and in microseconds in JSON.\<close>

lemma number_units_differ:
  assumes "json_float ''5'' = Some (Fin 5)"
  shows "dur_UnmarshalJSON ParseDuration json_string json_float ''5'' 0 = (True, 5 * Microsecond)
    \<and> mk_Duration ParseDuration (DurFloat (Fin 5)) = 5 * Millisecond"
proof -
  have "fl_rat (1 / 1000) = of_int 4611686018427388 * 2 powi (- 10 - 52)" by (rule fl_rat_near) simp_all
  then have m: "microToMilli = Fin (1152921504606847 / 2 ^ 60)"
    using fl_Fin [of "1 / 1000" 1] by (simp add: microToMilli_def f64_of_int_def fl_numeral Microsecond_def Millisecond_def)
  have "fl_rat (5 / (1152921504606847 / 2 ^ 60)) = of_int (5000 * 2 ^ 40) * 2 powi (12 - 52)" by (rule fl_rat_near) simp_all
  then have q: "fl (5 / (1152921504606847 / 2 ^ 60)) = Fin 5000"
    using fl_Fin [of "5 / (1152921504606847 / 2 ^ 60)" 5001] by simp
  have "f64_to_int64 (f64_div (Fin 5) microToMilli) = 5000"
    using q by (simp add: m rat_trunc_def int64_ok_def)
  then show ?thesis
    using assms
    by (simp add: dur_UnmarshalJSON_def mk_Duration_def f64_of_int_def fl_numeral Microsecond_def Millisecond_def rat_trunc_def int64_ok_def)
qed

section \<open>Rates\<close>

definition rate_String :: "(duration \<Rightarrow> string) \<Rightarrow> TimerRate \<Rightarrow> string" where
  "rate_String dur_String r = Itoa (uint (Count r)) @ ''/'' @ dur_String (Period r)"

definition rate_MarshalText :: "(duration \<Rightarrow> string) \<Rightarrow> TimerRate \<Rightarrow> string" where
  "rate_MarshalText dur_String r = (if rate_IsZero r then [] else rate_String dur_String r)"

text \<open>\<open>Sscanf("%d/%s")\<close> for texts that begin with a digit: the digits, the slash, a word; a count of more
  than 32 bits is an error. Of an error the flag tells, and the rate is left with what was read.\<close>

definition rate_UnmarshalText :: "(string \<Rightarrow> duration option) \<Rightarrow> string \<Rightarrow> TimerRate \<Rightarrow> bool \<times> TimerRate" where
  "rate_UnmarshalText ParseDuration txt old =
     (if txt = [] then (True, \<lparr>Count = 0, Period = 0\<rparr>)
      else
        let ds = takeWhile is_digit txt; rest = dropWhile is_digit txt in
        if ds = [] \<or> 2 ^ 32 \<le> nat_of_digits ds then (False, old)
        else let r = old\<lparr>Count := of_nat (nat_of_digits ds)\<rparr>; word = takeWhile (\<lambda>c. \<not> is_space c) (dropWhile is_space (tl rest)) in
          if rest = [] \<or> hd rest \<noteq> CHR ''/'' \<or> word = [] then (False, r)
          else (case ParseDuration word of None \<Rightarrow> (False, r\<lparr>Period := 0\<rparr>) | Some d \<Rightarrow> (True, r\<lparr>Period := d\<rparr>)))"

text \<open>
  A rate with a period is read back from its text, whatever was there before.
\<close>

theorem rate_text_roundtrip:
  assumes "Period r \<noteq> 0" and "ParseDuration (dur_String (Period r)) = Some (Period r)"
    and "dur_String (Period r) \<noteq> []" and "\<forall>c \<in> set (dur_String (Period r)). \<not> is_space c"
  shows "rate_UnmarshalText ParseDuration (rate_MarshalText dur_String r) old = (True, r)"
proof -
  let ?ds = "format_nat 10 (unat (Count r))" and ?p = "dur_String (Period r)"
  have ds: "list_all is_digit ?ds" "?ds \<noteq> []" "nat_of_digits ?ds = unat (Count r)" using format_nat_decimal by auto
  have t: "rate_MarshalText dur_String r = ?ds @ CHR ''/'' # ?p"
    using assms(1) by (simp add: rate_MarshalText_def rate_IsZero_def rate_String_def Itoa_def FormatInt_def)
  have "takeWhile is_digit (?ds @ CHR ''/'' # ?p) = ?ds" "dropWhile is_digit (?ds @ CHR ''/'' # ?p) = CHR ''/'' # ?p"
    using ds(1) by (simp_all add: list_all_iff is_digit_def)
  moreover have "takeWhile (\<lambda>c. \<not> is_space c) (dropWhile is_space ?p) = ?p"
    using assms(3,4) by (cases ?p) simp_all
  moreover have "unat (Count r) < 2 ^ 32" using unsigned_less [of "Count r", where ?'a = nat] by simp
  ultimately show ?thesis
    using ds assms(2,3) by (simp add: t rate_UnmarshalText_def Let_def)
qed

lemma rate_text_roundtrip_witness:
  "rate_UnmarshalText (\<lambda>s. if s = ''1m0s'' then Some Minute else None) (rate_MarshalText (\<lambda>_. ''1m0s'') \<lparr>Count = 3, Period = Minute\<rparr>)
     \<lparr>Count = 9, Period = 0\<rparr> = (True, \<lparr>Count = 3, Period = Minute\<rparr>)"
  by (rule rate_text_roundtrip) (simp_all add: Minute_def is_space_def)

section \<open>Statuses\<close>

definition status_MarshalJSON :: "status \<Rightarrow> string option" where
  "status_MarshalJSON s = map_option json_quote (Status_String s)"

definition status_UnmarshalJSON :: "(string \<Rightarrow> string option) \<Rightarrow> string \<Rightarrow> status \<Rightarrow> bool \<times> status" where
  "status_UnmarshalJSON json_string data old =
     (case json_string data of None \<Rightarrow> (False, old) | Some tmp \<Rightarrow> (True, StatusFromName tmp))"

end
