(* ===== verification/Javascript.thy ===== *)
theory Javascript
  imports Registry
begin

text \<open>
  Scripts: \<open>pkg/foreign/javascript\<close> (the engines, the packages of npm, the values that scripts print),
  \<open>pkg/foreign/javascript.go\<close> and the running of scripts in \<open>pkg/foreign/common.go\<close>. What the processes
  do, the search of the path and JSON are parameters; a command is its program and its arguments.
\<close>

type_synonym js_cmd = "string \<times> string list"

type_synonym 'e executor = "string \<Rightarrow> string list \<Rightarrow> 'e + js_cmd"

section \<open>Engines\<close>

definition errorExecutor :: "'e \<Rightarrow> 'e executor" where
  "errorExecutor e script args = Inl e"

definition binaryExecutor :: "string \<Rightarrow> 'e executor" where
  "binaryExecutor executable script args = Inr (executable, if script \<noteq> [] then script # args else args)"

record js_settings =
  jss_Engine :: string
  jss_Transpiler :: string

text \<open>\<open>LookPath\<close> finds a program or fails.\<close>

definition ExecJS :: "(string \<Rightarrow> 'e + string) \<Rightarrow> js_settings \<Rightarrow> 'e executor" where
  "ExecJS LookPath st = (case LookPath (jss_Engine st) of Inl e \<Rightarrow> errorExecutor e | Inr p \<Rightarrow> binaryExecutor p)"

definition ts_args :: "string \<Rightarrow> string \<Rightarrow> string list \<Rightarrow> string list" where
  "ts_args loader script args =
     [''--experimental-specifier-resolution=node'', ''--import'', ''file://'' @ loader, script] @ args"

definition ExecTS :: "(string \<Rightarrow> 'e + string) \<Rightarrow> (string \<Rightarrow> 'e + string) \<Rightarrow> js_settings \<Rightarrow> 'e executor" where
  "ExecTS LookPath resolve st =
     (if jss_Engine st = ''node''
      then (case resolve (jss_Transpiler st) of
              Inr loader \<Rightarrow> (\<lambda>script args. ExecJS LookPath st [] (ts_args loader script args))
            | Inl _ \<Rightarrow>
                (case LookPath (ReplaceAll (CHR ''/'') ''-'' (jss_Transpiler st)) of
                   Inl e \<Rightarrow> errorExecutor e
                 | Inr p \<Rightarrow> binaryExecutor p))
      else ExecJS LookPath st)"

section \<open>Packages\<close>

record package =
  pk_Exports :: "string \<Rightarrow> string option"
  pk_Path :: string

datatype 'e npm_err = NpmFailed 'e | NotInstalled string

text \<open>
  The loop of \<open>ResolveGlobalPackage\<close>: \<open>ls i\<close> is what the \<open>i\<close>th listing says of its dependencies, and
  \<open>install\<close> whether the installation succeeds. The result tells how many listings there were.
\<close>

function ResolveGlobalPackage :: "(nat \<Rightarrow> 'e + (string \<Rightarrow> package option)) \<Rightarrow> bool \<Rightarrow> string \<Rightarrow> bool \<Rightarrow> nat
    \<Rightarrow> ('e npm_err + package) \<times> nat" where
  "ResolveGlobalPackage ls install name orInstall i =
     (case ls i of
        Inl e \<Rightarrow> (Inl (NpmFailed e), Suc i)
      | Inr deps \<Rightarrow>
          (case deps name of
             Some dep \<Rightarrow> (Inr dep, Suc i)
           | None \<Rightarrow>
               if orInstall \<and> install then ResolveGlobalPackage ls install name False (Suc i)
               else (Inl (NotInstalled name), Suc i)))"
  by pat_completeness auto
termination by (relation "measure (\<lambda>(ls, install, name, orInstall, i). of_bool orInstall)") simp_all

declare ResolveGlobalPackage.simps [simp del]

definition ResolveGlobalImport :: "(string \<Rightarrow> 'x + package) \<Rightarrow> (string \<Rightarrow> string \<Rightarrow> string) \<Rightarrow> string \<Rightarrow> 'x + string" where
  "ResolveGlobalImport resolve join importPath =
     (case str_cut (CHR ''/'') importPath of
        (name, rest, found) \<Rightarrow>
          let path = (if found then ''./'' @ rest else ''.'') in
          (case resolve name of
             Inl e \<Rightarrow> Inl e
           | Inr m \<Rightarrow> Inr (join (pk_Path m) (case pk_Exports m path of None \<Rightarrow> path | Some rel \<Rightarrow> rel))))"

section \<open>Values of scripts\<close>

definition minify :: "string \<Rightarrow> string" where
  "minify s = ReplaceAll (CHR 0x09) '' '' (ReplaceAll (CHR 0x0A) [] (ReplaceAll (CHR 0x0D) [] (TrimSpace s)))"

text \<open>The lines of the wrappers; the text between backquotes keeps the escapes for the engine.\<close>

definition js_line :: "string \<Rightarrow> string" where
  "js_line s = [CHR 0x0A, CHR 0x09] @ s"

definition q1 :: string where
  "q1 = [CHR 0x27]"

definition js_escape :: "string \<Rightarrow> string" where
  "js_escape hex = CHR 0x5C # CHR ''x'' # hex"

definition wrapper_rest :: string where
  "wrapper_rest =
     js_line (''let R = M['' @ q1 @ ''default'' @ q1 @ ''] ?? M;'')
     @ js_line (''R = typeof R == '' @ q1 @ ''function'' @ q1 @ '' ? R(JSON.parse('' @ q1 @ ''$'' @ q1 @ '')) : R;'')
     @ js_line (''console.error('' @ q1 @ js_escape ''0d'' @ js_escape ''01'' @ js_escape ''02'' @ q1
         @ ''+JSON.stringify(R)+'' @ q1 @ js_escape ''03'' @ js_escape ''03'' @ js_escape ''0a'' @ q1 @ '')'') @ [CHR 0x0A]"

definition UnmarshalWrapperESM :: string where
  "UnmarshalWrapperESM = minify (js_line (''import * as M from '' @ q1 @ ''file://@'' @ q1 @ '';'') @ wrapper_rest)"

definition UnmarshalWrapperCJS :: string where
  "UnmarshalWrapperCJS = minify (js_line (''const M = require('' @ q1 @ ''@'' @ q1 @ '');'') @ wrapper_rest)"

definition hex2 :: "char \<Rightarrow> string" where
  "hex2 b = [digit_char (of_char b div 16), digit_char (of_char b mod 16)]"

definition escapeString :: "string \<Rightarrow> string" where
  "escapeString bytes = concat (map (\<lambda>b. js_escape (hex2 b)) bytes)"

text \<open>The code that is run, and the flag in front of it.\<close>

definition wrapped_code :: "string \<Rightarrow> string \<Rightarrow> string \<Rightarrow> string" where
  "wrapped_code path code params =
     ReplaceAll (CHR ''$'') (escapeString params)
       (ReplaceAll (CHR ''@'') (ReplaceAll (CHR 0x5C) [CHR 0x5C, CHR 0x5C] path) code)"

definition default_type :: "string \<Rightarrow> string" where
  "default_type code =
     (if code = UnmarshalWrapperCJS then ''--experimental-default-type=commonjs'' else ''--experimental-default-type=module'')"

definition start_mark :: string where
  "start_mark = [CHR 0x0D, CHR 0x01, CHR 0x02]"

definition end_mark :: string where
  "end_mark = [CHR 0x03, CHR 0x03, CHR 0x0A]"

datatype 'e script_err = ExecErr 'e | BadParams | RunFailed string | InvalidOutput | OutOfRange | DecodeFailed

text \<open>What the output of the process says; a slice whose ends cross is a panic.\<close>

definition printed_value :: "string \<Rightarrow> 'e script_err + string" where
  "printed_value out =
     (case LastIndex out start_mark of
        None \<Rightarrow> Inl InvalidOutput
      | Some s \<Rightarrow>
          (case LastIndex out end_mark of
             None \<Rightarrow> Inl InvalidOutput
           | Some e \<Rightarrow> if e < s + 3 then Inl OutOfRange else Inr (take (e - (s + 3)) (drop (s + 3) out))))"

text \<open>
  \<open>run cmd\<close> is whether the process ended well, with all it wrote. The parameters are \<open>None\<close> when they
  have no JSON, and \<open>decode\<close> reads JSON over the target.
\<close>

definition UnmarshalDynamicWith :: "'e executor \<Rightarrow> (js_cmd \<Rightarrow> bool \<times> string) \<Rightarrow> (string \<Rightarrow> 'w \<Rightarrow> 'w option) \<Rightarrow> string \<Rightarrow> string
    \<Rightarrow> string option \<Rightarrow> 'w \<Rightarrow> 'e script_err + 'w" where
  "UnmarshalDynamicWith execute run decode path code params out =
     (case params of
        None \<Rightarrow> Inl BadParams
      | Some p \<Rightarrow>
          let code = wrapped_code path code p in
          (case execute (default_type code) [''-e'', code] of
             Inl e \<Rightarrow> Inl (ExecErr e)
           | Inr cmd \<Rightarrow>
               (case run cmd of
                  (False, txt) \<Rightarrow> Inl (RunFailed txt)
                | (True, txt) \<Rightarrow>
                    (case printed_value txt of
                       Inl e \<Rightarrow> Inl e
                     | Inr j \<Rightarrow> (case decode j out of None \<Rightarrow> Inl DecodeFailed | Some w \<Rightarrow> Inr w)))))"

text \<open>The choice of a wrapper; \<open>read\<close> is the content of the script, if it can be read.\<close>

definition lazy_Unmarshal :: "(string \<Rightarrow> 'w \<Rightarrow> 'x + 'w) \<Rightarrow> string option \<Rightarrow> 'w \<Rightarrow> 'x + 'w" where
  "lazy_Unmarshal dynamic read out =
     (let try_both = (case dynamic UnmarshalWrapperESM out of Inr w \<Rightarrow> Inr w | Inl _ \<Rightarrow> dynamic UnmarshalWrapperCJS out) in
      case read of
        None \<Rightarrow> try_both
      | Some buf \<Rightarrow>
          if str_Contains buf ''module.exports ='' then dynamic UnmarshalWrapperCJS out
          else if str_Contains buf ''export default '' then dynamic UnmarshalWrapperESM out
          else try_both)"

section \<open>Running by extension\<close>

fun try_run :: "(string \<Rightarrow> string list \<Rightarrow> 'e + 'c) list \<Rightarrow> string \<Rightarrow> string list \<Rightarrow> 'e option \<Rightarrow> 'e option + 'c" where
  "try_run [] path args err = Inl err"
| "try_run (b # bs) path args err = (case b path args of Inr c \<Rightarrow> Inr c | Inl e \<Rightarrow> try_run bs path args (Some e))"

text \<open>\<open>RunContextWith\<close> gives the command the streams of the logger (\<open>redirect\<close>).\<close>

definition RunContextWith :: "('c \<Rightarrow> 'c) \<Rightarrow> (string \<Rightarrow> string list \<Rightarrow> 'e + 'c) \<Rightarrow> string \<Rightarrow> string list \<Rightarrow> 'e + 'c" where
  "RunContextWith redirect bridge path args = (case bridge path args of Inl e \<Rightarrow> Inl e | Inr cmd \<Rightarrow> Inr (redirect cmd))"

text \<open>\<open>None\<close> is the error that there is no runtime for the extension.\<close>

definition RunContext :: "('c \<Rightarrow> 'c) \<Rightarrow> (string \<Rightarrow> (string \<Rightarrow> string list \<Rightarrow> 'e + 'c) list) \<Rightarrow> string \<Rightarrow> string list \<Rightarrow> 'e option + 'c" where
  "RunContext redirect Extensions path args =
     try_run (map (RunContextWith redirect) (Extensions (ToLower (path_Ext path)))) path args None"

text \<open>\<open>Run\<close> and \<open>Unmarshal\<close> are these without a logger of their own: the streams of the default one.\<close>

definition foreign_Run :: "('c \<Rightarrow> 'c) \<Rightarrow> (string \<Rightarrow> (string \<Rightarrow> string list \<Rightarrow> 'e + 'c) list) \<Rightarrow> string \<Rightarrow> string list \<Rightarrow> 'e option + 'c" where
  "foreign_Run to_default Extensions path args = RunContext to_default Extensions path args"

definition foreign_Unmarshal :: "(string \<Rightarrow> file_kind option) \<Rightarrow> (string \<Rightarrow> (string \<Rightarrow> 'w \<Rightarrow> ('e + 'w)) list) \<Rightarrow> string \<Rightarrow> 'w
    \<Rightarrow> 'e foreign_err + 'w" where
  "foreign_Unmarshal stat Extensions path out = UnmarshalContext stat Extensions path out"

text \<open>The executor of a language is made when it is first needed, from the settings of then.\<close>

definition lazy_Run :: "('s \<Rightarrow> 'e executor) \<Rightarrow> 's \<Rightarrow> 'e executor" where
  "lazy_Run l settings script args = l settings script args"

definition init_javascript :: "'b \<Rightarrow> 'b \<Rightarrow> (string \<Rightarrow> 'b option) \<times> (string \<Rightarrow> 'b list) \<Rightarrow> (string \<Rightarrow> 'b option) \<times> (string \<Rightarrow> 'b list)" where
  "init_javascript js ts r =
     (register_languages ts [''ts'', ''typescript''] (register_languages js [''js'', ''javascript''] (fst r)),
      foreign_Register ts [''.ts'', ''.cts'', ''.mts''] (foreign_Register js [''.js'', ''.cjs'', ''.mjs''] (snd r)))"

definition InstallGlobalPackage :: "('e \<Rightarrow> string) \<Rightarrow> (js_cmd \<Rightarrow> ('e \<times> string) option) \<Rightarrow> string \<Rightarrow> ('e \<times> string) option" where
  "InstallGlobalPackage Error run packageName =
     (case run (''npm'', [''install'', ''-g'', packageName]) of
        None \<Rightarrow> None
      | Some (e, stderr) \<Rightarrow> Some (e, ''failed installing package '' @ q1 @ packageName @ q1 @ '' with NPM: '' @ Error e @ '' '' @ stderr))"

text \<open>What is registered for scripts and files of values: every extension has one reader.\<close>

lemma extensions_of_program:
  "let exts = snd (init_javascript js ts (init_unmarshalers json yaml toml txt (Map.empty, \<lambda>_. []))) in
     map exts [''.js'', ''.cjs'', ''.mjs''] = [[js], [js], [js]] \<and> map exts [''.ts'', ''.cts'', ''.mts''] = [[ts], [ts], [ts]]
     \<and> map exts [''.json'', ''.yaml'', ''.yml'', ''.toml'', ''.txt''] = [[json], [yaml], [yaml], [toml], [txt]]"
  by (simp add: init_javascript_def init_unmarshalers_def unmarshaler_Register_def foreign_Register_def Let_def)

section \<open>What the scripts give\<close>

lemma LastIndex_start:
  assumes "CHR 0x0D \<notin> set s"
  shows "LastIndex (pre @ start_mark @ s) start_mark = Some (length pre)"
proof -
  have "LastIndex s start_mark = None" using assms by (intro LastIndex_None) (simp_all add: start_mark_def)
  then have "LastIndex (start_mark @ s) start_mark = Some 0" by (simp add: start_mark_def)
  then show ?thesis using LastIndex_behind by fastforce
qed

lemma LastIndex_end:
  assumes "CHR 0x03 \<notin> set s"
  shows "LastIndex (pre @ end_mark @ s) end_mark = Some (length pre)"
proof -
  have "LastIndex s end_mark = None" using assms by (intro LastIndex_None) (simp_all add: end_mark_def)
  then have "LastIndex (end_mark @ s) end_mark = Some 0" by (simp add: end_mark_def)
  then show ?thesis using LastIndex_behind by fastforce
qed

lemma printed_value_marked:
  assumes "CHR 0x0D \<notin> set j \<union> set post" and "CHR 0x03 \<notin> set post"
  shows "printed_value (pre @ start_mark @ j @ end_mark @ post) = Inr j"
proof -
  let ?out = "pre @ start_mark @ j @ end_mark @ post"
  have "LastIndex ?out start_mark = Some (length pre)"
    using assms(1) by (intro LastIndex_start) (simp add: end_mark_def)
  moreover have "LastIndex ?out end_mark = Some (length (pre @ start_mark @ j))"
    using LastIndex_end [OF assms(2), of "pre @ start_mark @ j"] by simp
  ultimately show ?thesis by (simp add: printed_value_def start_mark_def)
qed



text \<open>
  The type that is asked of the engine is never CommonJS: the code is compared with the wrapper after
  the parameters have been put into it, and the wrapper, which then still has its dollar, differs.
\<close>

lemma hex_chars: "CHR ''$'' \<notin> set (escapeString bytes)"
proof -
  have "list_all (\<lambda>d. digit_char d \<noteq> CHR ''$'') [0..<16]" by code_simp
  moreover have "(of_char b :: nat) div 16 < 16" for b :: char using nat_of_char_less_256 [of b] by presburger
  ultimately have "digit_char (of_char b div 16) \<noteq> CHR ''$''" "digit_char (of_char b mod 16) \<noteq> CHR ''$''" for b :: char
    by (simp_all add: list_all_iff)
  then have "CHR ''$'' \<notin> set (js_escape (hex2 b))" for b by (simp add: js_escape_def hex2_def) metis
  then show ?thesis by (simp add: escapeString_def)
qed

lemma never_commonjs: "default_type (wrapped_code path code p) = ''--experimental-default-type=module''"
proof -
  have "CHR ''$'' \<notin> set (wrapped_code path code p)"
    using hex_chars [of p] by (auto simp: wrapped_code_def ReplaceAll_def split: if_splits)
  moreover have "CHR ''$'' \<in> set UnmarshalWrapperCJS" by code_simp
  ultimately have "wrapped_code path code p \<noteq> UnmarshalWrapperCJS" by metis
  then show ?thesis by (simp add: default_type_def)
qed

text \<open>A dollar in the path of a script is replaced by the parameters too.\<close>

lemma dollar_path_broken: "wrapped_code ''/a$b.js'' ''@'' ''1'' = ''/a'' @ js_escape ''31'' @ ''b.js''"
  by code_simp

text \<open>
  A package is listed at most twice and installed at most once, and is found exactly if the first
  listing has it, or if it may be installed, is, and the second listing has it.
\<close>

theorem package_resolution:
  "snd (ResolveGlobalPackage ls install name orInstall 0) \<le> 2 \<and>
   (fst (ResolveGlobalPackage ls install name orInstall 0) = Inr p \<longleftrightarrow>
      (\<exists>deps. ls 0 = Inr deps \<and>
        (deps name = Some p \<or>
         deps name = None \<and> orInstall \<and> install \<and> (\<exists>deps'. ls 1 = Inr deps' \<and> deps' name = Some p))))"
  by (auto simp: ResolveGlobalPackage.simps [of ls install name orInstall] ResolveGlobalPackage.simps [of ls _ name False "Suc 0"]
      split: sum.splits option.splits)

text \<open>A package with a scope is cut at the slash of its scope.\<close>

lemma scoped_package_cut:
  "ResolveGlobalImport resolve join ''@types/node'' =
     (case resolve ''@types'' of Inl e \<Rightarrow> Inl e
      | Inr m \<Rightarrow> Inr (join (pk_Path m) (case pk_Exports m ''./node'' of None \<Rightarrow> ''./node'' | Some rel \<Rightarrow> rel)))"
  by (simp add: ResolveGlobalImport_def Let_def split: sum.splits option.splits)

text \<open>The first runtime of an extension that gives a command decides.\<close>

lemma try_run_first:
  "try_run bs path args err =
     (case dropWhile (\<lambda>b. \<exists>e. b path args = Inl e) bs of
        b # _ \<Rightarrow> Inr (projr (b path args))
      | [] \<Rightarrow> Inl (if bs = [] then err else Some (projl (last bs path args))))"
proof (induction bs arbitrary: err)
  case (Cons b bs)
  then show ?case
    by (cases "b path args") (auto split: list.splits, metis (mono_tags, lifting) dropWhile_eq_Nil_conv list.distinct(1))
qed simp

section \<open>Defaults\<close>

definition default_js :: js_settings where
  "default_js = \<lparr>jss_Engine = ''node'', jss_Transpiler = ''tsx''\<rparr>"

text \<open>By default a script in TypeScript is run by node with the loader of \<open>tsx\<close>, or else by the program \<open>tsx\<close>.\<close>

lemma default_typescript:
  "ExecTS LookPath resolve default_js script args =
     (case resolve ''tsx'' of
        Inr loader \<Rightarrow> (case LookPath ''node'' of Inl e \<Rightarrow> Inl e | Inr node \<Rightarrow> Inr (node, ts_args loader script args))
      | Inl _ \<Rightarrow> (case LookPath ''tsx'' of Inl e \<Rightarrow> Inl e | Inr p \<Rightarrow> binaryExecutor p script args))"
  by (simp add: ExecTS_def ExecJS_def default_js_def errorExecutor_def binaryExecutor_def ReplaceAll_def split: sum.splits)

end
