(* ===== verification/Daemon.thy ===== *)
theory Daemon
  imports Prelude
begin

text \<open>
  Which process is the daemon: \<open>cmd/gosu/app.go\<close> and \<open>pkg/session/lock.go\<close>, with every process that
  asks for the lock file as an interleaved sequence of steps. The lock file is the library's: \<open>TryLock\<close>
  succeeds when nobody holds it, when the caller does, or when its holder is dead.
\<close>

record lock_sys =
  lk_owner :: "nat option"
  lk_dead :: "nat set"
  lk_probing :: "nat set"
  lk_daemons :: "nat set"
  lk_clients :: "nat set"

definition no_processes :: lock_sys where
  "no_processes = \<lparr>lk_owner = None, lk_dead = {}, lk_probing = {}, lk_daemons = {}, lk_clients = {}\<rparr>"

definition TryLock :: "nat \<Rightarrow> lock_sys \<Rightarrow> lock_sys option" where
  "TryLock p s =
     (case lk_owner s of
        None \<Rightarrow> Some (s\<lparr>lk_owner := Some p\<rparr>)
      | Some q \<Rightarrow> if q = p \<or> q \<in> lk_dead s then Some (s\<lparr>lk_owner := Some p\<rparr>) else None)"

text \<open>\<open>Running\<close> takes the lock and gives it back in a second step; whoever cannot take it says that the daemon runs.\<close>

definition Running_begin :: "nat \<Rightarrow> lock_sys \<Rightarrow> bool option \<times> lock_sys" where
  "Running_begin p s =
     (case TryLock p s of
        None \<Rightarrow> (Some True, s)
      | Some s' \<Rightarrow> (None, s'\<lparr>lk_probing := insert p (lk_probing s')\<rparr>))"

definition Running_end :: "nat \<Rightarrow> lock_sys \<Rightarrow> bool \<times> lock_sys" where
  "Running_end p s = (False, s\<lparr>lk_owner := None, lk_probing := lk_probing s - {p}\<rparr>)"

definition TryAcquire :: "nat \<Rightarrow> lock_sys \<Rightarrow> bool \<times> lock_sys" where
  "TryAcquire p s = (case TryLock p s of None \<Rightarrow> (False, s) | Some s' \<Rightarrow> (True, s'))"

text \<open>\<open>main\<close>, of the arguments behind the name of the program: a server, or a client.\<close>

definition app_main :: "string list \<Rightarrow> nat \<Rightarrow> lock_sys \<Rightarrow> lock_sys" where
  "app_main args p s =
     (if args = [] \<or> hd args = ''daemon''
      then (case TryAcquire p s of
              (True, s') \<Rightarrow> s'\<lparr>lk_daemons := insert p (lk_daemons s')\<rparr>
            | (False, s') \<Rightarrow> s'\<lparr>lk_clients := insert p (lk_clients s')\<rparr>)
      else s\<lparr>lk_clients := insert p (lk_clients s)\<rparr>)"

text \<open>The steps: a process starts, a client asks whether a daemon runs, or a process dies.\<close>

datatype lock_ev = LkMain nat "string list" | LkProbe nat | LkProbed nat | LkDies nat

fun lock_act :: "lock_ev \<Rightarrow> lock_sys \<Rightarrow> lock_sys option" where
  "lock_act (LkMain p args) s =
     (if p \<in> lk_dead s \<union> lk_daemons s \<union> lk_clients s then None else Some (app_main args p s))"
| "lock_act (LkProbe p) s =
     (if p \<in> lk_clients s \<and> p \<notin> lk_dead s \<union> lk_probing s then Some (snd (Running_begin p s)) else None)"
| "lock_act (LkProbed p) s = (if p \<in> lk_probing s \<and> p \<notin> lk_dead s then Some (snd (Running_end p s)) else None)"
| "lock_act (LkDies p) s =
     Some (s\<lparr>lk_dead := insert p (lk_dead s), lk_daemons := lk_daemons s - {p}, lk_probing := lk_probing s - {p}\<rparr>)"

definition lock_inv :: "lock_sys \<Rightarrow> bool" where
  "lock_inv s \<longleftrightarrow>
     (\<forall>p \<in> lk_daemons s \<union> lk_probing s. lk_owner s = Some p \<and> p \<notin> lk_dead s) \<and>
     lk_daemons s \<inter> lk_clients s = {} \<and> lk_probing s \<subseteq> lk_clients s"

lemma lock_holder: "lock_inv s \<Longrightarrow> p \<in> lk_daemons s \<or> p \<in> lk_probing s \<Longrightarrow> lk_owner s = Some p \<and> p \<notin> lk_dead s"
  unfolding lock_inv_def by blast

lemma lock_invI:
  assumes "\<And>p. p \<in> lk_daemons s \<or> p \<in> lk_probing s \<Longrightarrow> lk_owner s = Some p \<and> p \<notin> lk_dead s"
    and "lk_daemons s \<inter> lk_clients s = {}" and "lk_probing s \<subseteq> lk_clients s"
  shows "lock_inv s"
  using assms unfolding lock_inv_def by blast

lemma TryLock_keeps:
  assumes "lock_inv s" and "TryLock p s = Some s'" and "p \<notin> lk_dead s"
  shows "lk_owner s' = Some p \<and> lk_daemons s' = lk_daemons s \<and> lk_probing s' = lk_probing s \<and> lk_dead s' = lk_dead s
    \<and> lk_clients s' = lk_clients s \<and> lk_daemons s \<union> lk_probing s \<subseteq> {p}"
proof -
  have "q \<in> lk_daemons s \<or> q \<in> lk_probing s \<Longrightarrow> q = p" for q
    using lock_holder [OF assms(1), of q] assms(2,3) by (auto simp: TryLock_def split: if_splits)
  then show ?thesis using assms(2) by (auto simp: TryLock_def split: option.splits if_splits)
qed

lemma lock_keeps: "lock_act ev s = Some s' \<Longrightarrow> lock_inv s \<Longrightarrow> lock_inv s'"
proof (cases ev)
  case (LkMain p args)
  assume s: "lock_act ev s = Some s'" "lock_inv s"
  then have p: "p \<notin> lk_dead s" "p \<notin> lk_daemons s" "p \<notin> lk_clients s" "s' = app_main args p s"
    using LkMain by (auto split: if_splits)
  show "lock_inv s'"
  proof (cases "TryLock p s")
    case None
    then show ?thesis using s(2) p by (auto simp: app_main_def TryAcquire_def lock_inv_def)
  next
    case (Some t)
    then show ?thesis using TryLock_keeps [OF s(2) Some p(1)] s(2) p by (auto simp: app_main_def TryAcquire_def lock_inv_def)
  qed
next
  case (LkProbe p)
  assume s: "lock_act ev s = Some s'" "lock_inv s"
  then have p: "p \<notin> lk_dead s" "p \<in> lk_clients s" "s' = snd (Running_begin p s)" using LkProbe by (auto split: if_splits)
  show "lock_inv s'"
  proof (cases "TryLock p s")
    case (Some t)
    then show ?thesis using TryLock_keeps [OF s(2) Some p(1)] s(2) p by (auto simp: Running_begin_def lock_inv_def)
  qed (use s(2) p in \<open>simp add: Running_begin_def\<close>)
next
  case (LkProbed p)
  assume s: "lock_act ev s = Some s'" "lock_inv s"
  then have p: "p \<in> lk_probing s" "s' = snd (Running_end p s)" using LkProbed by (auto split: if_splits)
  have "q \<in> lk_daemons s \<or> q \<in> lk_probing s \<Longrightarrow> q = p" for q
    using lock_holder [OF s(2), of q] lock_holder [OF s(2), of p] p(1) by simp
  moreover have "p \<notin> lk_daemons s" using s(2) p(1) by (auto simp: lock_inv_def)
  ultimately show "lock_inv s'" using s(2) p by (intro lock_invI) (auto simp: Running_end_def lock_inv_def)
next
  case (LkDies p)
  assume "lock_act ev s = Some s'" "lock_inv s"
  with LkDies show "lock_inv s'" by (auto simp: lock_inv_def)
qed

interpretation lock: guarded_system lock_act "\<lambda>_. True" lock_inv
  by unfold_locales (rule lock_keeps)

text \<open>
  C11. However the processes interleave and whichever of them die, there is never more than one daemon,
  and it holds the lock and is alive.
\<close>

theorem one_daemon:
  assumes "exec lock_act evs no_processes = Some s" and "p \<in> lk_daemons s" and "q \<in> lk_daemons s"
  shows "p = q \<and> lk_owner s = Some p \<and> p \<notin> lk_dead s"
proof -
  have "lock_inv s" using lock.exec_keeps [OF assms(1)] by (simp add: lock_inv_def no_processes_def)
  then show ?thesis using lock_holder [of s p] lock_holder [of s q] assms(2,3) by simp
qed

lemma one_daemon_witness:
  "let s = the (exec lock_act [LkMain 1 [''daemon''], LkMain 2 [''daemon''], LkDies 1, LkMain 3 []] no_processes) in
     3 = (3 :: nat) \<and> lk_owner s = Some 3 \<and> 3 \<notin> lk_dead s"
  unfolding Let_def
  by (rule one_daemon [of "[LkMain 1 [''daemon''], LkMain 2 [''daemon''], LkDies 1, LkMain 3 []]" _ 3 3])
    (simp_all add: no_processes_def app_main_def TryAcquire_def TryLock_def)

text \<open>
  A client that asks whether the daemon runs holds the lock while it asks: a daemon that starts in
  between does not get it, and becomes a client.
\<close>

lemma probe_starves_daemon:
  "\<exists>s. exec lock_act [LkMain 1 [''list''], LkProbe 1, LkMain 2 [''daemon''], LkProbed 1] no_processes = Some s
    \<and> lk_daemons s = {} \<and> 2 \<in> lk_clients s"
  by (simp add: no_processes_def app_main_def TryAcquire_def TryLock_def Running_begin_def Running_end_def)

end
