(* ===== verification/Clog.thy ===== *)
theory Clog
  imports Go_Strings "HOL-Library.Word"
begin

unbundle bit_operations_syntax

text \<open>
  \<open>pkg/clog\<close>: the loggers. A logger names files by their handles (numbers here); forks share the
  handles and have formatters of their own. A formatter (\<open>Writer\<close>) buffers a line and writes it,
  with the prefix of its logger, when the newline comes. \<open>time.Now().Format\<close> is an argument, as is
  what the file system answers.
\<close>

type_synonym stream = nat

definition StreamStdout :: stream where "StreamStdout = 0"
definition StreamStderr :: stream where "StreamStderr = 1"
definition StreamMax :: stream where "StreamMax = 2"

definition Stream_String :: "stream \<Rightarrow> string" where
  "Stream_String str =
     (if str = StreamStdout then ''stdout'' else if str = StreamStderr then ''stderr''
      else ''stream('' @ Itoa (int str) @ '')'')"

section \<open>Formatters\<close>

text \<open>
  The writer a formatter passes lines to is an interface value made from a \<open>*os.File\<close>: also for a
  nil file it is not the nil interface, and writing to a nil file fails.
\<close>

datatype io_writer = NilInterface | FileWriter "nat option"

record writer =
  wr_buffer :: string
  wr_stream :: io_writer
  wr_kind :: stream
  wr_written :: "(nat \<times> string) list"
  wr_hooked :: "string list"

datatype io_error = ErrInvalid | ErrIO

text \<open>\<open>createWriter\<close> is called with a handle of the logger.\<close>

definition createWriter :: "nat option \<Rightarrow> stream \<Rightarrow> writer" where
  "createWriter handle kind =
     \<lparr>wr_buffer = [], wr_stream = FileWriter handle, wr_kind = kind, wr_written = [], wr_hooked = []\<rparr>"

text \<open>\<open>forEachLine\<close>: the pieces handed to \<open>out\<close> with their flag, and the count it returns.\<close>

function forEachLine :: "string \<Rightarrow> (string \<times> bool) list \<times> nat" where
  "forEachLine p =
     (if p = [] then ([], 0)
      else case IndexByte p (CHR ''\<newline>'') of
        None \<Rightarrow> ([(p, False)], 0)
      | Some nl \<Rightarrow>
          let (rest, n) = forEachLine (drop (Suc nl) p) in ((take (Suc nl) p, True) # rest, Suc nl + n))"
  by pat_completeness auto
termination by (relation "measure length") auto

declare forEachLine.simps [simp del]

definition WritePrefix :: "string \<Rightarrow> string \<Rightarrow> writer \<Rightarrow> writer" where
  "WritePrefix stamp prefixComputed f = f\<lparr>wr_buffer := wr_buffer f @ stamp @ prefixComputed\<rparr>"

text \<open>\<open>Flush\<close>; \<open>disk h\<close> tells whether a write to the file \<open>h\<close> succeeds.\<close>

definition wr_Flush :: "(nat \<Rightarrow> bool) \<Rightarrow> writer \<Rightarrow> io_error option \<times> writer" where
  "wr_Flush disk f =
     (let result = wr_buffer f; f = f\<lparr>wr_buffer := [], wr_hooked := wr_hooked f @ [result]\<rparr> in
      case wr_stream f of
        NilInterface \<Rightarrow> (None, f)
      | FileWriter None \<Rightarrow> (Some ErrInvalid, f)
      | FileWriter (Some h) \<Rightarrow>
          if disk h then (None, f\<lparr>wr_written := wr_written f @ [(h, result)]\<rparr>) else (Some ErrIO, f))"

text \<open>One call of \<open>out\<close> in \<open>Write\<close>, with the error so far.\<close>

definition write_piece :: "(nat \<Rightarrow> bool) \<Rightarrow> string \<Rightarrow> string \<Rightarrow> string \<times> bool \<Rightarrow> io_error option \<times> writer \<Rightarrow> io_error option \<times> writer" where
  "write_piece disk stamp pfx piece ef =
     (let (data, isEnd) = piece; (err, f) = ef;
          f = (if wr_buffer f = [] then WritePrefix stamp pfx f else f);
          f = f\<lparr>wr_buffer := wr_buffer f @ data\<rparr>
      in if isEnd then wr_Flush disk f else (err, f))"

definition wr_Write :: "(nat \<Rightarrow> bool) \<Rightarrow> string \<Rightarrow> string \<Rightarrow> string \<Rightarrow> writer \<Rightarrow> nat \<times> io_error option \<times> writer" where
  "wr_Write disk stamp pfx input f =
     (let (pieces, n) = forEachLine input in (n, fold (write_piece disk stamp pfx) pieces (None, f)))"

section \<open>Loggers\<close>

record logger =
  lg_Handles :: "nat option list"
  lg_Paths :: "string list"
  lg_Opened :: u8
  lg_Timestamp :: string
  lg_Namespace :: string
  lg_PfxWidth :: int
  lg_prefixComputed :: string
  lg_fmt :: "writer option list"

definition defaultLogger :: logger where
  "defaultLogger = \<lparr>lg_Handles = [Some 1, Some 2], lg_Paths = [[], []], lg_Opened = 0, lg_Timestamp = [], lg_Namespace = [],
     lg_PfxWidth = 0, lg_prefixComputed = [], lg_fmt = [None, None]\<rparr>"

text \<open>The prefix of a namespace; slicing out of range panics (\<open>None\<close>).\<close>

definition compute_prefix :: "string \<Rightarrow> int \<Rightarrow> string option" where
  "compute_prefix ns width =
     (let trimmed =
        (if width = 0 then Some ns
         else let limit = width + 3 in
           (if int (length ns) > limit
            then if 0 \<le> width then Some (''...'' @ drop (length ns - nat width) ns) else None
            else Some ns))
      in map_option (\<lambda>p. (if width \<noteq> 0 \<and> int (length p) < width + 3
                          then p @ replicate (nat (width + 3) - length p) (CHR '' '') else p) @ '' | '') trimmed)"

definition fork_namespace :: "string \<Rightarrow> string \<Rightarrow> string" where
  "fork_namespace old ns = (if ns = [] then old else if old \<noteq> [] then old @ ''/'' @ ns else ns)"

definition lg_Fork :: "logger \<Rightarrow> string \<Rightarrow> logger option" where
  "lg_Fork l ns =
     (let r = \<lparr>lg_Handles = lg_Handles l, lg_Paths = lg_Paths l, lg_Opened = 0, lg_Timestamp = lg_Timestamp l,
               lg_Namespace = fork_namespace (lg_Namespace l) ns, lg_PfxWidth = lg_PfxWidth l,
               lg_prefixComputed = (if ns = [] then lg_prefixComputed l else []), lg_fmt = [None, None]\<rparr>
      in if lg_Namespace r \<noteq> []
         then map_option (\<lambda>p. r\<lparr>lg_prefixComputed := p\<rparr>) (compute_prefix (lg_Namespace r) (lg_PfxWidth r))
         else Some r)"

definition getFormatter :: "logger \<Rightarrow> stream \<Rightarrow> (writer \<times> logger) option" where
  "getFormatter l str =
     (if str < length (lg_fmt l)
      then (case lg_fmt l ! str of
              Some w \<Rightarrow> Some (w, l)
            | None \<Rightarrow> let w = createWriter (lg_Handles l ! str) str in Some (w, l\<lparr>lg_fmt := (lg_fmt l)[str := Some w]\<rparr>))
      else None)"

definition flush_fmt :: "(nat \<Rightarrow> bool) \<Rightarrow> logger \<Rightarrow> logger" where
  "flush_fmt disk l = l\<lparr>lg_fmt := map (map_option (\<lambda>w. snd (wr_Flush disk w))) (lg_fmt l)\<rparr>"

text \<open>\<open>Close\<close>: the handles it closes, those with their bit in \<open>Opened\<close>.\<close>

definition lg_Close :: "(nat \<Rightarrow> bool) \<Rightarrow> logger \<Rightarrow> nat list \<times> logger" where
  "lg_Close disk l =
     (let own = (\<lambda>i. i < length (lg_Handles l) \<and> lg_Handles l ! i \<noteq> None \<and> drop_bit i (lg_Opened l) AND 1 \<noteq> 0);
          closed = map (\<lambda>i. the (lg_Handles l ! i)) (filter own [0..<length (lg_Handles l)])
      in (closed, (flush_fmt disk l)\<lparr>lg_Handles := map (\<lambda>i. if own i then None else lg_Handles l ! i) [0..<length (lg_Handles l)],
                     lg_Opened := 0\<rparr>))"

record clog_options =
  lo_Output :: string
  lo_Error :: string
  lo_LogTime :: string
  lo_LogName :: string
  lo_PfxWidth :: int

datatype new_logger = NewLogger logger | NewFails "nat list" | NewPanics

text \<open>The width \<open>New\<close> settles on, and the opening of one of its streams.\<close>

definition new_width :: "logger \<Rightarrow> clog_options \<Rightarrow> int" where
  "new_width prev opts =
     (if lo_PfxWidth opts \<noteq> 0 then lo_PfxWidth opts
      else if lg_PfxWidth prev \<noteq> 0 then lg_PfxWidth prev
      else max 10 (int (length (lg_Namespace prev))))"

definition open_stream :: "(string \<Rightarrow> nat option) \<Rightarrow> stream \<Rightarrow> string \<Rightarrow> logger \<Rightarrow> logger option" where
  "open_stream open str path r =
     map_option (\<lambda>h. r\<lparr>lg_Paths := (lg_Paths r)[str := path], lg_Handles := (lg_Handles r)[str := Some h],
                       lg_Opened := lg_Opened r OR push_bit str 1\<rparr>) (open path)"

definition clog_New :: "(nat \<Rightarrow> bool) \<Rightarrow> (string \<Rightarrow> nat option) \<Rightarrow> logger option \<Rightarrow> clog_options \<Rightarrow> new_logger" where
  "clog_New disk open prev opts =
     (let prev = (case prev of Some l \<Rightarrow> l | None \<Rightarrow> defaultLogger); width = new_width prev opts in
      case lg_Fork prev (lo_LogName opts) of
        None \<Rightarrow> NewPanics
      | Some r \<Rightarrow>
          (case (if lo_Output opts = [] then Some r
                 else if lo_Output opts = ''null'' then Some (r\<lparr>lg_Handles := (lg_Handles r)[StreamStdout := None]\<rparr>)
                 else open_stream open StreamStdout (lo_Output opts) r) of
             None \<Rightarrow> NewFails (fst (lg_Close disk r))
           | Some r \<Rightarrow>
               (case (if lo_Error opts = [] then Some r
                      else if lo_Error opts = ''null'' then Some (r\<lparr>lg_Handles := (lg_Handles r)[StreamStderr := None]\<rparr>)
                      else if lo_Error opts = ''merge''
                      then Some (r\<lparr>lg_Handles := (lg_Handles r)[StreamStderr := lg_Handles r ! StreamStdout]\<rparr>)
                      else open_stream open StreamStderr (lo_Error opts) r) of
                  None \<Rightarrow> NewFails (fst (lg_Close disk r))
                | Some r \<Rightarrow>
                    NewLogger (r\<lparr>lg_Timestamp := (if lo_LogTime opts \<noteq> [] then lo_LogTime opts else lg_Timestamp r),
                                lg_PfxWidth := width\<rparr>))))"

section \<open>Reading back\<close>

text \<open>
  \<open>tailFileN\<close>: the lines the third-party scanner yields from the end of the file, an error other
  than the end of the file being \<open>None\<close>; a negative number of lines panics when the slice is made.
\<close>

definition tailFileN :: "string list \<Rightarrow> bool \<Rightarrow> nat \<Rightarrow> string list option" where
  "tailFileN backwards ioerror numLines =
     (if ioerror \<and> length backwards < numLines then None else Some (rev (take numLines backwards)))"

definition lg_Tail :: "(string \<Rightarrow> (string list \<times> bool) option) \<Rightarrow> logger \<Rightarrow> nat \<Rightarrow> stream \<Rightarrow> string list option" where
  "lg_Tail scan l numLines str =
     (let path = lg_Paths l ! str in
      if path = [] then Some []
      else case scan path of None \<Rightarrow> None | Some (backwards, ioerror) \<Rightarrow> tailFileN backwards ioerror numLines)"

section \<open>Writing character by character\<close>

abbreviation nl :: char where "nl \<equiv> CHR ''\<newline>''"

text \<open>The reference: a writer that sees one character at a time.\<close>

definition write_char :: "(nat \<Rightarrow> bool) \<Rightarrow> string \<Rightarrow> char \<Rightarrow> writer \<Rightarrow> writer" where
  "write_char disk pfx c f =
     (let f = (if wr_buffer f = [] then f\<lparr>wr_buffer := pfx\<rparr> else f); f = f\<lparr>wr_buffer := wr_buffer f @ [c]\<rparr>
      in if c = nl then snd (wr_Flush disk f) else f)"

lemma forEachLine_nil [simp]: "forEachLine [] = ([], 0)"
  by (simp add: forEachLine.simps)

lemma forEachLine_partial: "p \<noteq> [] \<Longrightarrow> nl \<notin> set p \<Longrightarrow> forEachLine p = ([(p, False)], 0)"
  using IndexByte_None [of p nl] by (simp add: forEachLine.simps)

lemma forEachLine_line:
  assumes "nl \<notin> set l"
  shows "forEachLine (l @ nl # p) = ((l @ [nl], True) # fst (forEachLine p), Suc (length l) + snd (forEachLine p))"
proof -
  have "IndexByte (l @ nl # p) nl = Some (length l)" using assms by (induction l) auto
  then show ?thesis by (subst forEachLine.simps) (simp add: case_prod_beta)
qed

text \<open>Every input is lines and a rest.\<close>

lemma lines_induct [case_names rest line]:
  assumes "\<And>p. nl \<notin> set p \<Longrightarrow> P p" and "\<And>l p. nl \<notin> set l \<Longrightarrow> P p \<Longrightarrow> P (l @ nl # p)"
  shows "P p"
proof (induction p rule: length_induct)
  case (1 p)
  show ?case
  proof (cases "nl \<in> set p")
    case True
    then obtain l q where "p = l @ nl # q" "nl \<notin> set l" by (metis split_list_first)
    with 1 assms(2) show ?thesis by simp
  qed (rule assms(1))
qed

lemma write_chars:
  assumes "nl \<notin> set d" and "d \<noteq> []"
  shows "fold (write_char disk pfx) d f = f\<lparr>wr_buffer := (if wr_buffer f = [] then pfx else wr_buffer f) @ d\<rparr>"
  using assms
proof (induction d rule: rev_induct)
  case (snoc c d)
  then show ?case by (cases "d = []") (auto simp: write_char_def Let_def)
qed simp

lemma write_line:
  assumes "nl \<notin> set l"
  shows "fold (write_char disk pfx) (l @ [nl]) f
    = snd (wr_Flush disk (f\<lparr>wr_buffer := (if wr_buffer f = [] then pfx else wr_buffer f) @ l @ [nl]\<rparr>))"
proof (cases "l = []")
  case False
  with write_chars [OF assms False, of disk pfx f] show ?thesis by (simp add: write_char_def Let_def)
qed (simp add: write_char_def Let_def)

lemma Write_chars:
  "snd (fold (write_piece disk stamp pfx) (fst (forEachLine p)) ef) = fold (write_char disk (stamp @ pfx)) p (snd ef)"
proof (induction p arbitrary: ef rule: lines_induct)
  case (rest p)
  show ?case
  proof (cases "p = []")
    case False
    with rest show ?thesis
      by (cases ef) (auto simp: forEachLine_partial write_chars write_piece_def WritePrefix_def Let_def)
  qed simp
next
  case (line l p)
  have "snd (write_piece disk stamp pfx (l @ [nl], True) ef) = fold (write_char disk (stamp @ pfx)) (l @ [nl]) (snd ef)"
    unfolding write_line [OF line(1)] by (cases ef) (auto simp: write_piece_def WritePrefix_def Let_def)
  then show ?case using line(2) [of "write_piece disk stamp pfx (l @ [nl], True) ef"]
    by (simp add: forEachLine_line [OF line(1)])
qed

lemma wr_Write_chars: "snd (snd (wr_Write disk stamp pfx input f)) = fold (write_char disk (stamp @ pfx)) input f"
  using Write_chars [of disk stamp pfx input "(None, f)"] by (simp add: wr_Write_def case_prod_beta)

section \<open>Properties\<close>

text \<open>
  C38. What reaches the file and the hooks does not depend on how a program chops up its output: any
  sequence of writes leaves the formatter as a single write of the same text does.
\<close>

theorem chunking_irrelevant:
  "fold (\<lambda>chunk f. snd (snd (wr_Write disk stamp pfx chunk f))) chunks f
   = snd (snd (wr_Write disk stamp pfx (concat chunks) f))"
  unfolding wr_Write_chars by (induction chunks arbitrary: f) auto

text \<open>
  A formatter writes whole lines, each with the prefix of its logger in front and once, in
  order; the unfinished rest waits in its buffer.
\<close>

theorem formatter_writes_prefixed_lines:
  assumes "\<forall>l \<in> set lines. nl \<notin> set l" and "nl \<notin> set rest" and "disk h" and "f = createWriter (Some h) kind"
  shows "wr_written (snd (snd (wr_Write disk stamp pfx (concat (map (\<lambda>l. l @ [nl]) lines) @ rest) f)))
      = map (\<lambda>l. (h, stamp @ pfx @ l @ [nl])) lines
    \<and> wr_buffer (snd (snd (wr_Write disk stamp pfx (concat (map (\<lambda>l. l @ [nl]) lines) @ rest) f)))
      = (if rest = [] then [] else stamp @ pfx @ rest)"
proof -
  have step: "fold (write_char disk (stamp @ pfx)) (l @ [nl]) g
      = g\<lparr>wr_hooked := wr_hooked g @ [stamp @ pfx @ l @ [nl]], wr_written := wr_written g @ [(h, stamp @ pfx @ l @ [nl])]\<rparr>"
    if "nl \<notin> set l" "wr_buffer g = []" "wr_stream g = FileWriter (Some h)" for l g
    unfolding write_line [OF that(1)] using that(2,3) assms(3) by (simp add: wr_Flush_def Let_def)
  have many: "wr_buffer g' = [] \<and> wr_stream g' = FileWriter (Some h)
      \<and> wr_written g' = wr_written g @ map (\<lambda>l. (h, stamp @ pfx @ l @ [nl])) lines"
    if "\<forall>l \<in> set lines. nl \<notin> set l" "wr_buffer g = []" "wr_stream g = FileWriter (Some h)"
      "g' = fold (write_char disk (stamp @ pfx)) (concat (map (\<lambda>l. l @ [nl]) lines)) g" for lines g g'
    using that
  proof (induction lines arbitrary: g)
    case (Cons l lines)
    define g1 where "g1 = fold (write_char disk (stamp @ pfx)) (l @ [nl]) g"
    have "wr_buffer g1 = []" "wr_stream g1 = FileWriter (Some h)"
      "wr_written g1 = wr_written g @ [(h, stamp @ pfx @ l @ [nl])]"
      using Cons.prems step [of l g] by (auto simp: g1_def)
    moreover have "g' = fold (write_char disk (stamp @ pfx)) (concat (map (\<lambda>l. l @ [nl]) lines)) g1"
      using Cons.prems(4) by (simp add: g1_def)
    ultimately show ?case using Cons.IH [of g1] Cons.prems(1) by simp
  qed simp
  define g where "g = fold (write_char disk (stamp @ pfx)) (concat (map (\<lambda>l. l @ [nl]) lines)) f"
  have g: "wr_buffer g = []" "wr_written g = map (\<lambda>l. (h, stamp @ pfx @ l @ [nl])) lines"
    using many [OF assms(1) _ _ g_def] assms(4) by (auto simp: createWriter_def)
  show ?thesis
  proof (cases "rest = []")
    case True
    with g show ?thesis by (simp add: wr_Write_chars flip: g_def)
  next
    case False
    with g write_chars [OF assms(2) False, of disk "stamp @ pfx" g] show ?thesis
      by (simp add: wr_Write_chars flip: g_def)
  qed
qed

theorem formatter_writes_prefixed_lines_witness:
  "wr_written (snd (snd (wr_Write (\<lambda>_. True) [] ''job | '' (''a'' @ [nl] @ ''b'' @ [nl] @ ''c'') (createWriter (Some 3) 0))))
     = [(3, ''job | a'' @ [nl]), (3, ''job | b'' @ [nl])]"
  using formatter_writes_prefixed_lines [of "[''a'', ''b'']" "''c''" "\<lambda>_. True" 3 "createWriter (Some 3) 0" 0 "[]" "''job | ''"]
  by simp

text \<open>
  The count a formatter returns is short for every write that does not end a line, with no
  error: it counts the bytes up to the last newline. A caller that keeps the contract of
  \<open>io.Writer\<close>, such as the copier of a child's output, takes this as a failed write.
\<close>

lemma forEachLine_count:
  "snd (forEachLine p) = length p - length (takeWhile (\<lambda>c. c \<noteq> nl) (rev p))"
proof (induction p rule: lines_induct)
  case (rest p)
  then have "takeWhile (\<lambda>c. c \<noteq> nl) (rev p) = rev p" by (intro takeWhile_eq_all_conv [THEN iffD2]) auto
  then have "length (takeWhile (\<lambda>c. c \<noteq> nl) (rev p)) = length p" by (metis length_rev)
  with rest show ?case by (cases "p = []") (simp_all add: forEachLine_partial)
next
  case (line l p)
  have "length (takeWhile (\<lambda>c. c \<noteq> nl) (rev p)) \<le> length p" using length_takeWhile_le [of _ "rev p"] by simp
  moreover have "takeWhile (\<lambda>c. c \<noteq> nl) (rev (l @ nl # p)) = takeWhile (\<lambda>c. c \<noteq> nl) (rev p)"
  proof (cases "nl \<in> set p")
    case True
    then show ?thesis by (simp add: takeWhile_append1)
  next
    case False
    then have "\<forall>x \<in> set (rev p). x \<noteq> nl" by auto
    then have "takeWhile (\<lambda>c. c \<noteq> nl) (rev p) = rev p" by (rule takeWhile_eq_all_conv [THEN iffD2])
    with takeWhile_append_hit [of "rev p" "\<lambda>c. c \<noteq> nl" nl "rev l"] \<open>\<forall>x \<in> set (rev p). x \<noteq> nl\<close>
    show ?thesis by (metis append.assoc append_Cons append_Nil rev.simps(2) rev_append)
  qed
  ultimately show ?case using line(2) by (simp add: forEachLine_line [OF line(1)])
qed

lemma write_no_error:
  assumes "disk h" and "wr_stream (snd ef) = FileWriter (Some h)" and "fst ef = None"
  shows "fst (fold (write_piece disk stamp pfx) pieces ef) = None"
  using assms(2,3)
proof (induction pieces arbitrary: ef)
  case (Cons x pieces)
  have "wr_stream (snd (write_piece disk stamp pfx x ef)) = FileWriter (Some h)" "fst (write_piece disk stamp pfx x ef) = None"
    using Cons.prems assms(1) by (cases ef; auto simp: write_piece_def WritePrefix_def wr_Flush_def Let_def split: prod.splits)+
  with Cons.IH show ?case by simp
qed simp

theorem partial_line_is_short_write:
  assumes "disk h" and "wr_stream f = FileWriter (Some h)" and "wr_Write disk stamp pfx input f = (n, err, f')"
  shows "err = None \<and> (n = length input \<longleftrightarrow> input = [] \<or> last input = nl)"
proof
  show "err = None"
    using write_no_error [where disk = disk and h = h and ef = "(None, f)", OF assms(1), of stamp pfx "fst (forEachLine input)"] assms(2,3)
    by (simp add: wr_Write_def case_prod_beta)
  have n: "n = length input - length (takeWhile (\<lambda>c. c \<noteq> nl) (rev input))"
    using assms(3) by (simp add: wr_Write_def case_prod_beta forEachLine_count)
  show "n = length input \<longleftrightarrow> input = [] \<or> last input = nl"
    unfolding n by (cases input rule: rev_cases) auto
qed

theorem partial_line_is_short_write_witness:
  "fst (wr_Write (\<lambda>_. True) [] ''job | '' ''50%'' (createWriter (Some 3) 0)) \<noteq> length ''50%''"
proof -
  obtain n err f' where r: "wr_Write (\<lambda>_. True) [] ''job | '' ''50%'' (createWriter (Some 3) 0) = (n, err, f')" by (metis prod_cases3)
  with partial_line_is_short_write [OF _ _ r, of 3] show ?thesis by (simp add: createWriter_def)
qed

text \<open>
  The output \<open>null\<close>, documented to discard, fails instead: the nil file becomes a writer that is
  not the nil interface, and every complete line written through it returns an error.
\<close>

theorem null_output_fails:
  assumes "clog_New disk open prev opts = NewLogger l" and "lo_Output opts = ''null''" and "getFormatter l StreamStdout = Some (w, l')"
    and "length (lg_Handles (case prev of Some p \<Rightarrow> p | None \<Rightarrow> defaultLogger)) = 2" and "nl \<notin> set line"
  shows "fst (snd (wr_Write disk stamp pfx (line @ [nl]) w)) = Some ErrInvalid"
proof -
  obtain r where r: "lg_Fork (case prev of Some p \<Rightarrow> p | None \<Rightarrow> defaultLogger) (lo_LogName opts) = Some r"
    using assms(1) by (auto simp: clog_New_def Let_def split: option.splits)
  have "length (lg_Handles r) = 2" "lg_fmt r = [None, None]"
    using r assms(4) by (auto simp: lg_Fork_def Let_def split: if_splits option.splits)
  then have "lg_Handles l ! StreamStdout = None \<and> lg_fmt l = [None, None]"
    using assms(1,2) r by (auto simp: clog_New_def Let_def open_stream_def StreamStdout_def StreamStderr_def
        split: option.splits if_splits)
  then have "w = createWriter None 0"
    using assms(3) by (auto simp: getFormatter_def Let_def StreamStdout_def)
  then show ?thesis
    using forEachLine_line [OF assms(5), of "[]"]
    by (simp add: wr_Write_def write_piece_def WritePrefix_def wr_Flush_def createWriter_def Let_def)
qed

theorem null_output_fails_witness:
  "\<exists>l w l'. clog_New (\<lambda>_. True) (\<lambda>_. None) None \<lparr>lo_Output = ''null'', lo_Error = ''null'', lo_LogTime = [], lo_LogName = ''job'', lo_PfxWidth = 0\<rparr> = NewLogger l
     \<and> getFormatter l StreamStdout = Some (w, l') \<and> fst (snd (wr_Write (\<lambda>_. True) [] [] (''hello'' @ [nl]) w)) = Some ErrInvalid"
proof -
  let ?o = "\<lparr>lo_Output = ''null'', lo_Error = ''null'', lo_LogTime = [], lo_LogName = ''job'', lo_PfxWidth = 0\<rparr>"
  obtain l w l' where l: "clog_New (\<lambda>_. True) (\<lambda>_. None) None ?o = NewLogger l" "getFormatter l StreamStdout = Some (w, l')"
    by (simp add: clog_New_def lg_Fork_def defaultLogger_def fork_namespace_def compute_prefix_def StreamStdout_def StreamStderr_def
        getFormatter_def Let_def)
  have "fst (snd (wr_Write (\<lambda>_. True) [] [] (''hello'' @ [nl]) w)) = Some ErrInvalid"
    by (rule null_output_fails [OF l(1) _ l(2)]) (simp_all add: defaultLogger_def)
  with l show ?thesis by blast
qed

text \<open>
  With a positive prefix width, forking a logger under a label gives a prefix of exactly that
  width plus six for every namespace, however long, ending in the separator; the child's namespace
  is the parent's with the label appended.
\<close>

theorem fork_prefix_width:
  assumes "0 < lg_PfxWidth l" and "ns \<noteq> []"
  shows "\<exists>r. lg_Fork l ns = Some r \<and> int (length (lg_prefixComputed r)) = lg_PfxWidth l + 6
    \<and> HasSuffix (lg_prefixComputed r) '' | '' \<and> lg_Namespace r = fork_namespace (lg_Namespace l) ns"
proof -
  have ne: "fork_namespace (lg_Namespace l) ns \<noteq> []" using assms(2) by (simp add: fork_namespace_def)
  have "\<exists>p. compute_prefix n (lg_PfxWidth l) = Some p \<and> int (length p) = lg_PfxWidth l + 6 \<and> HasSuffix p '' | ''" for n
    using assms(1) unfolding compute_prefix_def HasSuffix_def suffix_def by (auto simp: Let_def)
  then show ?thesis using ne by (fastforce simp: lg_Fork_def Let_def)
qed

theorem fork_prefix_width_witness:
  "\<exists>r. lg_Fork (defaultLogger\<lparr>lg_PfxWidth := 10, lg_Namespace := ''deploy/production''\<rparr>) ''build'' = Some r
     \<and> length (lg_prefixComputed r) = 16"
  using fork_prefix_width [of "defaultLogger\<lparr>lg_PfxWidth := 10, lg_Namespace := ''deploy/production''\<rparr>" "''build''"] by auto

text \<open>
  A file is closed by the logger that opened it and once: a fork, which shares the handles,
  closes none, and a second \<open>Close\<close> of any logger closes nothing more.
\<close>

theorem handles_closed_once:
  "(lg_Fork l ns = Some r \<longrightarrow> fst (lg_Close disk r) = []) \<and> fst (lg_Close disk (snd (lg_Close disk l))) = []"
  by (auto simp: lg_Close_def lg_Fork_def Let_def split: if_splits option.splits)

theorem handles_closed_once_witness:
  "\<exists>r. lg_Fork (defaultLogger\<lparr>lg_Opened := 3\<rparr>) ''x'' = Some r \<and> fst (lg_Close (\<lambda>_. True) (defaultLogger\<lparr>lg_Opened := 3\<rparr>)) = [1, 2]
     \<and> fst (lg_Close (\<lambda>_. True) r) = []"
proof -
  obtain r where r: "lg_Fork (defaultLogger\<lparr>lg_Opened := 3\<rparr>) ''x'' = Some r"
    by (simp add: lg_Fork_def defaultLogger_def fork_namespace_def compute_prefix_def)
  with handles_closed_once [of "defaultLogger\<lparr>lg_Opened := 3\<rparr>" "''x''" r "\<lambda>_. True"] show ?thesis
    by (auto simp: lg_Close_def defaultLogger_def)
qed

section \<open>Writing through a logger\<close>

definition lg_Stdout :: "logger \<Rightarrow> (writer \<times> logger) option" where
  "lg_Stdout l = getFormatter l StreamStdout"

definition lg_Stderr :: "logger \<Rightarrow> (writer \<times> logger) option" where
  "lg_Stderr l = getFormatter l StreamStderr"

text \<open>\<open>Printf\<close> of the text \<open>formatted\<close>: one write to the formatter, with the newline.\<close>

definition lg_Printf :: "(nat \<Rightarrow> bool) \<Rightarrow> string \<Rightarrow> string \<Rightarrow> logger \<Rightarrow> (nat \<times> io_error option \<times> logger) option" where
  "lg_Printf disk stamp formatted l =
     (case getFormatter l StreamStdout of
        None \<Rightarrow> None
      | Some (w, l) \<Rightarrow>
          (case wr_Write disk stamp (lg_prefixComputed l) (formatted @ [CHR ''\<newline>'']) w of
             (n, err, w) \<Rightarrow> Some (n, err, l\<lparr>lg_fmt := (lg_fmt l)[StreamStdout := Some w]\<rparr>)))"

text \<open>\<open>Sync\<close>: the handles it syncs.\<close>

definition lg_Sync :: "logger \<Rightarrow> nat list" where
  "lg_Sync l = concat (map (\<lambda>h. case h of None \<Rightarrow> [] | Some f \<Rightarrow> [f]) (lg_Handles l))"

text \<open>
  \<open>WithContext\<close> over pointers to loggers, \<open>p0\<close> the default one: what the context holds, and whether
  the logger is now closed with it.
\<close>

definition lg_WithContext :: "nat \<Rightarrow> nat \<Rightarrow> nat option \<Rightarrow> nat option \<times> bool" where
  "lg_WithContext p0 logger held =
     (if (case held of None \<Rightarrow> p0 | Some p \<Rightarrow> p) = logger then (held, False) else (Some logger, True))"

text \<open>
  A line that is printed is written at once, behind what the stream's formatter still held, and with
  the stamp and the prefix if it held nothing; and the formatter holds nothing after it.
\<close>

lemma forEachLine_one:
  assumes "CHR ''\<newline>'' \<notin> set s"
  shows "forEachLine (s @ [CHR ''\<newline>'']) = ([(s @ [CHR ''\<newline>''], True)], Suc (length s))"
proof -
  have "IndexByte (s @ [CHR ''\<newline>'']) (CHR ''\<newline>'') = Some (length s)"
    using assms by (induction s) auto
  then show ?thesis by (simp add: forEachLine.simps [of "s @ [CHR ''\<newline>'']"] forEachLine.simps [of "[]"])
qed

theorem printf_written:
  assumes "lg_Stdout l = Some (w, l1)" and "CHR ''\<newline>'' \<notin> set s" and "wr_stream w = FileWriter (Some h)" and "disk h"
    and "length (lg_fmt l) = 2"
  shows "\<exists>l2 w2. lg_Printf disk stamp s l = Some (Suc (length s), None, l2) \<and> lg_Stdout l2 = Some (w2, l2)
    \<and> wr_written w2 = wr_written w @ [(h, (if wr_buffer w = [] then stamp @ lg_prefixComputed l else wr_buffer w) @ s @ [CHR ''\<newline>''])]
    \<and> wr_buffer w2 = []"
proof -
  have g: "getFormatter l StreamStdout = Some (w, l1)" "length (lg_fmt l1) = 2" "lg_prefixComputed l1 = lg_prefixComputed l"
    using assms(1,5) by (auto simp: lg_Stdout_def getFormatter_def Let_def split: if_splits option.splits)
  let ?pre = "if wr_buffer w = [] then stamp @ lg_prefixComputed l else wr_buffer w"
  let ?w = "w\<lparr>wr_buffer := [], wr_hooked := wr_hooked w @ [?pre @ s @ [CHR ''\<newline>'']],
    wr_written := wr_written w @ [(h, ?pre @ s @ [CHR ''\<newline>''])]\<rparr>"
  let ?l = "l1\<lparr>lg_fmt := (lg_fmt l1)[StreamStdout := Some ?w]\<rparr>"
  have "wr_Write disk stamp (lg_prefixComputed l1) (s @ [CHR ''\<newline>'']) w = (Suc (length s), None, ?w)"
    using assms(3,4) by (simp add: wr_Write_def forEachLine_one [OF assms(2)] write_piece_def wr_Flush_def WritePrefix_def g(3) Let_def)
  then have "lg_Printf disk stamp s l = Some (Suc (length s), None, ?l)" by (simp add: lg_Printf_def g(1))
  moreover have "lg_Stdout ?l = Some (?w, ?l)" using g(2) by (simp add: lg_Stdout_def getFormatter_def StreamStdout_def)
  moreover have "wr_written ?w = wr_written w @ [(h, ?pre @ s @ [CHR ''\<newline>''])]" "wr_buffer ?w = []" by simp_all
  ultimately show ?thesis by blast
qed

end
