(* ===== verification/Whiteboard.thy ===== *)
theory Whiteboard
  imports Sync_Map Go_Strings
begin

text \<open>
  \<open>pkg/task/whiteboard.go\<close>: the key-value store a task tree shares. A \<open>Whiteboard\<close> is a pointer to
  a map and a prefix; forks share the map. The maps live in a heap, so that the sharing is
  explicit. Values are kept as JSON text: \<open>json.Marshal\<close> and \<open>json.Unmarshal\<close> at the caller's type
  are the arguments \<open>marshal\<close> (\<open>None\<close>: the process exits by \<open>log.Fatal\<close>) and \<open>unmarshal\<close>.
\<close>

record wb_heap =
  wb_next :: nat
  wb_maps :: "nat \<Rightarrow> string \<Rightarrow> string option"

record whiteboard =
  wb_data :: "nat option"
  wb_prefix :: string

datatype 'v wb_result = WbValue 'v | WbNotFound | FieldNotFound | WbDecodeError

definition wb_Get :: "(string \<Rightarrow> 'v option) \<Rightarrow> wb_heap \<Rightarrow> whiteboard \<Rightarrow> string \<Rightarrow> 'v wb_result" where
  "wb_Get unmarshal h w key =
     (case wb_data w of
        None \<Rightarrow> WbNotFound
      | Some d \<Rightarrow>
          (case sm_Load (wb_maps h d) (wb_prefix w @ key) of
             None \<Rightarrow> FieldNotFound
           | Some msg \<Rightarrow> (case unmarshal msg of None \<Rightarrow> WbDecodeError | Some v \<Rightarrow> WbValue v)))"

definition wb_Set :: "('v \<Rightarrow> string option) \<Rightarrow> wb_heap \<Rightarrow> whiteboard \<Rightarrow> string \<Rightarrow> 'v \<Rightarrow> wb_heap option" where
  "wb_Set marshal h w key v =
     (case wb_data w of
        None \<Rightarrow> Some h
      | Some d \<Rightarrow>
          (case marshal v of
             None \<Rightarrow> None
           | Some msg \<Rightarrow> Some (h\<lparr>wb_maps := (wb_maps h)(d := sm_Store (wb_maps h d) (wb_prefix w @ key) msg)\<rparr>)))"

definition wb_Clear :: "wb_heap \<Rightarrow> whiteboard \<Rightarrow> wb_heap" where
  "wb_Clear h w =
     (case wb_data w of
        None \<Rightarrow> h
      | Some d \<Rightarrow>
          h\<lparr>wb_maps := (wb_maps h)(d := sm_DeleteIf (wb_maps h d) (\<lambda>k. HasPrefix k (wb_prefix w)))\<rparr>)"

definition wb_Fork :: "whiteboard \<Rightarrow> string \<Rightarrow> whiteboard" where
  "wb_Fork w key =
     (if key = [] \<or> wb_data w = None then w
      else \<lparr>wb_data = wb_data w, wb_prefix = wb_prefix w @ key @ ''.''\<rparr>)"

definition NewWhiteboard :: "wb_heap \<Rightarrow> wb_heap \<times> whiteboard" where
  "NewWhiteboard h =
     (h\<lparr>wb_next := Suc (wb_next h), wb_maps := (wb_maps h)(wb_next h := (\<lambda>_. None))\<rparr>,
      \<lparr>wb_data = Some (wb_next h), wb_prefix = []\<rparr>)"

text \<open>The whiteboard of a context, a new one where the context carries none.\<close>

definition WhiteboardFromContext :: "wb_heap \<Rightarrow> whiteboard option \<Rightarrow> wb_heap \<times> whiteboard" where
  "WhiteboardFromContext h value = (case value of Some w \<Rightarrow> (h, w) | None \<Rightarrow> NewWhiteboard h)"

lemmas wb_ops = wb_Get_def wb_Set_def wb_Clear_def wb_Fork_def

section \<open>Lemmas\<close>

lemma HasPrefix_append [simp]: "HasPrefix (p @ s) p"
  by (simp add: HasPrefix_def)

lemma HasPrefix_iff: "HasPrefix s p \<longleftrightarrow> (\<exists>t. s = p @ t)"
  by (simp add: HasPrefix_def prefix_def)

text \<open>Prefixes of labels without a dot keep their keys apart.\<close>

lemma fork_keys_differ:
  assumes "a \<noteq> b" and "CHR ''.'' \<notin> set a" and "CHR ''.'' \<notin> set b"
  shows "p @ a @ ''.'' @ k \<noteq> p @ b @ ''.'' @ l"
proof
  assume "p @ a @ ''.'' @ k = p @ b @ ''.'' @ l"
  then have "str_cut CHR ''.'' (a @ CHR ''.'' # k) = str_cut CHR ''.'' (b @ CHR ''.'' # l)" by simp
  with assms show False by simp
qed

section \<open>Properties\<close>

text \<open>
  A field set on a whiteboard is read back with its value, and no other key of the shared map
  changes.
\<close>

theorem whiteboard_set_get:
  assumes "wb_data w = Some d" and "marshal v = Some msg" and "unmarshal msg = Some v"
  shows "\<exists>h'. wb_Set marshal h w key v = Some h' \<and> wb_Get unmarshal h' w key = WbValue v
    \<and> (\<forall>e k. (e, k) \<noteq> (d, wb_prefix w @ key) \<longrightarrow> sm_Load (wb_maps h' e) k = sm_Load (wb_maps h e) k)"
  using assms by (simp add: wb_ops sm_laws)

text \<open>
  C40. Two subtasks with different labels, neither containing a dot, cannot see each other's fields:
  whatever one sets or clears on its fork of the whiteboard, every read of the other's fork gives
  what it gave before; and a reader of the whiteboard they were forked from finds a subtask's
  field under \<open>label.key\<close>.
\<close>

theorem forks_isolated:
  assumes "a \<noteq> b" and "CHR ''.'' \<notin> set a" and "CHR ''.'' \<notin> set b" and "a \<noteq> []" and "b \<noteq> []"
    and "wb_data w = Some d" and "wb_Set marshal h (wb_Fork w a) key v = Some h'"
  shows "wb_Get unmarshal h' (wb_Fork w b) k = wb_Get unmarshal h (wb_Fork w b) k
    \<and> wb_Get unmarshal (wb_Clear h (wb_Fork w a)) (wb_Fork w b) k = wb_Get unmarshal h (wb_Fork w b) k
    \<and> wb_Get unmarshal h' w (a @ ''.'' @ key) = wb_Get unmarshal h' (wb_Fork w a) key"
proof -
  have ne: "wb_prefix w @ b @ ''.'' @ k \<noteq> wb_prefix w @ a @ ''.'' @ l" for l
    using fork_keys_differ [OF assms(1-3)] by metis
  then have "\<not> HasPrefix (wb_prefix w @ b @ ''.'' @ k) (wb_prefix w @ a @ ''.'')"
    unfolding HasPrefix_iff by simp
  moreover obtain msg where "marshal v = Some msg" using assms(4,6,7) by (auto simp: wb_ops split: option.splits)
  ultimately show ?thesis
    using assms(4-7) ne [of key] by (auto simp: wb_ops sm_laws)
qed

theorem forks_isolated_witness:
  "\<exists>h'. wb_Set Some (fst (NewWhiteboard \<lparr>wb_next = 0, wb_maps = \<lambda>_ _. None\<rparr>))
          (wb_Fork \<lparr>wb_data = Some 0, wb_prefix = []\<rparr> ''build'') ''out'' ''1'' = Some h'
     \<and> wb_Get Some h' (wb_Fork \<lparr>wb_data = Some 0, wb_prefix = []\<rparr> ''test'') ''out'' = FieldNotFound
     \<and> wb_Get Some h' \<lparr>wb_data = Some 0, wb_prefix = []\<rparr> ''build.out'' = WbValue ''1''"
proof -
  let ?w = "\<lparr>wb_data = Some 0, wb_prefix = []\<rparr>" and ?h = "fst (NewWhiteboard \<lparr>wb_next = 0, wb_maps = \<lambda>_ _. None\<rparr>)"
  obtain h' where h': "wb_Set Some ?h (wb_Fork ?w ''build'') ''out'' ''1'' = Some h'"
    "wb_Get Some h' (wb_Fork ?w ''build'') ''out'' = WbValue ''1''"
    by (simp add: wb_ops sm_laws)
  moreover have "wb_Get Some ?h (wb_Fork ?w ''test'') ''out'' = FieldNotFound"
    by (simp add: wb_ops NewWhiteboard_def sm_Load_def)
  ultimately show ?thesis
    using forks_isolated [of "''build''" "''test''" ?w 0 Some ?h "''out''" "''1''" h' Some "''out''"] by simp
qed

text \<open>
  \<open>Clear\<close> removes exactly the fields of the whiteboard and of what was forked from it: a key is
  gone when it extends the prefix and untouched otherwise, so on an unforked whiteboard it empties
  the map.
\<close>

theorem clear_exact:
  assumes "wb_data w = Some d"
  shows "wb_Get unmarshal (wb_Clear h w) w key = FieldNotFound
    \<and> wb_Get unmarshal (wb_Clear h w) (wb_Fork w label) key = FieldNotFound
    \<and> (\<forall>e k. e \<noteq> d \<or> \<not> HasPrefix k (wb_prefix w) \<longrightarrow> sm_Load (wb_maps (wb_Clear h w) e) k = sm_Load (wb_maps h e) k)"
  using assms by (simp add: wb_ops sm_laws)

theorem clear_exact_witness:
  "wb_Get Some (wb_Clear \<lparr>wb_next = 1, wb_maps = \<lambda>_ _. Some ''1''\<rparr> \<lparr>wb_data = Some 0, wb_prefix = ''a.''\<rparr>)
     (wb_Fork \<lparr>wb_data = Some 0, wb_prefix = ''a.''\<rparr> ''b'') ''k'' = FieldNotFound
   \<and> wb_maps (wb_Clear \<lparr>wb_next = 1, wb_maps = \<lambda>_ _. Some ''1''\<rparr> \<lparr>wb_data = Some 0, wb_prefix = ''a.''\<rparr>) 0 ''b.k'' = Some ''1''"
  using clear_exact [of "\<lparr>wb_data = Some 0, wb_prefix = ''a.''\<rparr>" 0 Some "\<lparr>wb_next = 1, wb_maps = \<lambda>_ _. Some ''1''\<rparr>" "''k''" "''b''"]
  by (simp add: HasPrefix_def sm_Load_def)

theorem whiteboard_set_get_witness:
  "\<exists>h'. wb_Set Some \<lparr>wb_next = 1, wb_maps = \<lambda>_ _. None\<rparr> \<lparr>wb_data = Some 0, wb_prefix = ''a.''\<rparr> ''k'' ''1'' = Some h'
     \<and> wb_Get Some h' \<lparr>wb_data = Some 0, wb_prefix = ''a.''\<rparr> ''k'' = WbValue ''1''"
  using whiteboard_set_get [of "\<lparr>wb_data = Some 0, wb_prefix = ''a.''\<rparr>" 0 Some "''1''" "''1''" Some] by fastforce

end
