(* ===== verification/Work.thy ===== *)
theory Work
  imports Retry Clog Whiteboard
begin

text \<open>
  \<open>pkg/task/work.go\<close>, \<open>work_base.go\<close>: the worker interface, what the constructors share, and
  \<open>NewWorker\<close>, which makes the worker a task's options ask for. The context values a worker hands
  down (logger, whiteboard) are a record; the cancellation state is the \<open>ctx\<close> of its own.
\<close>

section \<open>The base of a worker\<close>

record ctx_values =
  cv_logger :: "logger option"
  cv_whiteboard :: "whiteboard option"

definition FromContext :: "ctx_values \<Rightarrow> logger" where
  "FromContext c = (case cv_logger c of Some l \<Rightarrow> l | None \<Rightarrow> defaultLogger)"

text \<open>\<open>automarshal.ID.Label\<close>.\<close>

definition ID_Label :: "string \<Rightarrow> string \<Rightarrow> string" where
  "ID_Label ident kind = (if ident = [] then kind else ident)"

record worker_base =
  wkb_ctx :: ctx_values
  wkb_logger :: logger
  wkb_whiteboard :: whiteboard

definition newWorkerBase :: "wb_heap \<Rightarrow> ctx_values \<Rightarrow> string \<Rightarrow> (wb_heap \<times> worker_base) option" where
  "newWorkerBase h c tasklabel =
     (let lg = FromContext c; (h, wb) = WhiteboardFromContext h (cv_whiteboard c);
          label = (if tasklabel = lg_Namespace lg then [] else tasklabel)
      in case lg_Fork lg label of
           None \<Rightarrow> None
         | Some l \<Rightarrow>
             Some (h, \<lparr>wkb_ctx = (if label \<noteq> [] then c\<lparr>cv_logger := Some l\<rparr> else c), wkb_logger = l,
                       wkb_whiteboard = (if label \<noteq> [] then wb_Fork wb label else wb)\<rparr>))"

definition wkb_Namespace :: "worker_base \<Rightarrow> string" where
  "wkb_Namespace b = lg_Namespace (wkb_logger b)"

text \<open>
  The namespace of a worker is its parent's with its task's label appended, except that a task
  whose label is the whole namespace of its parent adds nothing.
\<close>

theorem worker_namespace:
  assumes "newWorkerBase h c label = Some (h', b)"
  shows "wkb_Namespace b =
     (if label = lg_Namespace (FromContext c) then label else fork_namespace (lg_Namespace (FromContext c)) label)"
  using assms unfolding newWorkerBase_def Let_def wkb_Namespace_def lg_Fork_def
  by (auto simp: fork_namespace_def split: prod.splits option.splits if_splits)

theorem worker_namespace_witness:
  "\<exists>h' b. newWorkerBase \<lparr>wb_next = 0, wb_maps = \<lambda>_ _. None\<rparr>
      \<lparr>cv_logger = Some (defaultLogger\<lparr>lg_Namespace := ''site''\<rparr>), cv_whiteboard = None\<rparr> ''build'' = Some (h', b)
    \<and> wkb_Namespace b = ''site/build''"
proof -
  obtain h' b where r: "newWorkerBase \<lparr>wb_next = 0, wb_maps = \<lambda>_ _. None\<rparr>
      \<lparr>cv_logger = Some (defaultLogger\<lparr>lg_Namespace := ''site''\<rparr>), cv_whiteboard = None\<rparr> ''build'' = Some (h', b)"
    by (simp add: newWorkerBase_def FromContext_def WhiteboardFromContext_def NewWhiteboard_def lg_Fork_def fork_namespace_def
        compute_prefix_def defaultLogger_def Let_def)
  from worker_namespace [OF r] r show ?thesis by (simp add: FromContext_def fork_namespace_def)
qed

text \<open>
  Whiteboards are not shared along the task tree. No constructor puts the worker's whiteboard
  into the context it hands down, so when a worker was made without one, a subtask launched from
  its context gets a map of its own: nothing the subtask sets can be read through the whiteboard
  of its parent, under any key.
\<close>

theorem whiteboard_not_inherited:
  assumes "newWorkerBase h c label = Some (h1, b)" and "cv_whiteboard c = None"
    and "newWorkerBase h1 (wkb_ctx b) sublabel = Some (h2, sub)"
    and "wb_Set marshal h2 (wkb_whiteboard sub) key v = Some h3"
  shows "wb_Get unmarshal h3 (wkb_whiteboard b) key' = wb_Get unmarshal h2 (wkb_whiteboard b) key'"
proof -
  have "wb_data (wkb_whiteboard b) = Some (wb_next h) \<and> wb_next h1 = Suc (wb_next h) \<and> cv_whiteboard (wkb_ctx b) = None"
    using assms(1,2) by (auto simp: newWorkerBase_def Let_def WhiteboardFromContext_def NewWhiteboard_def wb_Fork_def
        split: option.splits if_splits)
  moreover from this have "wb_data (wkb_whiteboard sub) = Some (wb_next h1)"
    using assms(3) by (auto simp: newWorkerBase_def Let_def WhiteboardFromContext_def NewWhiteboard_def wb_Fork_def
        split: option.splits if_splits)
  ultimately show ?thesis
    using assms(4) by (auto simp: wb_Set_def wb_Get_def split: option.splits)
qed

theorem whiteboard_not_inherited_witness:
  "\<exists>h1 b h2 sub h3. newWorkerBase \<lparr>wb_next = 0, wb_maps = \<lambda>_ _. None\<rparr> \<lparr>cv_logger = None, cv_whiteboard = None\<rparr> ''job'' = Some (h1, b)
     \<and> newWorkerBase h1 (wkb_ctx b) ''fetch'' = Some (h2, sub) \<and> wb_Set Some h2 (wkb_whiteboard sub) ''status'' ''200'' = Some h3
     \<and> wb_Get Some h3 (wkb_whiteboard b) ''fetch.status'' = FieldNotFound"
proof -
  obtain h1 b where 1: "newWorkerBase \<lparr>wb_next = 0, wb_maps = \<lambda>_ _. None\<rparr> \<lparr>cv_logger = None, cv_whiteboard = None\<rparr> ''job'' = Some (h1, b)"
    by (simp add: newWorkerBase_def FromContext_def WhiteboardFromContext_def NewWhiteboard_def lg_Fork_def fork_namespace_def
        compute_prefix_def defaultLogger_def Let_def)
  obtain h2 sub h3 where 2: "newWorkerBase h1 (wkb_ctx b) ''fetch'' = Some (h2, sub)"
    "wb_Set Some h2 (wkb_whiteboard sub) ''status'' ''200'' = Some h3" "wb_Get Some h2 (wkb_whiteboard b) ''fetch.status'' = FieldNotFound"
    using 1 by (auto simp: newWorkerBase_def FromContext_def WhiteboardFromContext_def NewWhiteboard_def lg_Fork_def fork_namespace_def
        compute_prefix_def defaultLogger_def Let_def wb_ops sm_Load_def)
  from whiteboard_not_inherited [OF 1 _ 2(1,2), of Some "''fetch.status''"] 1 2 show ?thesis by auto
qed

section \<open>The worker interface\<close>

text \<open>
  What a job relies on: the context of a worker that is over stays over, with the same status,
  whatever its goroutines and its callers do; a worker over is not revived by \<open>Stop\<close> or \<open>Kill\<close>.
\<close>

locale worker_interface =
  fixes act :: "'ev \<Rightarrow> 'w \<Rightarrow> 'w option"
    and stop :: "'w \<Rightarrow> 'w" and kill :: "'w \<Rightarrow> 'w"
    and over :: "'w \<Rightarrow> bool" and status :: "'w \<Rightarrow> gerr"
  assumes act_over: "act ev w = Some w' \<Longrightarrow> over w \<Longrightarrow> over w' \<and> status w' = status w"
    and stop_over: "over w \<Longrightarrow> over (stop w) \<and> status (stop w) = status w"
    and kill_over: "over w \<Longrightarrow> over (kill w) \<and> status (kill w) = status w"
begin

lemma exec_over: "exec act evs w = Some w' \<Longrightarrow> over w \<Longrightarrow> over w' \<and> status w' = status w"
proof (induction evs arbitrary: w)
  case (Cons ev evs)
  then obtain w1 where "act ev w = Some w1" "exec act evs w1 = Some w'" by (auto split: option.splits)
  with Cons act_over show ?case by metis
qed simp

end

lemma must_Status_ctx: "w_ctx w' = w_ctx w \<Longrightarrow> w_ctx w \<noteq> None \<Longrightarrow> must_Status w' = must_Status w"
  by (simp add: must_Status_def)

lemma must_Stop_ctx: "w_ctx w \<noteq> None \<Longrightarrow> must_Stop w = w"
  by (simp add: must_Stop_def)

lemma must_Kill_ctx: "w_ctx w = Some c \<Longrightarrow> w_ctx (must_Kill w) = Some c"
  by (simp add: must_Kill_def must_cancel_def)

interpretation must_worker: worker_interface must_act must_Stop must_Kill "\<lambda>w :: must. w_ctx w \<noteq> None" must_Status
proof unfold_locales
  fix ev and w w' :: must assume a: "must_act ev w = Some w'" "w_ctx w \<noteq> None"
  then obtain c where "w_ctx w = Some c" "w_ctx w' = Some c" using must_act_cause by blast
  then show "w_ctx w' \<noteq> None \<and> must_Status w' = must_Status w" by (simp add: must_Status_def)
next
  fix w :: must assume "w_ctx w \<noteq> None"
  then show "w_ctx (must_Stop w) \<noteq> None \<and> must_Status (must_Stop w) = must_Status w" by (simp add: must_Stop_ctx)
next
  fix w :: must assume "w_ctx w \<noteq> None"
  then show "w_ctx (must_Kill w) \<noteq> None \<and> must_Status (must_Kill w) = must_Status w"
    using must_Kill_ctx by (auto simp: must_Status_def)
qed

lemma disableRetries_ctx: "r_ctx (disableRetries r) = r_ctx r"
  by (simp add: disableRetries_def Let_def split: prod.splits)

interpretation retry_worker: worker_interface retry_act retry_Stop retry_Kill "\<lambda>r :: retry. r_ctx r \<noteq> None" retry_Status
proof unfold_locales
  fix ev and r r' :: retry assume a: "retry_act ev r = Some r'" "r_ctx r \<noteq> None"
  then obtain c where "r_ctx r = Some c" "r_ctx r' = Some c" using retry_act_ctx by blast
  then show "r_ctx r' \<noteq> None \<and> retry_Status r' = retry_Status r" by (simp add: retry_Status_def)
next
  fix r :: retry assume "r_ctx r \<noteq> None"
  then show "r_ctx (retry_Stop r) \<noteq> None \<and> retry_Status (retry_Stop r) = retry_Status r"
    by (simp add: retry_Stop_def Let_def disableRetries_ctx retry_Status_def)
next
  fix r :: retry assume "r_ctx r \<noteq> None"
  then show "r_ctx (retry_Kill r) \<noteq> None \<and> retry_Status (retry_Kill r) = retry_Status r"
    by (simp add: retry_Kill_def Let_def disableRetries_ctx retry_Status_def)
qed

section \<open>NewWorker\<close>

datatype worker = MustWorker must | RetryWorker retry

datatype worker_ev = MustEv must_ev | RetryEv retry_ev

text \<open>\<open>configure\<close> is the task's \<open>Configure\<close> method, the identity for a task without one.\<close>

definition NewWorker :: "(options \<Rightarrow> options) \<Rightarrow> ctx \<Rightarrow> options \<Rightarrow> int \<Rightarrow> worker" where
  "NewWorker configure base opts now =
     (let opts = configure (WithDefaults opts) in
      if RetryDisabled opts then MustWorker (newMustWorker base opts now) else RetryWorker (newRetryWorker base opts now))"

fun worker_act :: "worker_ev \<Rightarrow> worker \<Rightarrow> worker option" where
  "worker_act (MustEv ev) (MustWorker w) = map_option MustWorker (must_act ev w)"
| "worker_act (RetryEv ev) (RetryWorker r) = map_option RetryWorker (retry_act ev r)"
| "worker_act ev w = None"

fun worker_Stop :: "worker \<Rightarrow> worker" where
  "worker_Stop (MustWorker w) = MustWorker (must_Stop w)"
| "worker_Stop (RetryWorker r) = RetryWorker (retry_Stop r)"

fun worker_Kill :: "worker \<Rightarrow> worker" where
  "worker_Kill (MustWorker w) = MustWorker (must_Kill w)"
| "worker_Kill (RetryWorker r) = RetryWorker (retry_Kill r)"

fun worker_ctx :: "worker \<Rightarrow> ctx" where
  "worker_ctx (MustWorker w) = w_ctx w"
| "worker_ctx (RetryWorker r) = r_ctx r"

fun worker_Status :: "worker \<Rightarrow> gerr" where
  "worker_Status (MustWorker w) = must_Status w"
| "worker_Status (RetryWorker r) = retry_Status r"

fun worker_Inspect :: "worker \<Rightarrow> report" where
  "worker_Inspect (MustWorker w) = must_Inspect w"
| "worker_Inspect (RetryWorker r) = retry_Inspect r"

fun worker_Traverse :: "worker \<Rightarrow> nat list" where
  "worker_Traverse (MustWorker w) = must_Traverse w"
| "worker_Traverse (RetryWorker r) = retry_Traverse r"

interpretation any_worker: worker_interface worker_act worker_Stop worker_Kill "\<lambda>w. worker_ctx w \<noteq> None" worker_Status
proof unfold_locales
  fix ev w w' assume "worker_act ev w = Some w'" "worker_ctx w \<noteq> None"
  then show "worker_ctx w' \<noteq> None \<and> worker_Status w' = worker_Status w"
    by (cases ev; cases w) (auto dest: must_worker.act_over retry_worker.act_over)
next
  fix w assume "worker_ctx w \<noteq> None"
  then show "worker_ctx (worker_Stop w) \<noteq> None \<and> worker_Status (worker_Stop w) = worker_Status w"
    by (cases w) (use must_worker.stop_over retry_worker.stop_over in simp_all)
next
  fix w assume "worker_ctx w \<noteq> None"
  then show "worker_ctx (worker_Kill w) \<noteq> None \<and> worker_Status (worker_Kill w) = worker_Status w"
    by (cases w) (use must_worker.kill_over retry_worker.kill_over in simp_all)
qed

section \<open>Handing a whiteboard down\<close>

definition wb_WithContext :: "ctx_values \<Rightarrow> whiteboard \<Rightarrow> ctx_values" where
  "wb_WithContext c w = c\<lparr>cv_whiteboard := Some w\<rparr>"

text \<open>A worker made under a context with a whiteboard shares it, under its label, and makes no other.\<close>

lemma whiteboard_handed_down:
  assumes "newWorkerBase h (wb_WithContext c w) label = Some (h', b)"
  shows "h' = h" and "wkb_whiteboard b = w \<or> wkb_whiteboard b = wb_Fork w label"
  using assms by (auto simp: newWorkerBase_def wb_WithContext_def WhiteboardFromContext_def Let_def split: option.splits if_splits)

end
