(* ===== verification/Job.thy ===== *)
theory Job
  imports Work Triggers
begin

text \<open>
  \<open>pkg/job/job.go\<close>: a job and the worker that runs it. Workers are pointers into the list of all
  workers the job has made. The mutex is explicit: \<open>stopLocked\<close> holds it until the worker it has
  told to stop is over, so a pending stop blocks every other operation that takes the lock.
  \<open>Join\<close> reads the worker under the lock, then once more without it.
\<close>

record job =
  jb_ID :: string
  jb_ctx :: ctx
  jb_opts :: options
  jb_configure :: "options \<Rightarrow> options"
  jb_workers :: "worker list"
  jb_worker :: "nat option"
  jb_stopping :: "(nat \<times> bool) option"
  jb_joining :: nat
  jb_now :: int
  jb_panic :: bool

definition new_job :: "string \<Rightarrow> (options \<Rightarrow> options) \<Rightarrow> options \<Rightarrow> int \<Rightarrow> job" where
  "new_job jid configure opts now =
     \<lparr>jb_ID = jid, jb_ctx = None, jb_opts = opts, jb_configure = configure, jb_workers = [], jb_worker = None,
      jb_stopping = None, jb_joining = 0, jb_now = now, jb_panic = False\<rparr>"

definition on_worker :: "job \<Rightarrow> nat \<Rightarrow> (worker \<Rightarrow> worker) \<Rightarrow> job" where
  "on_worker j i f = j\<lparr>jb_workers := (jb_workers j)[i := f (jb_workers j ! i)]\<rparr>"

text \<open>\<open>startLocked\<close>: the worker, and whether it is new.\<close>

definition startLocked :: "job \<Rightarrow> (nat \<times> bool) \<times> job" where
  "startLocked j =
     (case jb_worker j of
        Some i \<Rightarrow> ((i, False), j)
      | None \<Rightarrow>
          let i = length (jb_workers j) in
          ((i, True), j\<lparr>jb_workers := jb_workers j @ [NewWorker (jb_configure j) (jb_ctx j) (jb_opts j) (jb_now j)],
                        jb_worker := Some i\<rparr>))"

text \<open>\<open>stopLocked\<close> up to its wait; \<open>restart\<close> is what the caller does behind it.\<close>

definition stopLocked :: "bool \<Rightarrow> job \<Rightarrow> job" where
  "stopLocked restart j =
     (case jb_worker j of
        None \<Rightarrow> if restart then snd (startLocked j) else j
      | Some i \<Rightarrow> (on_worker (j\<lparr>jb_worker := None\<rparr>) i worker_Stop)\<lparr>jb_stopping := Some (i, restart)\<rparr>)"

definition job_Kill :: "job \<Rightarrow> job" where
  "job_Kill j = (case jb_worker j of None \<Rightarrow> j | Some i \<Rightarrow> (on_worker j i worker_Kill)\<lparr>jb_worker := None\<rparr>)"

definition job_Status :: "job \<Rightarrow> gerr" where
  "job_Status j = (case jb_worker j of Some i \<Rightarrow> worker_Status (jb_workers j ! i) | None \<Rightarrow> StatusErr Idle)"

definition job_Traverse :: "job \<Rightarrow> nat list" where
  "job_Traverse j = (case jb_worker j of Some i \<Rightarrow> [i] | None \<Rightarrow> [])"

text \<open>What the select of \<open>Join\<close> may return for a caller with context \<open>c\<close>; \<open>None\<close> is the nil pointer.\<close>

definition Join_select :: "job \<Rightarrow> ctx \<Rightarrow> gerr option list option" where
  "Join_select j c =
     (case jb_worker j of
        None \<Rightarrow> None
      | Some i \<Rightarrow>
          Some ((if c \<noteq> None then [Cause c] else [])
                @ (if worker_ctx (jb_workers j ! i) \<noteq> None then [Cause (worker_ctx (jb_workers j ! i))] else [])))"

datatype job_ev =
    JStart
  | JStop
  | JRestart
  | JStopped
  | JKill
  | JJoinBegins
  | JJoinSelects ctx
  | JWorker nat worker_ev
  | JCancelled gerr

text \<open>\<open>JCancelled\<close> is the end of the job's context, under which each of its workers lives.\<close>

definition job_cancelled :: "gerr \<Rightarrow> worker \<Rightarrow> worker" where
  "job_cancelled c w =
     (case w of
        MustWorker m \<Rightarrow> (case must_act (ParentCancelled c) m of Some m' \<Rightarrow> MustWorker m' | None \<Rightarrow> w)
      | RetryWorker r \<Rightarrow> RetryWorker (r\<lparr>r_base := cancel_cause (r_base r) c, r_ctx := cancel_cause (r_ctx r) c,
           r_must := map_option (\<lambda>m. m\<lparr>w_ctx := cancel_cause (w_ctx m) c\<rparr>) (r_must r)\<rparr>))"

fun job_act :: "job_ev \<Rightarrow> job \<Rightarrow> job option" where
  "job_act JStart j = (if jb_stopping j = None then Some (snd (startLocked j)) else None)"
| "job_act JStop j = (if jb_stopping j = None then Some (stopLocked False j) else None)"
| "job_act JRestart j = (if jb_stopping j = None then Some (stopLocked True j) else None)"
| "job_act JStopped j =
     (case jb_stopping j of
        Some (i, restart) \<Rightarrow>
          if worker_ctx (jb_workers j ! i) \<noteq> None
          then let j = j\<lparr>jb_stopping := None\<rparr> in Some (if restart then snd (startLocked j) else j)
          else None
      | None \<Rightarrow> None)"
| "job_act JKill j = (if jb_stopping j = None then Some (job_Kill j) else None)"
| "job_act JJoinBegins j =
     (if jb_stopping j = None then Some (if jb_worker j = None then j else j\<lparr>jb_joining := jb_joining j + 1\<rparr>) else None)"
| "job_act (JJoinSelects c) j =
     (if jb_joining j = 0 then None
      else case Join_select j c of
        None \<Rightarrow> Some (j\<lparr>jb_panic := True\<rparr>)
      | Some results \<Rightarrow> if results = [] then None else Some (j\<lparr>jb_joining := jb_joining j - 1\<rparr>))"
| "job_act (JWorker i ev) j =
     (if i < length (jb_workers j)
      then map_option (\<lambda>w. j\<lparr>jb_workers := (jb_workers j)[i := w]\<rparr>) (worker_act ev (jb_workers j ! i))
      else None)"
| "job_act (JCancelled c) j =
     Some (j\<lparr>jb_ctx := cancel_cause (jb_ctx j) c, jb_workers := map (job_cancelled c) (jb_workers j)\<rparr>)"

lemmas job_ops = startLocked_def stopLocked_def job_Kill_def on_worker_def Let_def

section \<open>One worker at a time\<close>

definition accounted :: "job \<Rightarrow> bool" where
  "accounted j \<longleftrightarrow>
     (\<forall>i < length (jb_workers j). worker_ctx (jb_workers j ! i) = None \<longrightarrow>
        jb_worker j = Some i \<or> (\<exists>r. jb_stopping j = Some (i, r)))
     \<and> (\<forall>i. jb_worker j = Some i \<longrightarrow> i < length (jb_workers j) \<and> jb_stopping j = None)
     \<and> (\<forall>i r. jb_stopping j = Some (i, r) \<longrightarrow> i < length (jb_workers j))"

lemma accounted_start:
  assumes "accounted j" and "jb_stopping j = None"
  shows "accounted (snd (startLocked j))"
proof (cases "jb_worker j")
  case None
  then have "worker_ctx (jb_workers j ! i) \<noteq> None" if "i < length (jb_workers j)" for i
    using assms that unfolding accounted_def by fastforce
  with None assms(2) show ?thesis
    unfolding accounted_def startLocked_def by (simp add: Let_def nth_append less_Suc_eq)
qed (use assms in \<open>simp add: startLocked_def\<close>)

lemma accounted_stop:
  assumes "accounted j" and "jb_stopping j = None"
  shows "accounted (stopLocked r j)"
proof (cases "jb_worker j")
  case None
  then show ?thesis using accounted_start [OF assms] assms(1) by (simp add: stopLocked_def)
next
  case (Some i)
  with assms show ?thesis
    by (auto simp: accounted_def stopLocked_def on_worker_def nth_list_update split: if_splits)
qed

lemma accounted_stopped:
  assumes "accounted j" and "jb_stopping j = Some (i, r)" and "worker_ctx (jb_workers j ! i) \<noteq> None"
  shows "accounted (j\<lparr>jb_stopping := None\<rparr>)"
  using assms unfolding accounted_def by auto

lemma accounted_worker:
  assumes "accounted j" and "worker_act ev (jb_workers j ! i) = Some w" and "i < length (jb_workers j)"
  shows "accounted (j\<lparr>jb_workers := (jb_workers j)[i := w]\<rparr>)"
  using assms(1,3) any_worker.act_over [OF assms(2)] unfolding accounted_def
  by (auto simp: nth_list_update split: if_splits)

lemma job_cancelled_over: "worker_ctx w = Some x \<Longrightarrow> worker_ctx (job_cancelled c w) = Some x"
  by (cases w) (auto simp: job_cancelled_def cancel_cause_def)

lemma accounted_cancelled:
  assumes "accounted j"
  shows "accounted (j\<lparr>jb_ctx := x, jb_workers := map (job_cancelled c) (jb_workers j)\<rparr>)"
proof -
  have "worker_ctx (jb_workers j ! i) = None" if "worker_ctx (job_cancelled c (jb_workers j ! i)) = None" for i
    using that job_cancelled_over by (cases "worker_ctx (jb_workers j ! i)") auto
  with assms show ?thesis unfolding accounted_def by auto
qed

lemma accounted_keeps:
  assumes "ev \<noteq> JKill" and "job_act ev j = Some j'" and "accounted j"
  shows "accounted j'"
proof (cases ev)
  case JStart
  with assms(2) have "jb_stopping j = None" "j' = snd (startLocked j)" by (auto split: if_splits)
  with accounted_start [OF assms(3)] show ?thesis by simp
next
  case JStop
  with assms(2) have "jb_stopping j = None" "j' = stopLocked False j" by (auto split: if_splits)
  with accounted_stop [OF assms(3)] show ?thesis by simp
next
  case JRestart
  with assms(2) have "jb_stopping j = None" "j' = stopLocked True j" by (auto split: if_splits)
  with accounted_stop [OF assms(3)] show ?thesis by simp
next
  case JStopped
  then obtain i r where s: "jb_stopping j = Some (i, r)" "worker_ctx (jb_workers j ! i) \<noteq> None"
    using assms(2) by (simp split: option.splits prod.splits if_splits)
  note a = accounted_stopped [OF assms(3) s]
  have "j' = (if r then snd (startLocked (j\<lparr>jb_stopping := None\<rparr>)) else j\<lparr>jb_stopping := None\<rparr>)"
    using assms(2) JStopped s by (simp add: Let_def)
  then show ?thesis using accounted_start [OF a] a by simp
next
  case JJoinBegins
  with assms(2) have "j' = j \<or> j' = j\<lparr>jb_joining := jb_joining j + 1\<rparr>" by (simp split: if_splits)
  with assms(3) show ?thesis unfolding accounted_def by auto
next
  case (JJoinSelects c)
  with assms(2) have "j' = j\<lparr>jb_panic := True\<rparr> \<or> j' = j\<lparr>jb_joining := jb_joining j - 1\<rparr>"
    by (simp split: option.splits if_splits)
  with assms(3) show ?thesis unfolding accounted_def by auto
next
  case (JWorker i e)
  with assms(2) obtain w where "worker_act e (jb_workers j ! i) = Some w" "i < length (jb_workers j)"
    "j' = j\<lparr>jb_workers := (jb_workers j)[i := w]\<rparr>" by (auto split: if_splits)
  with accounted_worker [OF assms(3)] show ?thesis by simp
next
  case (JCancelled c)
  with assms(2) have "j' = j\<lparr>jb_ctx := cancel_cause (jb_ctx j) c, jb_workers := map (job_cancelled c) (jb_workers j)\<rparr>"
    by simp
  with accounted_cancelled [OF assms(3)] show ?thesis by simp
qed (use assms(1) in simp)

interpretation accounting: guarded_system job_act "\<lambda>ev. ev \<noteq> JKill" accounted
  by unfold_locales (rule accounted_keeps)

lemma accounted_new: "accounted (new_job jid configure opts now)"
  by (simp add: accounted_def new_job_def)

text \<open>
  A job that is never killed has at most one live worker. Whatever starts, stops and restarts
  it, and however its workers' goroutines run in between, a worker whose context is live is the
  current one or the one a pending stop waits for.
\<close>

theorem one_live_worker:
  assumes "exec job_act evs (new_job jid configure opts now) = Some j" and "JKill \<notin> set evs"
    and "i < length (jb_workers j)" and "k < length (jb_workers j)"
    and "worker_ctx (jb_workers j ! i) = None" and "worker_ctx (jb_workers j ! k) = None"
  shows "i = k"
proof -
  have "accounted j" by (rule accounting.exec_keeps [OF assms(1) _ accounted_new]) (use assms(2) in auto)
  with assms(3-6) show ?thesis unfolding accounted_def by (metis option.inject option.simps(3) prod.inject)
qed

text \<open>The examples below: a job with the default options, and one without retries.\<close>

definition once_opts :: options where
  "once_opts = zero_options\<lparr>RetryDisabled := True\<rparr>"

lemma NewWorker_once:
  "NewWorker id None once_opts 0 = MustWorker (newMustWorker None (WithDefaults once_opts) 0)"
  by (simp add: NewWorker_def once_opts_def WithDefaults_def Let_def)

lemma NewWorker_default:
  "NewWorker id None zero_options 0 = RetryWorker (newRetryWorker None (WithDefaults zero_options) 0)"
  by (simp add: NewWorker_def zero_options_def WithDefaults_def Let_def)

lemma once_stop_timeout: "StopTimeout (WithDefaults once_opts) = 5000000000"
  by (simp add: once_opts_def zero_options_def WithDefaults_def default_stop_def dur_IsPositive_def Second_def)

lemmas start_once = new_job_def startLocked_def stopLocked_def on_worker_def NewWorker_once newMustWorker_def WithCancelOrOk_def

definition restart_run :: "job_ev list" where
  "restart_run = [JStart, JRestart, JWorker 0 (MustEv (Tick 5000000000)), JWorker 0 (MustEv EnforceTimeout), JStopped]"

theorem one_live_worker_witness:
  "\<exists>j. exec job_act restart_run (new_job ''j'' id once_opts 0) = Some j \<and> length (jb_workers j) = 2
     \<and> worker_ctx (jb_workers j ! 1) = None \<and> worker_ctx (jb_workers j ! 0) \<noteq> None"
proof -
  obtain j where j: "exec job_act restart_run (new_job ''j'' id once_opts 0) = Some j" "length (jb_workers j) = 2"
    "worker_ctx (jb_workers j ! 1) = None"
    by (simp add: restart_run_def start_once must_ops once_stop_timeout dur_IsPositive_def After_ready cancelOrOk_Cancel_def
        cancel_cause_def)
  have "worker_ctx (jb_workers j ! 0) \<noteq> None"
    using one_live_worker [OF j(1), of 0 1] j(2,3) by (auto simp: restart_run_def)
  with j show ?thesis by blast
qed

text \<open>
  A job whose worker has finished is never started again by \<open>Start\<close>: the finished worker stays
  the current one, and however often a trigger starts the job, \<open>Start\<close> returns that worker and
  makes none. A job launched by a trigger runs once.
\<close>

theorem finished_job_stays_finished:
  assumes "jb_worker j = Some i" and "worker_ctx (jb_workers j ! i) \<noteq> None"
    and "exec job_act (replicate n JStart) j = Some j'"
  shows "j' = j \<and> startLocked j' = ((i, False), j')"
  using assms
proof (induction n arbitrary: j)
  case (Suc n)
  then have "jb_stopping j = None" "exec job_act (replicate n JStart) j = Some j'"
    by (auto simp: startLocked_def split: if_splits option.splits)
  with Suc show ?case by blast
qed (simp add: startLocked_def)

theorem finished_job_stays_finished_witness:
  "\<exists>j j'. exec job_act [JStart, JWorker 0 (MustEv CallRun), JWorker 0 (MustEv (LaunchReturns (Some None))), JWorker 0 (MustEv SelMinUptime),
        JWorker 0 (MustEv (SelExit statuses)), JWorker 0 (MustEv DoReturn)] (new_job ''j'' id once_opts 0) = Some j
     \<and> exec job_act (replicate 3 JStart) j = Some j' \<and> length (jb_workers j') = 1"
proof -
  have mu: "MinUptime (WithDefaults once_opts) = 0" "StartTimeout (WithDefaults once_opts) = 0" "MaxMemory (WithDefaults once_opts) = 0"
    by (simp_all add: once_opts_def zero_options_def WithDefaults_def dur_IsPositive_def)
  obtain j j' where j: "exec job_act [JStart, JWorker 0 (MustEv CallRun), JWorker 0 (MustEv (LaunchReturns (Some None))), JWorker 0 (MustEv SelMinUptime),
        JWorker 0 (MustEv (SelExit statuses)), JWorker 0 (MustEv DoReturn)] (new_job ''j'' id once_opts 0) = Some j"
    "jb_worker j = Some 0" "worker_ctx (jb_workers j ! 0) \<noteq> None" "length (jb_workers j) = 1"
    "exec job_act (replicate 3 JStart) j = Some j'"
    by (simp add: start_once must_ops mu dur_IsPositive_def After_ready exit_error_def cancelOrOk_Cancel_def cancel_cause_def numeral_3_eq_3)
  with finished_job_stays_finished [OF j(2,3,5)] show ?thesis by auto
qed

text \<open>
  A stop right after a start may wait for ever. Before the goroutine of \<open>Run\<close> has begun, the
  retrying worker has no attempt that could be stopped: \<open>Stop\<close> only disables the retries, \<open>Run\<close> then
  makes the first attempt, which nobody tells to stop, and the job keeps its lock until the task
  ends by itself.
\<close>

theorem stop_before_run_lost:
  "\<exists>j r m. exec job_act [JStart, JStop, JWorker 0 (RetryEv RCallRun), JWorker 0 (RetryEv (RInner CallRun))] (new_job ''j'' id zero_options 0) = Some j
     \<and> jb_stopping j = Some (0, False) \<and> jb_workers j = [RetryWorker r] \<and> r_ctx r = None \<and> r_must r = Some m
     \<and> w_pc m = InLaunch \<and> w_ctx m = None \<and> \<not> w_stopChannelUsed m"
  by (simp add: new_job_def startLocked_def stopLocked_def on_worker_def NewWorker_default newRetryWorker_def retry_Stop_def
      disableRetries_def unpackErrorState_def retryTickDead_def retry_attempt_def newMustWorker_def run_begin_def WithCancelOrOk_def Let_def)

text \<open>
  A kill may leave the task running. In the same moment \<open>Kill\<close> finds no attempt either; the job
  forgets the worker, whose \<open>Run\<close> goes on to launch the task, and a further start makes a second
  live worker: \<open>one_live_worker\<close> needs its hypothesis.
\<close>

theorem kill_leaves_task_running:
  "\<exists>j r m. exec job_act [JStart, JKill, JWorker 0 (RetryEv RCallRun), JWorker 0 (RetryEv (RInner CallRun)), JStart]
        (new_job ''j'' id zero_options 0) = Some j
     \<and> jb_worker j = Some 1 \<and> jb_workers j ! 0 = RetryWorker r \<and> r_ctx r = None \<and> r_must r = Some m
     \<and> w_pc m = InLaunch \<and> w_ctx m = None \<and> worker_ctx (jb_workers j ! 1) = None"
  by (simp add: new_job_def startLocked_def job_Kill_def on_worker_def NewWorker_default newRetryWorker_def retry_Kill_def
      disableRetries_def unpackErrorState_def retryTickDead_def retry_attempt_def newMustWorker_def run_begin_def WithCancelOrOk_def Let_def)

text \<open>
  \<open>Join\<close> can dereference nil: it reads the worker again without the lock for its select, when a
  kill or a stop may have set it to nil since the check.
\<close>

theorem join_races_with_kill:
  "\<exists>j. exec job_act [JStart, JJoinBegins, JKill, JJoinSelects None] (new_job ''j'' id once_opts 0) = Some j \<and> jb_panic j"
  by (simp add: start_once job_Kill_def Join_select_def)

section \<open>Readiness\<close>

text \<open>
  \<open>Ready\<close>: the launch trigger starts the job and waits for its worker, the drop trigger stops it;
  \<open>start\<close> and \<open>stop\<close> number the two callbacks. The result is the handles the end of the job's context
  removes.
\<close>

definition job_Ready :: "trigger option \<Rightarrow> trigger option \<Rightarrow> listening \<Rightarrow> remove_handle list \<times> listening" where
  "job_Ready onLaunch onDrop l =
     (let (r1, l) = (case onLaunch of None \<Rightarrow> ([], l) | Some t \<Rightarrow> trigger_Listen 0 t l);
          (r2, l) = (case onDrop of None \<Rightarrow> ([], l) | Some t \<Rightarrow> trigger_Listen 1 t l)
      in (r1 @ r2, l))"

record manifest =
  mf_ID :: string
  mf_MainID :: string
  mf_MainKind :: string
  mf_Launch :: "trigger option"
  mf_Drop :: "trigger option"
  mf_Options :: options
  mf_Logger :: clog_options

text \<open>
  \<open>SpawnAt\<close>: the logger options with their defaults and the label of the main task; \<open>None\<close> where
  the log files cannot be opened.
\<close>

definition manifest_log_options :: "string \<Rightarrow> manifest \<Rightarrow> clog_options" where
  "manifest_log_options logdir m =
     (let opts = mf_Logger m;
          opts = (if lo_LogName opts = [] then opts\<lparr>lo_LogName := mf_ID m\<rparr> else opts);
          opts = (if lo_Output opts = [] then opts\<lparr>lo_Output := logdir @ ''/'' @ mf_ID m @ ''.log''\<rparr> else opts)
      in if lo_Error opts = [] then opts\<lparr>lo_Error := logdir @ ''/'' @ mf_ID m @ ''.err''\<rparr> else opts)"

record spawned =
  sp_ID :: string
  sp_Options :: options
  sp_Logger :: logger
  sp_MainID :: string
  sp_Launch :: "trigger option"
  sp_Drop :: "trigger option"

definition SpawnAt :: "(nat \<Rightarrow> bool) \<Rightarrow> (string \<Rightarrow> nat option) \<Rightarrow> string \<Rightarrow> manifest \<Rightarrow> spawned option" where
  "SpawnAt disk openf logdir m =
     (case clog_New disk openf None (manifest_log_options logdir m) of
        NewLogger l \<Rightarrow>
          Some \<lparr>sp_ID = mf_ID m, sp_Options = mf_Options m, sp_Logger = l,
                sp_MainID = (if mf_MainID m = [] then mf_ID m else mf_MainID m),
                sp_Launch = mf_Launch m, sp_Drop = mf_Drop m\<rparr>
      | _ \<Rightarrow> None)"

text \<open>\<open>UnmarshalJSON\<close>, which is also \<open>Parse\<close>: the manifest, decoded over an empty one, and then spawned.\<close>

definition job_UnmarshalJSON :: "(nat \<Rightarrow> bool) \<Rightarrow> (string \<Rightarrow> nat option) \<Rightarrow> string \<Rightarrow> (string \<Rightarrow> manifest option) \<Rightarrow> string \<Rightarrow> spawned option" where
  "job_UnmarshalJSON disk openf logdir json data =
     (case json data of None \<Rightarrow> None | Some recipe \<Rightarrow> SpawnAt disk openf logdir recipe)"

text \<open>\<open>Parse\<close>, \<open>Spawn\<close> and \<open>Worker\<close>.\<close>

definition job_Parse :: "(nat \<Rightarrow> bool) \<Rightarrow> (string \<Rightarrow> nat option) \<Rightarrow> string \<Rightarrow> (string \<Rightarrow> manifest option) \<Rightarrow> string \<Rightarrow> spawned option" where
  "job_Parse disk openf logdir json data = job_UnmarshalJSON disk openf logdir json data"

definition manifest_Spawn :: "(nat \<Rightarrow> bool) \<Rightarrow> (string \<Rightarrow> nat option) \<Rightarrow> string \<Rightarrow> manifest \<Rightarrow> spawned option" where
  "manifest_Spawn disk openf logdir m = SpawnAt disk openf logdir m"

definition job_Worker :: "job \<Rightarrow> worker option" where
  "job_Worker j = map_option (\<lambda>i. jb_workers j ! i) (jb_worker j)"

end
