(* ===== verification/Database.thy ===== *)
theory Database
  imports Prelude "HOL-Library.AList"
begin

text \<open>
  \<open>pkg/session/db.go\<close>: collections of the session's database. Badger is a parameter: \<open>bg_Get\<close>,
  \<open>bg_Set\<close>, \<open>bg_Delete\<close> and \<open>bg_Iter\<close> (the items from a seek to a prefix on, as long as they have it)
  inside a transaction, and whether a commit succeeds. \<open>badger_laws\<close> says what its documentation
  promises of them when nothing fails. JSON is a parameter too. The result \<open>None\<close> of an operation is
  the end of the process, by \<open>log.Fatal\<close> or by the panic of \<open>lo.Must\<close>.
\<close>

section \<open>Badger\<close>

datatype bg_item = Found "string option" | KeyNotFound | GetFailed

record 'd badger =
  bg_Get :: "'d \<Rightarrow> string \<Rightarrow> bg_item"
  bg_Set :: "'d \<Rightarrow> string \<Rightarrow> string \<Rightarrow> 'd option"
  bg_Delete :: "'d \<Rightarrow> string \<Rightarrow> 'd option"
  bg_Iter :: "'d \<Rightarrow> string \<Rightarrow> (string \<times> string option) list"
  bg_Commit :: "'d \<Rightarrow> 'd \<Rightarrow> bool"

text \<open>\<open>DB.Update\<close>: the transaction's state is kept if it and the commit succeed. The flag is \<open>err == nil\<close>.\<close>

definition db_Update :: "'d badger \<Rightarrow> ('d \<Rightarrow> 'd option) \<Rightarrow> 'd \<Rightarrow> bool \<times> 'd" where
  "db_Update B f d = (case f d of None \<Rightarrow> (False, d) | Some d' \<Rightarrow> if bg_Commit B d d' then (True, d') else (False, d))"

definition Must0 :: "bool \<times> 'd \<Rightarrow> 'd option" where
  "Must0 r = (if fst r then Some (snd r) else None)"

section \<open>Serialization\<close>

datatype 'a payload = PString string | PBytes string | PJson 'a

text \<open>\<open>Encode\<close> ends its text with a newline.\<close>

definition marshal :: "('a \<Rightarrow> string option) \<Rightarrow> 'a payload \<Rightarrow> string option" where
  "marshal enc v =
     (case v of PString s \<Rightarrow> Some s | PBytes s \<Rightarrow> Some s | PJson x \<Rightarrow> map_option (\<lambda>s. s @ [CHR 0x0A]) (enc x))"

text \<open>\<open>unmarshal\<close> into a variable of the type of \<open>v\<close>.\<close>

definition unmarshal :: "(string \<Rightarrow> 'a option) \<Rightarrow> 'a payload \<Rightarrow> string \<Rightarrow> 'a payload option" where
  "unmarshal dec v b =
     (case v of PString _ \<Rightarrow> Some (PString b) | PBytes _ \<Rightarrow> Some (PBytes b) | PJson _ \<Rightarrow> map_option PJson (dec b))"

section \<open>Collections\<close>

text \<open>\<open>cl_key0\<close> and \<open>cl_val0\<close> are the zero values of the collection's types, which decide how they are
  serialized.\<close>

record ('k, 'v) collection =
  cl_Prefix :: string
  cl_key0 :: "'k payload"
  cl_val0 :: "'v payload"
  cl_enc_k :: "'k \<Rightarrow> string option"
  cl_dec_k :: "string \<Rightarrow> 'k option"
  cl_enc_v :: "'v \<Rightarrow> string option"
  cl_dec_v :: "string \<Rightarrow> 'v option"

definition col_Open :: "('k, 'v) collection \<Rightarrow> string \<Rightarrow> ('k, 'v) collection" where
  "col_Open c name = c\<lparr>cl_Prefix := name @ '':''\<rparr>"

definition MarshalKey :: "('k, 'v) collection \<Rightarrow> 'k payload \<Rightarrow> string option" where
  "MarshalKey c k = map_option ((@) (cl_Prefix c)) (marshal (cl_enc_k c) k)"

definition MarshalValue :: "('k, 'v) collection \<Rightarrow> 'v payload \<Rightarrow> string option" where
  "MarshalValue c v = marshal (cl_enc_v c) v"

definition UnmarshalKey :: "('k, 'v) collection \<Rightarrow> string \<Rightarrow> 'k payload option" where
  "UnmarshalKey c b =
     (if length b < length (cl_Prefix c) then None
      else unmarshal (cl_dec_k c) (cl_key0 c) (drop (length (cl_Prefix c)) b))"

definition UnmarshalValue :: "('k, 'v) collection \<Rightarrow> string \<Rightarrow> 'v payload option" where
  "UnmarshalValue c b = unmarshal (cl_dec_v c) (cl_val0 c) b"

definition col_Count :: "'d badger \<Rightarrow> ('k, 'v) collection \<Rightarrow> 'd \<Rightarrow> nat" where
  "col_Count B c d = length (bg_Iter B d (cl_Prefix c))"

text \<open>\<open>Range\<close>, whose callback also changes a state \<open>s\<close> of its own and stops the range with \<open>False\<close>. A value
  that cannot be read ends it, one that cannot be decoded is skipped.\<close>

fun range_items :: "('k, 'v) collection \<Rightarrow> ('k payload \<Rightarrow> 'v payload \<Rightarrow> 's \<Rightarrow> bool \<times> 's) \<Rightarrow> (string \<times> string option) list \<Rightarrow> 's \<Rightarrow> 's" where
  "range_items c f [] s = s"
| "range_items c f ((kb, vb) # items) s =
     (case UnmarshalKey c kb of
        None \<Rightarrow> range_items c f items s
      | Some key \<Rightarrow>
          (case vb of
             None \<Rightarrow> s
           | Some vb \<Rightarrow>
               (case UnmarshalValue c vb of
                  None \<Rightarrow> range_items c f items s
                | Some val \<Rightarrow> (case f key val s of (go_on, s') \<Rightarrow> if go_on then range_items c f items s' else s'))))"

definition col_Range :: "'d badger \<Rightarrow> ('k, 'v) collection \<Rightarrow> ('k payload \<Rightarrow> 'v payload \<Rightarrow> 's \<Rightarrow> bool \<times> 's) \<Rightarrow> 'd \<Rightarrow> 's \<Rightarrow> 's" where
  "col_Range B c f d s = range_items c f (bg_Iter B d (cl_Prefix c)) s"

definition col_Insert :: "'d badger \<Rightarrow> ('k, 'v) collection \<Rightarrow> 'k payload \<Rightarrow> 'v payload \<Rightarrow> 'd \<Rightarrow> (bool \<times> 'd) option" where
  "col_Insert B c key val d =
     (case (MarshalKey c key, MarshalValue c val) of
        (Some k, Some v) \<Rightarrow>
          map_option (Pair (bg_Get B d k = KeyNotFound))
            (Must0 (db_Update B (\<lambda>t. case bg_Get B t k of KeyNotFound \<Rightarrow> bg_Set B t k v | GetFailed \<Rightarrow> None | Found _ \<Rightarrow> Some t) d))
      | _ \<Rightarrow> None)"

definition col_Upsert :: "'d badger \<Rightarrow> ('k, 'v) collection \<Rightarrow> 'k payload \<Rightarrow> ('v payload option \<Rightarrow> 'v payload) \<Rightarrow> 'd \<Rightarrow> 'd option" where
  "col_Upsert B c key cb d =
     (case MarshalKey c key of
        None \<Rightarrow> None
      | Some k \<Rightarrow>
          let old = (case bg_Get B d k of Found (Some b) \<Rightarrow> UnmarshalValue c b | _ \<Rightarrow> None) in
          (case bg_Get B d k of
             GetFailed \<Rightarrow> None
           | Found _ \<Rightarrow>
               if old = None then Must0 (db_Update B Some d)
               else (case MarshalValue c (cb old) of None \<Rightarrow> None | Some v \<Rightarrow> Must0 (db_Update B (\<lambda>t. bg_Set B t k v) d))
           | KeyNotFound \<Rightarrow>
               (case MarshalValue c (cb None) of None \<Rightarrow> None | Some v \<Rightarrow> Must0 (db_Update B (\<lambda>t. bg_Set B t k v) d))))"

text \<open>The first result is the previous value, if there was one that could be decoded.\<close>

definition col_Replace :: "'d badger \<Rightarrow> ('k, 'v) collection \<Rightarrow> 'k payload \<Rightarrow> 'v payload \<Rightarrow> 'd \<Rightarrow> ('v payload option \<times> 'd) option" where
  "col_Replace B c key val d =
     (case (MarshalKey c key, MarshalValue c val) of
        (Some k, Some v) \<Rightarrow>
          map_option (Pair (case bg_Get B d k of Found (Some b) \<Rightarrow> UnmarshalValue c b | _ \<Rightarrow> None))
            (Must0 (db_Update B (\<lambda>t. case bg_Get B t k of GetFailed \<Rightarrow> None | _ \<Rightarrow> bg_Set B t k v) d))
      | _ \<Rightarrow> None)"

definition col_Delete :: "'d badger \<Rightarrow> ('k, 'v) collection \<Rightarrow> 'k payload \<Rightarrow> 'd \<Rightarrow> 'd option" where
  "col_Delete B c key d = map_option (\<lambda>k. snd (db_Update B (\<lambda>t. bg_Delete B t k) d)) (MarshalKey c key)"

definition col_Get :: "'d badger \<Rightarrow> ('k, 'v) collection \<Rightarrow> 'k payload \<Rightarrow> 'd \<Rightarrow> 'v payload option option" where
  "col_Get B c key d =
     map_option (\<lambda>k. case bg_Get B d k of Found (Some b) \<Rightarrow> UnmarshalValue c b | _ \<Rightarrow> None) (MarshalKey c key)"

definition col_Has :: "'d badger \<Rightarrow> ('k, 'v) collection \<Rightarrow> 'k payload \<Rightarrow> 'd \<Rightarrow> bool option" where
  "col_Has B c key d = map_option (\<lambda>k. case bg_Get B d k of Found _ \<Rightarrow> True | _ \<Rightarrow> False) (MarshalKey c key)"

definition col_Clear :: "'d badger \<Rightarrow> ('k, 'v) collection \<Rightarrow> 'd \<Rightarrow> 'd" where
  "col_Clear B c d =
     snd (db_Update B (\<lambda>t. fold (\<lambda>(k, _) t. Option.bind t (\<lambda>t. bg_Delete B t k)) (bg_Iter B t (cl_Prefix c)) (Some t)) d)"

section \<open>What is relied on\<close>

text \<open>Badger as documented, where no read, write or commit fails.\<close>

definition badger_laws :: "'d badger \<Rightarrow> bool" where
  "badger_laws B \<longleftrightarrow>
     (\<forall>d k v. \<exists>d'. bg_Set B d k v = Some d' \<and> bg_Get B d' = (bg_Get B d)(k := Found (Some v))) \<and>
     (\<forall>d k. \<exists>d'. bg_Delete B d k = Some d' \<and> bg_Get B d' = (bg_Get B d)(k := KeyNotFound)) \<and>
     (\<forall>d d'. bg_Commit B d d') \<and>
     (\<forall>d k. bg_Get B d k \<noteq> GetFailed \<and> bg_Get B d k \<noteq> Found None) \<and>
     (\<forall>d p. distinct (map fst (bg_Iter B d p)) \<and>
        (\<forall>k v. (k, v) \<in> set (bg_Iter B d p) \<longleftrightarrow> prefix p k \<and> bg_Get B d k = Found v))"

fun same_type :: "'a payload \<Rightarrow> 'a payload \<Rightarrow> bool" where
  "same_type (PString _) (PString _) = True"
| "same_type (PBytes _) (PBytes _) = True"
| "same_type (PJson _) (PJson _) = True"
| "same_type _ _ = False"

text \<open>The JSON values in \<open>G\<close> can be printed and are read back as they were.\<close>

definition codec_laws :: "'v set \<Rightarrow> ('k, 'v) collection \<Rightarrow> bool" where
  "codec_laws G c \<longleftrightarrow>
     (\<forall>x. \<exists>s. cl_enc_k c x = Some s \<and> cl_dec_k c (s @ [CHR 0x0A]) = Some x) \<and>
     (\<forall>x \<in> G. \<exists>s. cl_enc_v c x = Some s \<and> cl_dec_v c (s @ [CHR 0x0A]) = Some x)"

definition good_val :: "'v set \<Rightarrow> ('k, 'v) collection \<Rightarrow> 'v payload \<Rightarrow> bool" where
  "good_val G c v \<longleftrightarrow> same_type (cl_val0 c) v \<and> (case v of PJson x \<Rightarrow> x \<in> G | _ \<Rightarrow> True)"

lemma badger_Set: "badger_laws B \<Longrightarrow> \<exists>d'. bg_Set B d k v = Some d' \<and> bg_Get B d' = (bg_Get B d)(k := Found (Some v))"
  and badger_Delete: "badger_laws B \<Longrightarrow> \<exists>d'. bg_Delete B d k = Some d' \<and> bg_Get B d' = (bg_Get B d)(k := KeyNotFound)"
  and badger_Commit: "badger_laws B \<Longrightarrow> bg_Commit B d d'"
  and badger_Get: "badger_laws B \<Longrightarrow> bg_Get B d k = KeyNotFound \<or> (\<exists>v. bg_Get B d k = Found (Some v))"
  and badger_Iter: "badger_laws B \<Longrightarrow> (k, w) \<in> set (bg_Iter B d p) \<longleftrightarrow> prefix p k \<and> bg_Get B d k = Found w"
  and badger_Iter_distinct: "badger_laws B \<Longrightarrow> distinct (map fst (bg_Iter B d p))"
  unfolding badger_laws_def by (blast, blast, blast, metis bg_item.exhaust option.exhaust, blast, blast)

lemma payload_read:
  assumes "\<forall>x \<in> G. \<exists>s. enc x = Some s \<and> dec (s @ [CHR 0x0A]) = Some x" and "same_type z p"
    and "case p of PJson x \<Rightarrow> x \<in> G | _ \<Rightarrow> True"
  shows "\<exists>b. marshal enc p = Some b \<and> unmarshal dec z b = Some p"
proof (cases p)
  case (PJson x)
  obtain s where "enc x = Some s" "dec (s @ [CHR 0x0A]) = Some x" using assms(1,3) PJson by auto
  then show ?thesis using assms(2) PJson by (cases z) (simp_all add: marshal_def unmarshal_def)
qed (use assms(2) in \<open>cases z; simp add: marshal_def unmarshal_def\<close>)+

lemma marshal_read:
  assumes "codec_laws G c" and "same_type (cl_key0 c) k"
  shows "\<exists>b. MarshalKey c k = Some b \<and> prefix (cl_Prefix c) b \<and> UnmarshalKey c b = Some k"
proof -
  obtain b where "marshal (cl_enc_k c) k = Some b" "unmarshal (cl_dec_k c) (cl_key0 c) b = Some k"
    using payload_read [of UNIV "cl_enc_k c" "cl_dec_k c", OF _ assms(2)] assms(1)
    unfolding codec_laws_def by (cases k) auto
  then show ?thesis by (intro exI [of _ "cl_Prefix c @ b"]) (simp add: MarshalKey_def UnmarshalKey_def)
qed

lemma value_read:
  assumes "codec_laws G c" and "good_val G c v"
  shows "\<exists>b. MarshalValue c v = Some b \<and> UnmarshalValue c b = Some v"
  using payload_read [of G "cl_enc_v c" "cl_dec_v c" "cl_val0 c" v] assms
  unfolding codec_laws_def MarshalValue_def UnmarshalValue_def good_val_def by blast

section \<open>A collection is a map\<close>

definition col_map :: "'d badger \<Rightarrow> ('k, 'v) collection \<Rightarrow> 'd \<Rightarrow> 'k payload \<Rightarrow> 'v payload option" where
  "col_map B c d k = (if same_type (cl_key0 c) k then (case col_Get B c k d of Some r \<Rightarrow> r | None \<Rightarrow> None) else None)"

text \<open>Every entry under the prefix was written by the collection.\<close>

definition clean :: "'d badger \<Rightarrow> ('k, 'v) collection \<Rightarrow> 'd \<Rightarrow> bool" where
  "clean B c d \<longleftrightarrow>
     (\<forall>kb vb. prefix (cl_Prefix c) kb \<longrightarrow> bg_Get B d kb = Found (Some vb) \<longrightarrow>
        (\<exists>k. same_type (cl_key0 c) k \<and> MarshalKey c k = Some kb) \<and>
        (\<exists>v. same_type (cl_val0 c) v \<and> UnmarshalValue c vb = Some v))"

datatype ('k, 'v) col_op =
    DInsert "'k payload" "'v payload"
  | DReplace "'k payload" "'v payload"
  | DUpsert "'k payload" "'v payload option \<Rightarrow> 'v payload"
  | DDelete "'k payload"
  | DClear

datatype 'v col_out = Inserted bool | Previous "'v payload option" | Done

fun col_step :: "'d badger \<Rightarrow> ('k, 'v) collection \<Rightarrow> ('k, 'v) col_op \<Rightarrow> 'd \<Rightarrow> ('v col_out \<times> 'd) option" where
  "col_step B c (DInsert k v) d = map_option (map_prod Inserted id) (col_Insert B c k v d)"
| "col_step B c (DReplace k v) d = map_option (map_prod Previous id) (col_Replace B c k v d)"
| "col_step B c (DUpsert k cb) d = map_option (Pair Done) (col_Upsert B c k cb d)"
| "col_step B c (DDelete k) d = map_option (Pair Done) (col_Delete B c k d)"
| "col_step B c DClear d = Some (Done, col_Clear B c d)"

fun map_step :: "('k, 'v) col_op \<Rightarrow> ('k payload \<Rightarrow> 'v payload option) \<Rightarrow> 'v col_out \<times> ('k payload \<Rightarrow> 'v payload option)" where
  "map_step (DInsert k v) m = (Inserted (m k = None), if m k = None then m(k \<mapsto> v) else m)"
| "map_step (DReplace k v) m = (Previous (m k), m(k \<mapsto> v))"
| "map_step (DUpsert k cb) m = (Done, m(k \<mapsto> cb (m k)))"
| "map_step (DDelete k) m = (Done, m(k := None))"
| "map_step DClear m = (Done, Map.empty)"

fun typed_op :: "'v set \<Rightarrow> ('k, 'v) collection \<Rightarrow> ('k, 'v) col_op \<Rightarrow> bool" where
  "typed_op G c (DInsert k v) \<longleftrightarrow> same_type (cl_key0 c) k \<and> good_val G c v"
| "typed_op G c (DReplace k v) \<longleftrightarrow> same_type (cl_key0 c) k \<and> good_val G c v"
| "typed_op G c (DUpsert k cb) \<longleftrightarrow> same_type (cl_key0 c) k \<and> (\<forall>old. good_val G c (cb old))"
| "typed_op G c (DDelete k) \<longleftrightarrow> same_type (cl_key0 c) k"
| "typed_op G c DClear \<longleftrightarrow> True"

text \<open>What one write under a key does to the map and to cleanness.\<close>

lemma MarshalKey_inj:
  assumes "codec_laws G c" and "same_type (cl_key0 c) k" and "same_type (cl_key0 c) k'"
    and "MarshalKey c k = Some b" and "MarshalKey c k' = Some b"
  shows "k = k'"
  using marshal_read [OF assms(1,2)] marshal_read [OF assms(1,3)] assms(4,5) by auto

lemma col_map_at:
  assumes "same_type (cl_key0 c) k" and "MarshalKey c k = Some kb"
  shows "col_map B c d k = (case bg_Get B d kb of Found (Some b) \<Rightarrow> UnmarshalValue c b | _ \<Rightarrow> None)"
  using assms by (simp add: col_map_def col_Get_def)

lemma col_map_write:
  assumes "codec_laws G c" and k: "same_type (cl_key0 c) k" "MarshalKey c k = Some kb"
    and g: "bg_Get B d' = (bg_Get B d)(kb := w)"
  shows "col_map B c d' = (col_map B c d)(k := case w of Found (Some b) \<Rightarrow> UnmarshalValue c b | _ \<Rightarrow> None)"
proof
  fix k'
  show "col_map B c d' k' = ((col_map B c d)(k := case w of Found (Some b) \<Rightarrow> UnmarshalValue c b | _ \<Rightarrow> None)) k'"
  proof (cases "same_type (cl_key0 c) k'")
    case True
    obtain kb' where kb': "MarshalKey c k' = Some kb'" using marshal_read [OF assms(1) True] by auto
    have "kb' = kb \<longleftrightarrow> k' = k" using MarshalKey_inj [OF assms(1) True k(1)] kb' k(2) by auto
    then show ?thesis using k kb' g True by (auto simp: col_map_at)
  next
    case False
    then show ?thesis using k(1) by (auto simp: col_map_def)
  qed
qed

lemma clean_write:
  assumes "clean B c d" and "same_type (cl_key0 c) k" and "MarshalKey c k = Some kb"
    and "\<And>b. w = Found (Some b) \<Longrightarrow> \<exists>v. same_type (cl_val0 c) v \<and> UnmarshalValue c b = Some v"
    and g: "bg_Get B d' = (bg_Get B d)(kb := w)"
  shows "clean B c d'"
  using assms unfolding clean_def by (auto simp: fun_upd_apply split: if_splits)

lemma Update_ok: "badger_laws B \<Longrightarrow> f d = Some d' \<Longrightarrow> db_Update B f d = (True, d')"
  by (simp add: db_Update_def badger_Commit)

lemma Must0_ok [simp]: "Must0 (True, d) = Some d"
  by (simp add: Must0_def)

lemma entry_cases:
  assumes "badger_laws B" and "codec_laws G c" and "clean B c d" and "same_type (cl_key0 c) k"
  obtains kb where "MarshalKey c k = Some kb" "bg_Get B d kb = KeyNotFound" "col_map B c d k = None"
  | kb b v where "MarshalKey c k = Some kb" "bg_Get B d kb = Found (Some b)" "UnmarshalValue c b = Some v" "col_map B c d k = Some v"
proof -
  obtain kb where kb: "MarshalKey c k = Some kb" "prefix (cl_Prefix c) kb" using marshal_read [OF assms(2,4)] by blast
  show thesis
  proof (cases "bg_Get B d kb = KeyNotFound")
    case True
    then have "col_map B c d k = None" by (simp add: col_map_at [OF assms(4) kb(1)])
    with True show thesis using that(1) kb(1) by blast
  next
    case False
    then obtain b where b: "bg_Get B d kb = Found (Some b)" using badger_Get [OF assms(1), of d kb] by auto
    then obtain v where "UnmarshalValue c b = Some v" using assms(3) kb(2) unfolding clean_def by blast
    moreover from this b have "col_map B c d k = Some v" by (simp add: col_map_at [OF assms(4) kb(1)])
    ultimately show thesis using that(2) kb(1) b by blast
  qed
qed

lemma write_entry:
  assumes "badger_laws B" and "codec_laws G c" and "clean B c d" and "same_type (cl_key0 c) k" and "good_val G c v"
    and "MarshalKey c k = Some kb"
  obtains vb d' where "MarshalValue c v = Some vb" "bg_Set B d kb vb = Some d'" "clean B c d'"
    "col_map B c d' = (col_map B c d)(k \<mapsto> v)"
proof -
  obtain vb where vb: "MarshalValue c v = Some vb" "UnmarshalValue c vb = Some v" using value_read [OF assms(2,5)] by blast
  obtain d' where d': "bg_Set B d kb vb = Some d'" "bg_Get B d' = (bg_Get B d)(kb := Found (Some vb))"
    using badger_Set [OF assms(1)] by blast
  have "clean B c d'" by (rule clean_write [OF assms(3,4,6) _ d'(2)]) (use vb(2) assms(5) in \<open>auto simp: good_val_def\<close>)
  moreover have "col_map B c d' = (col_map B c d)(k \<mapsto> v)"
    using col_map_write [OF assms(2,4,6) d'(2)] vb(2) by simp
  ultimately show thesis using that vb(1) d'(1) by blast
qed

lemma delete_entry:
  assumes "badger_laws B" and "codec_laws G c" and "clean B c d" and "same_type (cl_key0 c) k" and "MarshalKey c k = Some kb"
  obtains d' where "bg_Delete B d kb = Some d'" "clean B c d'" "col_map B c d' = (col_map B c d)(k := None)"
proof -
  obtain d' where d': "bg_Delete B d kb = Some d'" "bg_Get B d' = (bg_Get B d)(kb := KeyNotFound)"
    using badger_Delete [OF assms(1)] by blast
  have "clean B c d'" by (rule clean_write [OF assms(3,4,5) _ d'(2)]) auto
  moreover have "col_map B c d' = (col_map B c d)(k := None)"
    using col_map_write [OF assms(2,4,5) d'(2)] by simp
  ultimately show thesis using that d'(1) by blast
qed

lemma delete_all:
  assumes "badger_laws B"
  shows "\<exists>d'. fold (\<lambda>(k, _) t. Option.bind t (\<lambda>t. bg_Delete B t k)) items (Some d) = Some d'
    \<and> bg_Get B d' = (\<lambda>k. if k \<in> fst ` set items then KeyNotFound else bg_Get B d k)"
proof (induction items arbitrary: d)
  case (Cons it items)
  obtain d1 where d1: "bg_Delete B d (fst it) = Some d1" "bg_Get B d1 = (bg_Get B d)(fst it := KeyNotFound)"
    using badger_Delete [OF assms] by blast
  show ?case using Cons.IH [of d1] d1 by (auto simp: case_prod_unfold fun_eq_iff)
qed simp

lemma clear_entries:
  assumes "badger_laws B" and "codec_laws G c"
  shows "clean B c (col_Clear B c d)" and "col_map B c (col_Clear B c d) = Map.empty"
proof -
  obtain d' where d': "fold (\<lambda>(k, _) t. Option.bind t (\<lambda>t. bg_Delete B t k)) (bg_Iter B d (cl_Prefix c)) (Some d) = Some d'"
      "bg_Get B d' = (\<lambda>k. if k \<in> fst ` set (bg_Iter B d (cl_Prefix c)) then KeyNotFound else bg_Get B d k)"
    using delete_all [OF assms(1)] by blast
  then have e: "col_Clear B c d = d'" by (simp add: col_Clear_def Update_ok [OF assms(1)])
  have g: "bg_Get B d' kb = KeyNotFound" if "prefix (cl_Prefix c) kb" for kb
    using badger_Get [OF assms(1), of d kb] badger_Iter [OF assms(1), of kb _ d "cl_Prefix c"] that
    by (auto simp: d'(2) image_iff) force
  show "clean B c (col_Clear B c d)" using g by (simp add: clean_def e)
  show "col_map B c (col_Clear B c d) = Map.empty"
    using g marshal_read [OF assms(2)] by (force simp: col_map_def col_Get_def e)
qed

lemma step_refines:
  assumes B: "badger_laws B" and c: "codec_laws G c" and d: "clean B c d" and op: "typed_op G c op"
  shows "\<exists>d'. col_step B c op d = Some (fst (map_step op (col_map B c d)), d') \<and> clean B c d'
    \<and> col_map B c d' = snd (map_step op (col_map B c d))"
proof (cases op)
  case (DInsert k v)
  then have t: "same_type (cl_key0 c) k" "good_val G c v" using op by simp_all
  from entry_cases [OF B c d t(1)] show ?thesis
  proof cases
    case (1 kb)
    obtain vb d' where w: "MarshalValue c v = Some vb" "bg_Set B d kb vb = Some d'" "clean B c d'"
        "col_map B c d' = (col_map B c d)(k \<mapsto> v)"
      using write_entry [OF B c d t 1(1)] .
    then show ?thesis using 1 by (simp add: DInsert col_Insert_def Update_ok [OF B])
  next
    case (2 kb b v')
    obtain vb where "MarshalValue c v = Some vb" using value_read [OF c t(2)] by blast
    then show ?thesis using 2 d by (simp add: DInsert col_Insert_def Update_ok [OF B])
  qed
next
  case (DReplace k v)
  then have t: "same_type (cl_key0 c) k" "good_val G c v" using op by simp_all
  from entry_cases [OF B c d t(1)] show ?thesis
  proof cases
    case (1 kb)
    obtain vb d' where w: "MarshalValue c v = Some vb" "bg_Set B d kb vb = Some d'" "clean B c d'"
        "col_map B c d' = (col_map B c d)(k \<mapsto> v)"
      using write_entry [OF B c d t 1(1)] .
    then show ?thesis using 1 by (simp add: DReplace col_Replace_def Update_ok [OF B])
  next
    case (2 kb b v')
    obtain vb d' where w: "MarshalValue c v = Some vb" "bg_Set B d kb vb = Some d'" "clean B c d'"
        "col_map B c d' = (col_map B c d)(k \<mapsto> v)"
      using write_entry [OF B c d t 2(1)] .
    then show ?thesis using 2 by (simp add: DReplace col_Replace_def Update_ok [OF B])
  qed
next
  case (DUpsert k cb)
  then have t: "same_type (cl_key0 c) k" "\<And>old. good_val G c (cb old)" using op by simp_all
  from entry_cases [OF B c d t(1)] show ?thesis
  proof cases
    case (1 kb)
    obtain vb d' where w: "MarshalValue c (cb None) = Some vb" "bg_Set B d kb vb = Some d'" "clean B c d'"
        "col_map B c d' = (col_map B c d)(k \<mapsto> cb None)"
      using write_entry [OF B c d t 1(1)] .
    then show ?thesis using 1 by (simp add: DUpsert col_Upsert_def Update_ok [OF B])
  next
    case (2 kb b v')
    obtain vb d' where w: "MarshalValue c (cb (Some v')) = Some vb" "bg_Set B d kb vb = Some d'" "clean B c d'"
        "col_map B c d' = (col_map B c d)(k \<mapsto> cb (Some v'))"
      using write_entry [OF B c d t 2(1)] .
    then show ?thesis using 2 by (simp add: DUpsert col_Upsert_def Update_ok [OF B])
  qed
next
  case (DDelete k)
  then have t: "same_type (cl_key0 c) k" using op by simp
  then obtain kb where kb: "MarshalKey c k = Some kb" using marshal_read [OF c] by blast
  obtain d' where "bg_Delete B d kb = Some d'" "clean B c d'" "col_map B c d' = (col_map B c d)(k := None)"
    using delete_entry [OF B c d t kb] .
  then show ?thesis by (simp add: DDelete col_Delete_def kb Update_ok [OF B])
next
  case DClear
  then show ?thesis using clear_entries [OF B c, of d] by simp
qed

abbreviation "col_run B c \<equiv> run_steps (col_step B c)"

abbreviation "map_run \<equiv> run_spec map_step"

interpretation kept: simulation "col_step B c" map_step "col_map B c"
    "\<lambda>d. badger_laws B \<and> codec_laws G c \<and> clean B c d" "typed_op G c" for B c G
proof
  fix d op assume "badger_laws B \<and> codec_laws G c \<and> clean B c d" "typed_op G c op"
  then show "\<exists>d'. col_step B c op d = Some (fst (map_step op (col_map B c d)), d')
      \<and> (badger_laws B \<and> codec_laws G c \<and> clean B c d') \<and> col_map B c d' = snd (map_step op (col_map B c d))"
    using step_refines [of B G c d op] by auto
qed


text \<open>Badger's documented behaviour can be had: a list of entries behaves so.\<close>

definition list_badger :: "(string \<times> string) list badger" where
  "list_badger =
     \<lparr>bg_Get = (\<lambda>d k. case map_of d k of None \<Rightarrow> KeyNotFound | Some v \<Rightarrow> Found (Some v)),
      bg_Set = (\<lambda>d k v. Some (AList.update k v d)),
      bg_Delete = (\<lambda>d k. Some (AList.delete k d)),
      bg_Iter = (\<lambda>d p. map (map_prod id Some) (filter (\<lambda>(k, _). prefix p k) (AList.clearjunk d))),
      bg_Commit = (\<lambda>_ _. True)\<rparr>"

lemma list_badger_laws: "badger_laws list_badger"
proof -
  have d: "distinct (map fst (filter P (AList.clearjunk d)))" for P and d :: "(string \<times> string) list"
    using distinct_clearjunk [of d] by (induction "AList.clearjunk d" arbitrary: d) (metis distinct_map_filter)+
  have i: "(k, v) \<in> set (AList.clearjunk d) \<longleftrightarrow> map_of d k = Some v" for k v and d :: "(string \<times> string) list"
    by (metis clearjunk_restrict distinct_clearjunk map_of_clearjunk map_of_eq_Some_iff)
  show ?thesis
    unfolding badger_laws_def list_badger_def
    by (auto simp: update_conv' delete_conv' fun_eq_iff d i comp_def map_prod_def case_prod_unfold image_iff split: option.splits)
qed

definition sample_collection :: "(nat, nat) collection" where
  "sample_collection = col_Open
     \<lparr>cl_Prefix = [], cl_key0 = PString [], cl_val0 = PJson 0,
      cl_enc_k = (\<lambda>n. Some (replicate n CHR ''x'')), cl_dec_k = (\<lambda>s. Some (length s - 1)),
      cl_enc_v = (\<lambda>n. Some (replicate n CHR ''x'')), cl_dec_v = (\<lambda>s. Some (length s - 1))\<rparr> ''jobs''"

lemma sample_codec: "codec_laws UNIV sample_collection"
  by (simp add: codec_laws_def sample_collection_def col_Open_def)


section \<open>What is read\<close>

lemma col_Get_map: "codec_laws G c \<Longrightarrow> same_type (cl_key0 c) k \<Longrightarrow> col_Get B c k d = Some (col_map B c d k)"
  using marshal_read by (fastforce simp: col_map_def col_Get_def)

lemma col_Has_map:
  assumes "badger_laws B" and "codec_laws G c" and "clean B c d" and "same_type (cl_key0 c) k"
  shows "col_Has B c k d = Some (col_map B c d k \<noteq> None)"
  using entry_cases [OF assms] by cases (simp_all add: col_Has_def)

lemma range_collects:
  assumes "\<And>kb vb. (kb, vb) \<in> set items \<Longrightarrow> UnmarshalKey c kb \<noteq> None \<and> vb \<noteq> None \<and> UnmarshalValue c (the vb) \<noteq> None"
  shows "range_items c (\<lambda>k v s. (True, s @ [(k, v)])) items s
    = s @ map (\<lambda>(kb, vb). (the (UnmarshalKey c kb), the (UnmarshalValue c (the vb)))) items"
  using assms
proof (induction items arbitrary: s)
  case (Cons it items)
  obtain kb vb where it: "it = (kb, vb)" by force
  obtain k b v where "UnmarshalKey c kb = Some k" "vb = Some b" "UnmarshalValue c b = Some v"
    using Cons.prems [of kb vb] by (auto simp: it)
  moreover have "range_items c (\<lambda>k v s. (True, s @ [(k, v)])) items s'
      = s' @ map (\<lambda>(kb, vb). (the (UnmarshalKey c kb), the (UnmarshalValue c (the vb)))) items" for s'
    by (rule Cons.IH) (use Cons.prems in auto)
  ultimately show ?case by (simp add: it)
qed simp

lemma range_visits_facts:
  assumes B: "badger_laws B" and c: "codec_laws G c" and d: "clean B c d"
  shows "let xs = col_Range B c (\<lambda>k v s. (True, s @ [(k, v)])) d [] in
    distinct (map fst xs) \<and> (\<forall>k v. (k, v) \<in> set xs \<longleftrightarrow> col_map B c d k = Some v) \<and> length xs = col_Count B c d"
proof -
  let ?items = "bg_Iter B d (cl_Prefix c)"
  let ?f = "\<lambda>(kb, vb). (the (UnmarshalKey c kb), the (UnmarshalValue c (the vb)))"
  have it: "\<exists>k b v. same_type (cl_key0 c) k \<and> MarshalKey c k = Some kb \<and> UnmarshalKey c kb = Some k
      \<and> vb = Some b \<and> UnmarshalValue c b = Some v \<and> bg_Get B d kb = Found (Some b) \<and> col_map B c d k = Some v"
    if m: "(kb, vb) \<in> set ?items" for kb vb
  proof -
    have g: "prefix (cl_Prefix c) kb" "bg_Get B d kb = Found vb" using badger_Iter [OF B] m by auto
    obtain b where b: "vb = Some b" using badger_Get [OF B, of d kb] g(2) by auto
    obtain k v where k: "same_type (cl_key0 c) k" "MarshalKey c k = Some kb" "UnmarshalValue c b = Some v"
      using d g b unfolding clean_def by blast
    have "UnmarshalKey c kb = Some k" using marshal_read [OF c k(1)] k(2) by auto
    then show ?thesis using k b g(2) by (auto simp: col_map_at)
  qed
  have xs: "col_Range B c (\<lambda>k v s. (True, s @ [(k, v)])) d [] = map ?f ?items"
    unfolding col_Range_def using range_collects [of ?items c "[]"] it by fastforce
  have inj: "inj_on (\<lambda>kb. the (UnmarshalKey c kb)) (fst ` set ?items)"
  proof (rule inj_onI)
    fix x y assume "x \<in> fst ` set ?items" "y \<in> fst ` set ?items" "the (UnmarshalKey c x) = the (UnmarshalKey c y)"
    then obtain vx vy where "(x, vx) \<in> set ?items" "(y, vy) \<in> set ?items" by force
    then show "x = y" using it [of x vx] it [of y vy] \<open>the (UnmarshalKey c x) = the (UnmarshalKey c y)\<close> by auto
  qed
  have "map fst (map ?f ?items) = map (\<lambda>kb. the (UnmarshalKey c kb)) (map fst ?items)" by (simp add: case_prod_unfold)
  then have "distinct (map fst (map ?f ?items))"
    using badger_Iter_distinct [OF B, of d "cl_Prefix c"] inj by (simp only: distinct_map set_map)
  moreover have "(k, v) \<in> set (map ?f ?items) \<longleftrightarrow> col_map B c d k = Some v" for k v
  proof
    assume "(k, v) \<in> set (map ?f ?items)"
    then obtain kb vb where "(kb, vb) \<in> set ?items" "k = the (UnmarshalKey c kb)" "v = the (UnmarshalValue c (the vb))" by auto
    then show "col_map B c d k = Some v" using it [of kb vb] by auto
  next
    assume m: "col_map B c d k = Some v"
    then have t: "same_type (cl_key0 c) k" by (auto simp: col_map_def split: if_splits)
    from entry_cases [OF B c d t] show "(k, v) \<in> set (map ?f ?items)"
    proof cases
      case (2 kb b v')
      have "prefix (cl_Prefix c) kb" "UnmarshalKey c kb = Some k" using marshal_read [OF c t] 2(1) by auto
      then show ?thesis using 2 m badger_Iter [OF B, of kb "Some b" d] by (force simp: image_iff)
    qed (use m in simp)
  qed
  ultimately show ?thesis unfolding xs Let_def col_Count_def length_map by blast
qed

text \<open>
  \<open>Range\<close> visits every entry of the map exactly once, and \<open>Count\<close> is the number of its visits.
\<close>

theorem range_visits_each_once:
  assumes B: "badger_laws B" and c: "codec_laws G c" and d: "clean B c d"
  shows "let xs = col_Range B c (\<lambda>k v s. (True, s @ [(k, v)])) d [] in
    distinct (map fst xs) \<and> (\<forall>k v. (k, v) \<in> set xs \<longleftrightarrow> col_map B c d k = Some v) \<and> length xs = col_Count B c d"
  by (rule range_visits_facts [OF assms])

lemma range_visits_each_once_witness:
  "let xs = col_Range list_badger sample_collection (\<lambda>k v s. (True, s @ [(k, v)])) [(''jobs:a'', ''xx'' @ [CHR 0x0A]), (''other'', ''1'')] [] in
    distinct (map fst xs) \<and> (\<forall>k v. (k, v) \<in> set xs \<longleftrightarrow> col_map list_badger sample_collection [(''jobs:a'', ''xx'' @ [CHR 0x0A]), (''other'', ''1'')] k = Some v)
    \<and> length xs = col_Count list_badger sample_collection [(''jobs:a'', ''xx'' @ [CHR 0x0A]), (''other'', ''1'')]"
proof (rule range_visits_each_once [OF list_badger_laws sample_codec])
  have "MarshalKey sample_collection (PString ''a'') = Some ''jobs:a'' \<and> same_type (cl_key0 sample_collection) (PString ''a'')"
    "UnmarshalValue sample_collection (''xx'' @ [CHR 0x0A]) = Some (PJson 2) \<and> same_type (cl_val0 sample_collection) (PJson 2)"
    by (simp_all add: sample_collection_def col_Open_def MarshalKey_def marshal_def UnmarshalValue_def unmarshal_def)
  moreover have "kb = ''jobs:a'' \<and> vb = ''xx'' @ [CHR 0x0A]"
    if "prefix (cl_Prefix sample_collection) kb"
      "bg_Get list_badger [(''jobs:a'', ''xx'' @ [CHR 0x0A]), (''other'', ''1'')] kb = Found (Some vb)" for kb vb
    using that by (auto simp: sample_collection_def col_Open_def list_badger_def split: if_splits)
  ultimately show "clean list_badger sample_collection [(''jobs:a'', ''xx'' @ [CHR 0x0A]), (''other'', ''1'')]"
    unfolding clean_def by blast
qed

text \<open>
  \<open>Upsert\<close> over a value that cannot be decoded does nothing and says nothing, where \<open>Replace\<close>
  writes: the callback is not called.
\<close>

lemma upsert_skips_undecodable:
  assumes "badger_laws B" and "MarshalKey c k = Some kb" and "bg_Get B d kb = Found (Some b)" and "UnmarshalValue c b = None"
  shows "col_Upsert B c k cb d = Some d"
  using assms by (simp add: col_Upsert_def Update_ok)

end
