(* ===== verification/Session.thy ===== *)
theory Session
  imports Job Database Whiteboard
begin

text \<open>
  \<open>pkg/session\<close>: the daemon's session, its running jobs and the collection that stores their
  manifests, and the RPC services. Jobs are pointers into a heap; of a job the session knows its
  manifest, the calls it has made to it in their order, its whiteboard and, for the listing, its
  worker tree. A range over the jobs visits the keys it is given, in their order, skipping those that
  are gone when it reaches them. Regular expressions are a parameter. \<open>None\<close> is a panic of the store.
\<close>

section \<open>The session\<close>

datatype job_call = ToReady | ToStart | ToStop | ToRestart | ToKill

datatype worker_info = WorkerInfo (wi_Namespace: string) (wi_Status: gerr) (wi_Inspect: report) (wi_children: "worker_info list")

record sjob =
  sj_ID :: string
  sj_Manifest :: manifest
  sj_calls :: "job_call list"
  sj_Whiteboard :: "whiteboard option"
  sj_worker :: "worker_info option"

record 'd session =
  se_Jobs :: "string \<Rightarrow> nat option"
  se_heap :: "sjob list"
  se_db :: 'd
  se_ctx :: ctx
  se_rpc_open :: bool
  se_db_open :: bool

type_synonym job_store = "(unit, manifest) collection"

record 'd session_env =
  en_badger :: "'d badger"
  en_col :: job_store
  en_spawn :: "manifest \<Rightarrow> sjob option"

definition call_job :: "nat \<Rightarrow> job_call \<Rightarrow> 'd session \<Rightarrow> 'd session" where
  "call_job p c s = s\<lparr>se_heap := (se_heap s)[p := (se_heap s ! p)\<lparr>sj_calls := sj_calls (se_heap s ! p) @ [c]\<rparr>]\<rparr>"

text \<open>\<open>Spawn\<close>: a fresh job made from a manifest.\<close>

definition spawned_job :: "(nat \<Rightarrow> bool) \<Rightarrow> (string \<Rightarrow> nat option) \<Rightarrow> string \<Rightarrow> manifest \<Rightarrow> sjob option" where
  "spawned_job disk openf logdir m =
     map_option (\<lambda>sp. \<lparr>sj_ID = sp_ID sp, sj_Manifest = m, sj_calls = [], sj_Whiteboard = None, sj_worker = None\<rparr>)
       (SpawnAt disk openf logdir m)"

definition new_job_ptr :: "sjob \<Rightarrow> 'd session \<Rightarrow> nat \<times> 'd session" where
  "new_job_ptr j s = (length (se_heap s), s\<lparr>se_heap := se_heap s @ [j]\<rparr>)"

text \<open>\<open>JobCollection.Replace\<close>, \<open>Delete\<close>.\<close>

definition store_job :: "'d session_env \<Rightarrow> nat \<Rightarrow> 'd session \<Rightarrow> 'd session option" where
  "store_job E p s =
     map_option (\<lambda>(_, d). s\<lparr>se_db := d\<rparr>)
       (col_Replace (en_badger E) (en_col E) (PString (sj_ID (se_heap s ! p))) (PJson (sj_Manifest (se_heap s ! p))) (se_db s))"

definition unstore_job :: "'d session_env \<Rightarrow> string \<Rightarrow> 'd session \<Rightarrow> 'd session option" where
  "unstore_job E jid s = map_option (\<lambda>d. s\<lparr>se_db := d\<rparr>) (col_Delete (en_badger E) (en_col E) (PString jid) (se_db s))"

datatype session_err = ErrAlreadyExists | ErrNotFound | ErrSpawn | ErrPattern

definition InsertJob :: "'d session_env \<Rightarrow> nat \<Rightarrow> 'd session \<Rightarrow> (session_err option \<times> 'd session) option" where
  "InsertJob E p s =
     (let jid = sj_ID (se_heap s ! p) in
      if se_Jobs s jid \<noteq> None then Some (Some ErrAlreadyExists, s)
      else map_option (\<lambda>s. (None, call_job p ToReady s)) (store_job E p (s\<lparr>se_Jobs := (se_Jobs s)(jid \<mapsto> p)\<rparr>)))"

definition UpdateJob :: "'d session_env \<Rightarrow> nat \<Rightarrow> 'd session \<Rightarrow> 'd session option" where
  "UpdateJob E p s =
     (let jid = sj_ID (se_heap s ! p);
          prev = se_Jobs s jid;
          s = s\<lparr>se_Jobs := (se_Jobs s)(jid \<mapsto> p)\<rparr>;
          s = (case prev of None \<Rightarrow> s | Some q \<Rightarrow> call_job q ToStop s)
      in map_option (call_job p ToReady) (store_job E p s))"

definition DeleteJob :: "'d session_env \<Rightarrow> string \<Rightarrow> 'd session \<Rightarrow> (session_err option \<times> 'd session) option" where
  "DeleteJob E jid s =
     map_option (\<lambda>s.
       case se_Jobs s jid of
         None \<Rightarrow> (Some ErrNotFound, s)
       | Some p \<Rightarrow> (None, call_job p ToStop (s\<lparr>se_Jobs := (se_Jobs s)(jid := None)\<rparr>)))
       (unstore_job E jid s)"

definition revive_job :: "'d session_env \<Rightarrow> unit payload \<Rightarrow> manifest payload \<Rightarrow> 'd session \<Rightarrow> bool \<times> 'd session" where
  "revive_job E key recipe s =
     (case (key, recipe) of
        (PString jid, PJson m) \<Rightarrow>
          (True, case en_spawn E m of
             None \<Rightarrow> s
           | Some j \<Rightarrow> (case new_job_ptr j s of (p, s) \<Rightarrow> call_job p ToReady (s\<lparr>se_Jobs := (se_Jobs s)(jid \<mapsto> p)\<rparr>)))
      | _ \<Rightarrow> (True, s))"

definition reviveJobs :: "'d session_env \<Rightarrow> 'd session \<Rightarrow> 'd session" where
  "reviveJobs E s = col_Range (en_badger E) (en_col E) (revive_job E) (se_db s) s"

text \<open>A new session over a database, before and after the revival of its jobs.\<close>

definition empty_session :: "'d \<Rightarrow> 'd session" where
  "empty_session d =
     \<lparr>se_Jobs = Map.empty, se_heap = [], se_db = d, se_ctx = WithCancelOrOk live,
      se_rpc_open = False, se_db_open = True\<rparr>"

definition session_Close :: "gerr option \<Rightarrow> 'd session \<Rightarrow> 'd session" where
  "session_Close err s =
     (if se_ctx s = live
      then s\<lparr>se_rpc_open := False, se_db_open := False, se_ctx := cancelOrOk_Cancel (se_ctx s) err\<rparr> else s)"

definition session_Open :: "'d session_env \<Rightarrow> 'd option \<Rightarrow> gerr option \<Rightarrow> 'd \<Rightarrow> 'd session" where
  "session_Open E db listen_err nodb =
     (case db of
        None \<Rightarrow> session_Close (Some (Msg ''open'')) ((empty_session nodb)\<lparr>se_db_open := False\<rparr>)
      | Some d \<Rightarrow>
          let s = reviveJobs E (empty_session d) in
          (case listen_err of None \<Rightarrow> s\<lparr>se_rpc_open := True\<rparr> | Some e \<Rightarrow> session_Close (Some e) s))"

section \<open>Ranges over the jobs\<close>

fun range_jobs :: "('s \<Rightarrow> string \<Rightarrow> nat option) \<Rightarrow> (string \<Rightarrow> bool) \<Rightarrow> (nat \<Rightarrow> 's \<Rightarrow> session_err option \<times> 's) \<Rightarrow> string list \<Rightarrow> 's
    \<Rightarrow> session_err option \<times> 's" where
  "range_jobs jobs pat cb [] s = (None, s)"
| "range_jobs jobs pat cb (k # ks) s =
     (case jobs s k of
        None \<Rightarrow> range_jobs jobs pat cb ks s
      | Some p \<Rightarrow>
          if \<not> pat k then range_jobs jobs pat cb ks s
          else (case cb p s of (Some e, s') \<Rightarrow> (Some e, s') | (None, s') \<Rightarrow> range_jobs jobs pat cb ks s'))"

definition match_all :: "string \<Rightarrow> bool" where
  "match_all m \<longleftrightarrow> m \<in> {'''', ''*'', ''all'', ''.*''}"

definition ForEachJob :: "(string \<Rightarrow> (string \<Rightarrow> bool) option) \<Rightarrow> ('s \<Rightarrow> string \<Rightarrow> nat option) \<Rightarrow> string
    \<Rightarrow> (nat \<Rightarrow> 's \<Rightarrow> session_err option \<times> 's) \<Rightarrow> string list \<Rightarrow> 's \<Rightarrow> session_err option \<times> 's" where
  "ForEachJob Compile jobs m cb ks s =
     (if match_all m then range_jobs jobs (\<lambda>_. True) cb ks s
      else (case Compile (''(?i)'' @ m) of
              None \<Rightarrow> (Some ErrPattern, s)
            | Some pat \<Rightarrow> range_jobs jobs pat cb ks s))"

section \<open>The job service\<close>

record rpc_status =
  rs_Icon :: "nat list option"
  rs_Code :: "string option"
  rs_Error :: string

datatype rpc_task = RpcTask (rt_Namespace: string) (rt_Status: rpc_status) (rt_Report: report) (rt_Children: "rpc_task list")

definition makeRpcStatus :: "status list \<Rightarrow> gerr \<Rightarrow> rpc_status" where
  "makeRpcStatus order e =
     (let s = StatusFromErr order (Some e) in \<lparr>rs_Icon = Status_Icon s, rs_Code = Status_String s, rs_Error = err_text e\<rparr>)"

definition zero_task :: rpc_task where
  "zero_task = RpcTask [] \<lparr>rs_Icon = Some [], rs_Code = Some [], rs_Error = []\<rparr> zero_report []"

primrec taskInfo :: "status list \<Rightarrow> worker_info \<Rightarrow> rpc_task" where
  "taskInfo order (WorkerInfo ns st rep cs) = RpcTask ns (makeRpcStatus order st) rep (map (taskInfo order) cs)"

definition jobInfo :: "status list \<Rightarrow> sjob \<Rightarrow> string \<times> rpc_task" where
  "jobInfo order j = (sj_ID j, case sj_worker j of None \<Rightarrow> zero_task | Some w \<Rightarrow> taskInfo order w)"

definition job_List :: "(string \<Rightarrow> (string \<Rightarrow> bool) option) \<Rightarrow> status list \<Rightarrow> string \<Rightarrow> string list \<Rightarrow> 'd session
    \<Rightarrow> session_err option \<times> (string \<times> rpc_task) list" where
  "job_List Compile order m ks s =
     (case ForEachJob Compile (\<lambda>s. se_Jobs (fst s)) m (\<lambda>p (s, out). (None, (s, out @ [jobInfo order (se_heap s ! p)]))) ks (s, [])
      of (e, (_, out)) \<Rightarrow> (e, out))"

definition job_Update :: "'d session_env \<Rightarrow> manifest \<Rightarrow> 'd session \<Rightarrow> (session_err + nat \<times> 'd session) option" where
  "job_Update E recipe s =
     (case en_spawn E recipe of
        None \<Rightarrow> Some (Inl ErrSpawn)
      | Some j \<Rightarrow> (case new_job_ptr j s of (p, s) \<Rightarrow> map_option (\<lambda>s. Inr (p, s)) (UpdateJob E p s)))"

definition job_Launch :: "'d session_env \<Rightarrow> manifest \<Rightarrow> 'd session \<Rightarrow> (session_err + nat \<times> 'd session) option" where
  "job_Launch E recipe s = map_option (map_sum id (\<lambda>(p, s). (p, call_job p ToStart s))) (job_Update E recipe s)"

text \<open>\<open>Start\<close>, \<open>Stop\<close>, \<open>Restart\<close> and \<open>Kill\<close> of the jobs that match, by the call they make.\<close>

definition job_control :: "(string \<Rightarrow> (string \<Rightarrow> bool) option) \<Rightarrow> job_call \<Rightarrow> string \<Rightarrow> string list \<Rightarrow> 'd session
    \<Rightarrow> session_err option \<times> 'd session \<times> string list" where
  "job_control Compile c m ks s =
     ForEachJob Compile (\<lambda>s. se_Jobs (fst s)) m
       (\<lambda>p (s, out). (None, (call_job p c s, out @ [sj_ID (se_heap s ! p)]))) ks (s, [])"

text \<open>\<open>Delete\<close>, whose state is \<open>None\<close> once the store has panicked.\<close>

definition job_Delete :: "(string \<Rightarrow> (string \<Rightarrow> bool) option) \<Rightarrow> 'd session_env \<Rightarrow> string \<Rightarrow> string list \<Rightarrow> 'd session
    \<Rightarrow> session_err option \<times> ('d session \<times> string list) option" where
  "job_Delete Compile E m ks s =
     ForEachJob Compile (\<lambda>r. case r of None \<Rightarrow> Map.empty | Some (s, _) \<Rightarrow> se_Jobs s) m
       (\<lambda>p r. (None, case r of None \<Rightarrow> None | Some (s, out) \<Rightarrow>
          map_option (\<lambda>(_, s'). (s', out @ [sj_ID (se_heap s ! p)])) (DeleteJob E (sj_ID (se_heap s ! p)) s))) ks (Some (s, []))"

text \<open>\<open>StopAll\<close> tells every job to stop; \<open>Wait\<close> and \<open>Shutdown\<close> then close the session.\<close>

definition StopAll :: "string list \<Rightarrow> 'd session \<Rightarrow> 'd session" where
  "StopAll ks s = snd (range_jobs se_Jobs (\<lambda>_. True) (\<lambda>p s. (None, call_job p ToStop s)) ks s)"

definition session_Wait :: "string list \<Rightarrow> 'd session \<Rightarrow> gerr option \<times> 'd session" where
  "session_Wait ks s = (let s = session_Close None (StopAll ks s) in (Cause (se_ctx s), s))"

definition daemon_Shutdown :: "string list \<Rightarrow> 'd session \<Rightarrow> 'd session" where
  "daemon_Shutdown ks s = session_Close None (StopAll ks s)"

definition daemon_Ping :: "int \<Rightarrow> int" where
  "daemon_Ping x = x"

definition event_Signal :: "hub \<Rightarrow> string \<Rightarrow> nat set" where
  "event_Signal h name = hub_Signal h name"

section \<open>The whiteboard service\<close>

text \<open>A raw message is JSON text; one that is absent from a request is nil, which prints as \<open>null\<close>.\<close>

definition raw_marshal :: "string option \<Rightarrow> string option" where
  "raw_marshal v = Some (case v of None \<Rightarrow> ''null'' | Some t \<Rightarrow> t)"

definition whiteboard_Get :: "(string \<Rightarrow> (string \<Rightarrow> bool) option) \<Rightarrow> wb_heap \<Rightarrow> string \<Rightarrow> string \<Rightarrow> string list \<Rightarrow> 'd session
    \<Rightarrow> session_err option \<times> (string \<times> string \<times> string) list" where
  "whiteboard_Get Compile h m key ks s =
     ForEachJob Compile (\<lambda>_. se_Jobs s) m
       (\<lambda>p out. (None,
          case sj_Whiteboard (se_heap s ! p) of
            None \<Rightarrow> out
          | Some wb \<Rightarrow> (case wb_Get Some h wb key of WbValue v \<Rightarrow> out @ [(sj_ID (se_heap s ! p), key, v)] | _ \<Rightarrow> out))) ks []"

definition whiteboard_Put :: "(string \<Rightarrow> (string \<Rightarrow> bool) option) \<Rightarrow> string \<Rightarrow> string \<Rightarrow> string option \<Rightarrow> string list \<Rightarrow> 'd session \<Rightarrow> wb_heap
    \<Rightarrow> session_err option \<times> wb_heap \<times> nat" where
  "whiteboard_Put Compile m key val ks s h =
     ForEachJob Compile (\<lambda>_. se_Jobs s) m
       (\<lambda>p (h, count). (None,
          case sj_Whiteboard (se_heap s ! p) of
            None \<Rightarrow> (h, count)
          | Some wb \<Rightarrow> ((case wb_Set raw_marshal h wb key val of None \<Rightarrow> h | Some h' \<Rightarrow> h'), count + 1))) ks (h, 0)"

section \<open>What runs is what is stored\<close>

text \<open>The environment: a store that works, JSON that brings the manifests in \<open>G\<close> back, keys that are
  strings, and a spawn that keeps the manifest it is given.\<close>

definition env_ok :: "manifest set \<Rightarrow> 'd session_env \<Rightarrow> bool" where
  "env_ok G E \<longleftrightarrow>
     badger_laws (en_badger E) \<and> codec_laws G (en_col E) \<and>
     (\<forall>x. same_type (cl_key0 (en_col E)) (PString x)) \<and> (\<forall>x. same_type (cl_val0 (en_col E)) (PJson x)) \<and>
     (\<forall>m j. en_spawn E m = Some j \<longrightarrow> sj_ID j = mf_ID m \<and> sj_Manifest j = m \<and> sj_calls j = [])"

lemma spawned_job_keeps:
  "spawned_job disk openf logdir m = Some j \<Longrightarrow> sj_ID j = mf_ID m \<and> sj_Manifest j = m \<and> sj_calls j = []"
  by (auto simp: spawned_job_def SpawnAt_def split: new_logger.splits)

definition stored :: "'d session_env \<Rightarrow> 'd session \<Rightarrow> string \<Rightarrow> manifest payload option" where
  "stored E s jid = col_map (en_badger E) (en_col E) (se_db s) (PString jid)"

definition live_job :: "'d session_env \<Rightarrow> 'd session \<Rightarrow> string \<Rightarrow> nat \<Rightarrow> bool" where
  "live_job E s jid p \<longleftrightarrow>
     p < length (se_heap s) \<and> sj_ID (se_heap s ! p) = jid \<and> mf_ID (sj_Manifest (se_heap s ! p)) = jid
     \<and> stored E s jid = Some (PJson (sj_Manifest (se_heap s ! p))) \<and> en_spawn E (sj_Manifest (se_heap s ! p)) \<noteq> None"

definition idle_entry :: "'d session_env \<Rightarrow> 'd session \<Rightarrow> string \<Rightarrow> bool" where
  "idle_entry E s jid \<longleftrightarrow> (\<forall>m. stored E s jid = Some (PJson m) \<longrightarrow> mf_ID m = jid \<and> en_spawn E m = None)"

definition consistent :: "'d session_env \<Rightarrow> 'd session \<Rightarrow> bool" where
  "consistent E s \<longleftrightarrow>
     clean (en_badger E) (en_col E) (se_db s) \<and>
     (\<forall>jid. case se_Jobs s jid of None \<Rightarrow> idle_entry E s jid | Some p \<Rightarrow> live_job E s jid p)"

lemma consistent_at:
  assumes "consistent E s"
  shows "se_Jobs s jid = Some p \<Longrightarrow> live_job E s jid p" and "se_Jobs s jid = None \<Longrightarrow> idle_entry E s jid"
    and "clean (en_badger E) (en_col E) (se_db s)"
  using assms unfolding consistent_def by (metis option.simps(5), metis option.simps(4), blast)

lemma call_job_simps [simp]:
  "se_Jobs (call_job p c s) = se_Jobs s" "se_db (call_job p c s) = se_db s" "stored E (call_job p c s) = stored E s"
  "length (se_heap (call_job p c s)) = length (se_heap s)"
  "sj_ID (se_heap (call_job p c s) ! q) = sj_ID (se_heap s ! q)"
  "sj_Manifest (se_heap (call_job p c s) ! q) = sj_Manifest (se_heap s ! q)"
  by (cases "q = p"; cases "p < length (se_heap s)"; simp add: call_job_def stored_def fun_eq_iff list_update_beyond)+

lemma live_call [simp]: "live_job E (call_job q c s) jid p = live_job E s jid p"
  and idle_call [simp]: "idle_entry E (call_job q c s) jid = idle_entry E s jid"
  by (simp_all add: live_job_def idle_entry_def)

lemma consistent_call [simp]: "consistent E (call_job q c s) = consistent E s"
  by (simp add: consistent_def cong: option.case_cong)

text \<open>The writes of the store, by the refinement of its map.\<close>

lemma store_job_ok:
  assumes "env_ok G E" and "clean (en_badger E) (en_col E) (se_db s)" and "sj_Manifest (se_heap s ! p) \<in> G"
  obtains s' where "store_job E p s = Some s'" "clean (en_badger E) (en_col E) (se_db s')"
    "stored E s' = (stored E s)(sj_ID (se_heap s ! p) \<mapsto> PJson (sj_Manifest (se_heap s ! p)))"
    "se_Jobs s' = se_Jobs s" "se_heap s' = se_heap s"
proof -
  let ?j = "se_heap s ! p"
  have E: "badger_laws (en_badger E)" "codec_laws G (en_col E)" using assms(1) by (simp_all add: env_ok_def)
  have "typed_op G (en_col E) (DReplace (PString (sj_ID ?j)) (PJson (sj_Manifest ?j)))"
    using assms(1,3) by (simp add: env_ok_def good_val_def)
  then obtain d' where d': "col_step (en_badger E) (en_col E) (DReplace (PString (sj_ID ?j)) (PJson (sj_Manifest ?j))) (se_db s)
        = Some (fst (map_step (DReplace (PString (sj_ID ?j)) (PJson (sj_Manifest ?j))) (col_map (en_badger E) (en_col E) (se_db s))), d')"
      "clean (en_badger E) (en_col E) d'"
      "col_map (en_badger E) (en_col E) d' = (col_map (en_badger E) (en_col E) (se_db s))(PString (sj_ID ?j) \<mapsto> PJson (sj_Manifest ?j))"
    using step_refines [OF E assms(2)] by fastforce
  then have "store_job E p s = Some (s\<lparr>se_db := d'\<rparr>)" by (auto simp: store_job_def)
  with d' show thesis by (intro that [of "s\<lparr>se_db := d'\<rparr>"]) (auto simp: stored_def fun_eq_iff)
qed

lemma unstore_job_ok:
  assumes "env_ok G E" and "clean (en_badger E) (en_col E) (se_db s)"
  obtains s' where "unstore_job E jid s = Some s'" "clean (en_badger E) (en_col E) (se_db s')"
    "stored E s' = (stored E s)(jid := None)" "se_Jobs s' = se_Jobs s" "se_heap s' = se_heap s"
proof -
  have E: "badger_laws (en_badger E)" "codec_laws G (en_col E)" using assms(1) by (simp_all add: env_ok_def)
  have "typed_op G (en_col E) (DDelete (PString jid))" using assms(1) by (simp add: env_ok_def)
  then obtain d' where d': "col_step (en_badger E) (en_col E) (DDelete (PString jid)) (se_db s) = Some (Done, d')"
      "clean (en_badger E) (en_col E) d'"
      "col_map (en_badger E) (en_col E) d' = (col_map (en_badger E) (en_col E) (se_db s))(PString jid := None)"
    using step_refines [OF E assms(2)] by fastforce
  then have "unstore_job E jid s = Some (s\<lparr>se_db := d'\<rparr>)" by (auto simp: unstore_job_def)
  with d' show thesis by (intro that [of "s\<lparr>se_db := d'\<rparr>"]) (auto simp: stored_def fun_eq_iff)
qed

text \<open>A job that replaces the one of its ID, in the map and in the store.\<close>

lemma consistent_replace:
  assumes "consistent E s" and "p < length (se_heap s')" and "mf_ID (sj_Manifest (se_heap s' ! p)) = jid"
    and "sj_ID (se_heap s' ! p) = jid" and "en_spawn E (sj_Manifest (se_heap s' ! p)) \<noteq> None"
    and "clean (en_badger E) (en_col E) (se_db s')"
    and "stored E s' = (stored E s)(jid \<mapsto> PJson (sj_Manifest (se_heap s' ! p)))"
    and "se_Jobs s' = (se_Jobs s)(jid \<mapsto> p)"
    and "\<And>q. q < length (se_heap s) \<Longrightarrow> q < length (se_heap s') \<and> sj_ID (se_heap s' ! q) = sj_ID (se_heap s ! q)
          \<and> sj_Manifest (se_heap s' ! q) = sj_Manifest (se_heap s ! q)"
  shows "consistent E s'"
  unfolding consistent_def
proof (intro conjI allI)
  fix i
  show "case se_Jobs s' i of None \<Rightarrow> idle_entry E s' i | Some p \<Rightarrow> live_job E s' i p"
  proof (cases "i = jid")
    case True
    then show ?thesis using assms(2-8) by (simp add: live_job_def)
  next
    case False
    show ?thesis
    proof (cases "se_Jobs s i")
      case None
      then show ?thesis using consistent_at(2) [OF assms(1) None] assms(7,8) False by (simp add: idle_entry_def)
    next
      case (Some q)
      then show ?thesis using consistent_at(1) [OF assms(1) Some] assms(7,8,9) False by (simp add: live_job_def)
    qed
  qed
qed (fact assms(6))

lemma UpdateJob_ok:
  assumes "env_ok G E" and "consistent E s" and "en_spawn E recipe = Some j" and "recipe \<in> G"
  obtains s' where "job_Update E recipe s = Some (Inr (length (se_heap s), s'))" "consistent E s'"
    "se_Jobs s' = (se_Jobs s)(mf_ID recipe \<mapsto> length (se_heap s))"
proof -
  have j: "sj_ID j = mf_ID recipe" "sj_Manifest j = recipe" using assms(1,3) by (auto simp: env_ok_def)
  let ?p = "length (se_heap s)"
  let ?s1 = "s\<lparr>se_heap := se_heap s @ [j], se_Jobs := (se_Jobs s)(mf_ID recipe \<mapsto> ?p)\<rparr>"
  let ?s2 = "case se_Jobs s (mf_ID recipe) of None \<Rightarrow> ?s1 | Some q \<Rightarrow> call_job q ToStop ?s1"
  have s2: "se_Jobs ?s2 = (se_Jobs s)(mf_ID recipe \<mapsto> ?p)" "stored E ?s2 = stored E s" "se_db ?s2 = se_db s"
      "length (se_heap ?s2) = Suc ?p" "sj_ID (se_heap ?s2 ! ?p) = mf_ID recipe" "sj_Manifest (se_heap ?s2 ! ?p) = recipe"
      "\<And>q. q < ?p \<Longrightarrow> sj_ID (se_heap ?s2 ! q) = sj_ID (se_heap s ! q) \<and> sj_Manifest (se_heap ?s2 ! q) = sj_Manifest (se_heap s ! q)"
    using j by (auto simp: stored_def nth_append fun_eq_iff split: option.splits)
  obtain s3 where s3: "store_job E ?p ?s2 = Some s3" "clean (en_badger E) (en_col E) (se_db s3)"
      "stored E s3 = (stored E ?s2)(mf_ID recipe \<mapsto> PJson recipe)" "se_Jobs s3 = se_Jobs ?s2" "se_heap s3 = se_heap ?s2"
    using store_job_ok [OF assms(1), of ?s2 ?p] consistent_at(3) [OF assms(2)] s2 assms(4) by metis
  have "consistent E s3"
    by (rule consistent_replace [OF assms(2), of ?p]) (use s2 s3 assms(3) in simp_all)
  moreover have "job_Update E recipe s = Some (Inr (?p, call_job ?p ToReady s3))"
    using s3(1) j
    by (cases "se_Jobs s (mf_ID recipe)") (simp_all add: job_Update_def assms(3) new_job_ptr_def UpdateJob_def Let_def)
  moreover have "se_Jobs s3 = (se_Jobs s)(mf_ID recipe \<mapsto> ?p)" using s2(1) s3(4) by simp
  ultimately show thesis by (intro that [of "call_job ?p ToReady s3"]) simp_all
qed

lemma DeleteJob_ok:
  assumes "env_ok G E" and "consistent E s"
  obtains e s' where "DeleteJob E jid s = Some (e, s')" "consistent E s'" "se_Jobs s' = (se_Jobs s)(jid := None)"
    "length (se_heap s') = length (se_heap s)" "e = (if se_Jobs s jid = None then Some ErrNotFound else None)"
    "se_heap s' = se_heap (case se_Jobs s jid of None \<Rightarrow> s | Some p \<Rightarrow> call_job p ToStop s)"
    "stored E s' = (stored E s)(jid := None)"
proof -
  obtain s1 where s1: "unstore_job E jid s = Some s1" "clean (en_badger E) (en_col E) (se_db s1)"
      "stored E s1 = (stored E s)(jid := None)" "se_Jobs s1 = se_Jobs s" "se_heap s1 = se_heap s"
    using unstore_job_ok [OF assms(1) consistent_at(3) [OF assms(2)], of jid] .
  let ?s2 = "s1\<lparr>se_Jobs := (se_Jobs s)(jid := None)\<rparr>"
  have "consistent E ?s2"
    unfolding consistent_def
  proof (intro conjI allI)
    fix i
    show "case se_Jobs ?s2 i of None \<Rightarrow> idle_entry E ?s2 i | Some p \<Rightarrow> live_job E ?s2 i p"
      using s1(3) consistent_at(1) [OF assms(2), of i] consistent_at(2) [OF assms(2), of i]
      by (cases "se_Jobs s i") (auto simp: idle_entry_def live_job_def stored_def fun_eq_iff s1(5))
  qed (use s1(2) in simp)
  moreover have "stored E ?s2 = stored E s1" by (simp add: stored_def fun_eq_iff)
  ultimately have s2: "consistent E ?s2" "stored E ?s2 = (stored E s)(jid := None)" using s1(3) by simp_all
  show thesis
  proof (cases "se_Jobs s jid")
    case None
    then have "?s2 = s1" using s1(4) by (cases s1) (simp add: fun_upd_idem)
    moreover have "DeleteJob E jid s = Some (Some ErrNotFound, s1)" using None s1 by (simp add: DeleteJob_def)
    ultimately show thesis using None s1(5) s2 by (intro that [of "Some ErrNotFound" ?s2]) (simp_all add: s1(4) fun_upd_idem)
  next
    case (Some p)
    then have "DeleteJob E jid s = Some (None, call_job p ToStop ?s2)" using s1 by (simp add: DeleteJob_def)
    moreover have "se_heap (call_job p ToStop ?s2) = se_heap (call_job p ToStop s)" by (simp add: call_job_def s1(5))
    ultimately show thesis using Some s1(5) s2 by (intro that [of None "call_job p ToStop ?s2"]) simp_all
  qed
qed

text \<open>A range whose callback never fails is a fold over the keys.\<close>

lemma range_fold:
  assumes "\<And>p s. cb p s = (None, f p s)"
  shows "range_jobs jobs pat cb ks s
    = (None, fold (\<lambda>k s. case jobs s k of None \<Rightarrow> s | Some p \<Rightarrow> if pat k then f p s else s) ks s)"
  by (induction ks arbitrary: s) (auto simp: assms split: option.splits)

lemma consistent_control_fold:
  "consistent E (fst r) \<Longrightarrow>
   consistent E (fst (fold (\<lambda>k r. case se_Jobs (fst r) k of None \<Rightarrow> r
      | Some p \<Rightarrow> if pat k then (call_job p c (fst r), snd r @ [sj_ID (se_heap (fst r) ! p)]) else r) ks r))"
  by (induction ks arbitrary: r) (auto split: option.splits)

lemma StopAll_consistent: "consistent E s \<Longrightarrow> consistent E (StopAll ks s)"
proof -
  have "consistent E s \<Longrightarrow> consistent E (fold (\<lambda>k s. case se_Jobs s k of None \<Rightarrow> s | Some p \<Rightarrow> if True then call_job p ToStop s else s) ks s)"
    by (induction ks arbitrary: s) (auto split: option.splits)
  then show "consistent E s \<Longrightarrow> consistent E (StopAll ks s)"
    by (simp add: StopAll_def range_fold [where f = "\<lambda>p. call_job p ToStop"])
qed

definition delete_step :: "'d session_env \<Rightarrow> (string \<Rightarrow> bool) \<Rightarrow> string \<Rightarrow> ('d session \<times> string list) option \<Rightarrow> ('d session \<times> string list) option" where
  "delete_step E pat k r =
     (case (case r of None \<Rightarrow> Map.empty | Some (s, _) \<Rightarrow> se_Jobs s) k of None \<Rightarrow> r
      | Some p \<Rightarrow> if pat k
          then (case r of None \<Rightarrow> None | Some (s, out) \<Rightarrow>
                  map_option (\<lambda>(_, s'). (s', out @ [sj_ID (se_heap s ! p)])) (DeleteJob E (sj_ID (se_heap s ! p)) s))
          else r)"

lemma job_Delete_fold:
  "range_jobs (\<lambda>r. case r of None \<Rightarrow> Map.empty | Some (s, _) \<Rightarrow> se_Jobs s) pat
     (\<lambda>p r. (None, case r of None \<Rightarrow> None | Some (s, out) \<Rightarrow>
        map_option (\<lambda>(_, s'). (s', out @ [sj_ID (se_heap s ! p)])) (DeleteJob E (sj_ID (se_heap s ! p)) s))) ks r
   = (None, fold (delete_step E pat) ks r)"
  by (subst range_fold) (simp_all add: delete_step_def [abs_def])

text \<open>What the deletion of the keys \<open>ks\<close> leaves, and what it says.\<close>

lemma delete_fold_ok:
  assumes "env_ok G E"
  shows "consistent E s \<Longrightarrow> distinct ks \<Longrightarrow>
    \<exists>s'. fold (delete_step E pat) ks (Some (s, out)) = Some (s', out @ filter (\<lambda>k. pat k \<and> se_Jobs s k \<noteq> None) ks)
      \<and> consistent E s'
      \<and> se_Jobs s' = (\<lambda>k. if k \<in> set ks \<and> pat k then None else se_Jobs s k)
      \<and> (\<forall>p. sj_calls (se_heap s' ! p) = sj_calls (se_heap s ! p) @ (if \<exists>k \<in> set ks. pat k \<and> se_Jobs s k = Some p then [ToStop] else []))"
proof (induction ks arbitrary: s out)
  case (Cons k ks)
  show ?case
  proof (cases "se_Jobs s k \<noteq> None \<and> pat k")
    case False
    then have "delete_step E pat k (Some (s, out)) = Some (s, out)" by (auto simp: delete_step_def split: option.splits)
    then show ?thesis using Cons.IH [OF Cons.prems(1), of out] Cons.prems(2) False by (auto simp: fun_eq_iff)
  next
    case True
    then obtain p where p: "se_Jobs s k = Some p" "pat k" by auto
    have l: "sj_ID (se_heap s ! p) = k" "p < length (se_heap s)" using consistent_at(1) [OF Cons.prems(1) p(1)] by (auto simp: live_job_def)
    obtain e s1 where s1: "DeleteJob E k s = Some (e, s1)" "consistent E s1" "se_Jobs s1 = (se_Jobs s)(k := None)"
        "se_heap s1 = se_heap (call_job p ToStop s)"
      using DeleteJob_ok [OF assms Cons.prems(1), of k] p(1) by (metis option.simps(5))
    have step: "delete_step E pat k (Some (s, out)) = Some (s1, out @ [k])" using p l s1(1) by (simp add: delete_step_def)
    obtain s' where s': "fold (delete_step E pat) ks (Some (s1, out @ [k])) = Some (s', (out @ [k]) @ filter (\<lambda>k. pat k \<and> se_Jobs s1 k \<noteq> None) ks)"
        "consistent E s'" "se_Jobs s' = (\<lambda>k. if k \<in> set ks \<and> pat k then None else se_Jobs s1 k)"
        "\<forall>p. sj_calls (se_heap s' ! p) = sj_calls (se_heap s1 ! p) @ (if \<exists>k \<in> set ks. pat k \<and> se_Jobs s1 k = Some p then [ToStop] else [])"
      using Cons.IH [OF s1(2), of "out @ [k]"] Cons.prems(2) by auto
    have f: "filter (\<lambda>k. pat k \<and> se_Jobs s1 k \<noteq> None) ks = filter (\<lambda>k. pat k \<and> se_Jobs s k \<noteq> None) ks"
      by (rule filter_cong) (use Cons.prems(2) s1(3) in auto)
    have u: "k' = k" if "se_Jobs s k' = Some p" for k'
      using consistent_at(1) [OF Cons.prems(1) that] l by (simp add: live_job_def)
    have "sj_calls (se_heap s1 ! q) = sj_calls (se_heap s ! q) @ (if q = p then [ToStop] else [])" for q
      using l(2) by (simp add: s1(4) call_job_def)
    moreover have "(\<exists>k' \<in> set ks. pat k' \<and> se_Jobs s1 k' = Some q) \<longleftrightarrow> (\<exists>k' \<in> set ks. pat k' \<and> se_Jobs s k' = Some q)" for q
      using Cons.prems(2) by (auto simp: s1(3))
    moreover have "\<not> (\<exists>k' \<in> set ks. pat k' \<and> se_Jobs s k' = Some p)" using u Cons.prems(2) by auto
    ultimately have c: "sj_calls (se_heap s' ! q) = sj_calls (se_heap s ! q)
        @ (if \<exists>k \<in> set (k # ks). pat k \<and> se_Jobs s k = Some q then [ToStop] else [])" for q
      using s'(4) p by (cases "q = p") simp_all
    have "fold (delete_step E pat) (k # ks) (Some (s, out)) = Some (s', out @ filter (\<lambda>k. pat k \<and> se_Jobs s k \<noteq> None) (k # ks))"
      using s'(1) f step p by simp
    moreover have "se_Jobs s' = (\<lambda>k'. if k' \<in> set (k # ks) \<and> pat k' then None else se_Jobs s k')"
      using p(2) by (auto simp: fun_eq_iff s'(3) s1(3))
    ultimately show ?thesis using s'(2) c by blast
  qed
qed simp

datatype service_op =
    SvcLaunch manifest
  | SvcUpdate manifest
  | SvcDelete string "string list"
  | SvcControl job_call string "string list"
  | SvcStopAll "string list"

text \<open>A request to the job service; the lists are the orders of its ranges. \<open>None\<close> is a panic of the store.\<close>

fun service_act :: "(string \<Rightarrow> (string \<Rightarrow> bool) option) \<Rightarrow> 'd session_env \<Rightarrow> service_op \<Rightarrow> 'd session \<Rightarrow> 'd session option" where
  "service_act Compile E (SvcLaunch m) s = map_option (\<lambda>r. case r of Inl _ \<Rightarrow> s | Inr (_, s') \<Rightarrow> s') (job_Launch E m s)"
| "service_act Compile E (SvcUpdate m) s = map_option (\<lambda>r. case r of Inl _ \<Rightarrow> s | Inr (_, s') \<Rightarrow> s') (job_Update E m s)"
| "service_act Compile E (SvcDelete m ks) s = map_option fst (snd (job_Delete Compile E m ks s))"
| "service_act Compile E (SvcControl c m ks) s = Some (fst (snd (job_control Compile c m ks s)))"
| "service_act Compile E (SvcStopAll ks) s = Some (StopAll ks s)"

fun op_keys :: "service_op \<Rightarrow> string list" where
  "op_keys (SvcDelete m ks) = ks"
| "op_keys op = []"

fun op_manifests :: "service_op \<Rightarrow> manifest set" where
  "op_manifests (SvcLaunch m) = {m}"
| "op_manifests (SvcUpdate m) = {m}"
| "op_manifests op = {}"

lemma service_act_consistent:
  assumes E: "env_ok G E" and s: "consistent E s" and ks: "distinct (op_keys op)" and G: "op_manifests op \<subseteq> G"
  shows "\<exists>s'. service_act Compile E op s = Some s' \<and> consistent E s'"
proof -
  have upd: "\<exists>r. job_Update E m s = Some r \<and> (\<forall>p s'. r = Inr (p, s') \<longrightarrow> consistent E s')" if "m \<in> G" for m
  proof (cases "en_spawn E m")
    case None
    then show ?thesis by (simp add: job_Update_def)
  next
    case (Some j)
    show ?thesis by (rule UpdateJob_ok [OF E s Some that]) auto
  qed
  show ?thesis
  proof (cases op)
    case (SvcLaunch m)
    obtain r where r: "job_Update E m s = Some r" "\<forall>p s'. r = Inr (p, s') \<longrightarrow> consistent E s'" using upd [of m] G SvcLaunch by auto
    show ?thesis
    proof (cases r)
      case (Inl e)
      then show ?thesis using r(1) s by (simp add: SvcLaunch job_Launch_def)
    next
      case (Inr q)
      then show ?thesis using r by (cases q) (simp add: SvcLaunch job_Launch_def)
    qed
  next
    case (SvcUpdate m)
    obtain r where r: "job_Update E m s = Some r" "\<forall>p s'. r = Inr (p, s') \<longrightarrow> consistent E s'" using upd [of m] G SvcUpdate by auto
    show ?thesis using r s by (cases r) (auto simp: SvcUpdate)
  next
    case (SvcDelete m ks)
    then have "\<exists>s'. fold (delete_step E pat) ks (Some (s, [])) = Some s' \<and> consistent E (fst s')" for pat
      using delete_fold_ok [OF E s, of ks pat "[]"] assms(3) by auto
    then have "\<exists>s'. snd (range_jobs (\<lambda>r. case r of None \<Rightarrow> Map.empty | Some (s, _) \<Rightarrow> se_Jobs s) pat
     (\<lambda>p r. (None, case r of None \<Rightarrow> None | Some (s, out) \<Rightarrow>
        map_option (\<lambda>(_, s'). (s', out @ [sj_ID (se_heap s ! p)])) (DeleteJob E (sj_ID (se_heap s ! p)) s))) ks (Some (s, []))) = Some s' \<and> consistent E (fst s')" for pat
      by (simp add: job_Delete_fold)
    then show ?thesis using s SvcDelete by (auto simp: job_Delete_def ForEachJob_def split: option.splits)
  next
    case (SvcControl c m ks)
    then show ?thesis
      using s consistent_control_fold [of E "(s, [])"]
      by (auto simp: job_control_def ForEachJob_def range_fold [where f = "\<lambda>p r. (call_job p c (fst r), snd r @ [sj_ID (se_heap (fst r) ! p)])"]
          case_prod_unfold split: option.splits)
  qed (use s StopAll_consistent in auto)
qed

text \<open>
  Whatever the job service is asked, no request panics and what runs is what is stored: a job runs
  under its own ID, with the manifest the database holds under it, and an entry of the database without
  a job is one that could not be spawned.
\<close>

theorem running_is_stored:
  assumes "env_ok G E" and "consistent E s" and "\<forall>op \<in> set ops. distinct (op_keys op) \<and> op_manifests op \<subseteq> G"
  shows "\<exists>s'. exec (service_act Compile E) ops s = Some s' \<and> consistent E s'"
  using assms(2,3)
proof (induction ops arbitrary: s)
  case (Cons op ops)
  then obtain s1 where "service_act Compile E op s = Some s1" "consistent E s1"
    using service_act_consistent [OF assms(1), of s op Compile] by auto
  then show ?case using Cons.IH [of s1] Cons.prems(2) by simp
qed simp

section \<open>A restart\<close>

text \<open>A range whose callback always goes on is a fold over the entries it visits.\<close>

lemma collect_acc:
  "range_items c (\<lambda>k v s. (True, s @ [(k, v)])) items acc = acc @ range_items c (\<lambda>k v s. (True, s @ [(k, v)])) items []"
proof (induction items arbitrary: acc)
  case (Cons it items)
  show ?case
    by (cases it) (auto simp: Cons.IH [of acc] Cons.IH [of "acc @ _"] Cons.IH [of "[_]"] split: option.splits)
qed simp

lemma range_items_fold:
  assumes "\<And>k v s. fst (f k v s)"
  shows "range_items c f items s = fold (\<lambda>(k, v) s. snd (f k v s)) (range_items c (\<lambda>k v s. (True, s @ [(k, v)])) items []) s"
proof (induction items arbitrary: s)
  case (Cons it items)
  have f: "f k v s = (True, snd (f k v s))" for k v s using assms by (simp add: prod_eq_iff)
  show ?case
    using f by (cases it) (auto simp: Cons.IH collect_acc [of c _ "[_]"] split: option.splits prod.splits, (metis fst_conv snd_conv)+)
qed simp

lemma fst_revive [simp]: "fst (revive_job E k v s)"
  by (simp add: revive_job_def split: payload.splits)

definition visits :: "'d session_env \<Rightarrow> 'd \<Rightarrow> (unit payload \<times> manifest payload) list" where
  "visits E d = col_Range (en_badger E) (en_col E) (\<lambda>k v s. (True, s @ [(k, v)])) d []"

lemma reviveJobs_fold: "reviveJobs E s = fold (\<lambda>(k, v) s. snd (revive_job E k v s)) (visits E (se_db s)) s"
  unfolding reviveJobs_def visits_def col_Range_def by (rule range_items_fold) simp

text \<open>The revival of entries with distinct keys, one after the other.\<close>

lemma revive_fold:
  "distinct (map fst xs) \<Longrightarrow> s' = fold (\<lambda>(k, v) s. snd (revive_job E k v s)) xs s \<Longrightarrow>
   se_db s' = se_db s \<and> length (se_heap s) \<le> length (se_heap s') \<and> take (length (se_heap s)) (se_heap s') = se_heap s \<and>
   (\<forall>jid. (\<forall>m j. (PString jid, PJson m) \<in> set xs \<longrightarrow> en_spawn E m = None) \<longrightarrow> se_Jobs s' jid = se_Jobs s jid) \<and>
   (\<forall>jid m j. (PString jid, PJson m) \<in> set xs \<longrightarrow> en_spawn E m = Some j \<longrightarrow>
      (\<exists>p. se_Jobs s' jid = Some p \<and> p < length (se_heap s') \<and> se_heap s' ! p = j\<lparr>sj_calls := sj_calls j @ [ToReady]\<rparr>))"
proof (induction xs arbitrary: s' rule: rev_induct)
  case (snoc x xs)
  define s1 where "s1 = fold (\<lambda>(k, v) s. snd (revive_job E k v s)) xs s"
  have IH: "se_db s1 = se_db s" "length (se_heap s) \<le> length (se_heap s1)" "take (length (se_heap s)) (se_heap s1) = se_heap s"
    "\<And>jid. (\<forall>m j. (PString jid, PJson m) \<in> set xs \<longrightarrow> en_spawn E m = None) \<Longrightarrow> se_Jobs s1 jid = se_Jobs s jid"
    "\<And>jid m j. (PString jid, PJson m) \<in> set xs \<Longrightarrow> en_spawn E m = Some j \<Longrightarrow>
      \<exists>p. se_Jobs s1 jid = Some p \<and> p < length (se_heap s1) \<and> se_heap s1 ! p = j\<lparr>sj_calls := sj_calls j @ [ToReady]\<rparr>"
    using snoc.IH [OF _ s1_def] snoc.prems(1) by auto
  have s': "s' = snd (revive_job E (fst x) (snd x) s1)" using snoc.prems(2) by (simp add: s1_def case_prod_unfold)
  show ?case
  proof (cases "\<exists>jid m j. x = (PString jid, PJson m) \<and> en_spawn E m = Some j")
    case False
    then have "s' = s1" unfolding s' by (auto simp: revive_job_def split: payload.splits option.splits prod.splits)
    then show ?thesis using IH False by auto
  next
    case True
    then obtain jid m j where x: "x = (PString jid, PJson m)" "en_spawn E m = Some j" by blast
    let ?p = "length (se_heap s1)"
    have j: "s' = call_job ?p ToReady (s1\<lparr>se_heap := se_heap s1 @ [j], se_Jobs := (se_Jobs s1)(jid \<mapsto> ?p)\<rparr>)"
      by (simp add: s' revive_job_def x new_job_ptr_def)
    have h: "se_heap s' = se_heap s1 @ [j\<lparr>sj_calls := sj_calls j @ [ToReady]\<rparr>]" by (simp add: j call_job_def)
    have J: "se_Jobs s' = (se_Jobs s1)(jid \<mapsto> ?p)" "se_db s' = se_db s1" by (simp_all add: j)
    have u: "m' = m" if "(PString jid, PJson m') \<in> set (xs @ [x])" for m'
      using that snoc.prems(1) x(1) by (auto simp: image_iff)
    show ?thesis
    proof (intro conjI allI impI)
      fix i assume n: "\<forall>m j. (PString i, PJson m) \<in> set (xs @ [x]) \<longrightarrow> en_spawn E m = None"
      then have "i \<noteq> jid" using x by auto
      then show "se_Jobs s' i = se_Jobs s i" using IH(4) [of i] n J(1) by simp
    next
      fix i m' j' assume n: "(PString i, PJson m') \<in> set (xs @ [x])" "en_spawn E m' = Some j'"
      show "\<exists>p. se_Jobs s' i = Some p \<and> p < length (se_heap s') \<and> se_heap s' ! p = j'\<lparr>sj_calls := sj_calls j' @ [ToReady]\<rparr>"
      proof (cases "i = jid")
        case True
        then show ?thesis using n u x(2) by (simp add: J h)
      next
        case False
        then obtain p where "se_Jobs s1 i = Some p" "p < length (se_heap s1)" "se_heap s1 ! p = j'\<lparr>sj_calls := sj_calls j' @ [ToReady]\<rparr>"
          using IH(5) [of i m' j'] n x(1) by auto
        then show ?thesis using False by (simp add: J h nth_append)
      qed
    qed (use IH h J in simp_all)
  qed
qed simp

text \<open>
  C8. A restart loses nothing: the session opened over the database of a consistent session is
  consistent again, and has a job under exactly the same IDs, each with the same manifest; each has been
  made ready, and nothing else.
\<close>

theorem restart_restores_jobs:
  assumes "env_ok G E" and "consistent E s"
  shows "let s' = reviveJobs E (empty_session (se_db s)) in
    consistent E s' \<and>
    (\<forall>jid. map_option (\<lambda>p. sj_Manifest (se_heap s' ! p)) (se_Jobs s' jid) = map_option (\<lambda>p. sj_Manifest (se_heap s ! p)) (se_Jobs s jid)) \<and>
    (\<forall>jid p. se_Jobs s' jid = Some p \<longrightarrow> sj_calls (se_heap s' ! p) = [ToReady])"
proof -
  let ?s0 = "empty_session (se_db s)" and ?xs = "visits E (se_db s)"
  define s' where "s' = reviveJobs E ?s0"
  have E: "badger_laws (en_badger E)" "codec_laws G (en_col E)" using assms(1) by (simp_all add: env_ok_def)
  have xs: "distinct (map fst ?xs)" "\<And>k v. (k, v) \<in> set ?xs \<longleftrightarrow> col_map (en_badger E) (en_col E) (se_db s) k = Some v"
    using range_visits_facts [OF E consistent_at(3) [OF assms(2)]] by (simp_all add: visits_def Let_def)
  have e: "(PString jid, PJson m) \<in> set ?xs \<longleftrightarrow> stored E s jid = Some (PJson m)" for jid m by (simp add: xs(2) stored_def)
  have s'_fold: "s' = fold (\<lambda>(k, v) s. snd (revive_job E k v s)) ?xs ?s0"
    by (simp add: s'_def reviveJobs_fold empty_session_def)
  note r = revive_fold [OF xs(1) s'_fold]
  have db: "se_db s' = se_db s" "stored E s' = stored E s" using r by (simp_all add: empty_session_def stored_def fun_eq_iff)
  have sp: "sj_ID j = mf_ID m \<and> sj_Manifest j = m \<and> sj_calls j = []" if "en_spawn E m = Some j" for m j
    using assms(1) that by (simp add: env_ok_def)
  have some: "\<exists>p'. se_Jobs s' jid = Some p' \<and> live_job E s' jid p' \<and> sj_calls (se_heap s' ! p') = [ToReady]
      \<and> sj_Manifest (se_heap s' ! p') = sj_Manifest (se_heap s ! p)" if "se_Jobs s jid = Some p" for jid p
  proof -
    have l: "live_job E s jid p" using consistent_at(1) [OF assms(2) that] .
    then obtain j where j: "en_spawn E (sj_Manifest (se_heap s ! p)) = Some j" by (auto simp: live_job_def)
    have "(PString jid, PJson (sj_Manifest (se_heap s ! p))) \<in> set ?xs" using l by (simp add: e live_job_def)
    then obtain p' where p': "se_Jobs s' jid = Some p'" "p' < length (se_heap s')" "se_heap s' ! p' = j\<lparr>sj_calls := sj_calls j @ [ToReady]\<rparr>"
      using r j by blast
    then show ?thesis using l sp [OF j] j db(2) by (auto simp: live_job_def)
  qed
  have none: "se_Jobs s' jid = None \<and> idle_entry E s' jid" if "se_Jobs s jid = None" for jid
  proof -
    have i: "idle_entry E s jid" using consistent_at(2) [OF assms(2) that] .
    then have "\<forall>m j. (PString jid, PJson m) \<in> set ?xs \<longrightarrow> en_spawn E m = None" by (simp add: e idle_entry_def)
    then have "se_Jobs s' jid = se_Jobs ?s0 jid" using r by blast
    then show ?thesis using i db(2) by (simp add: empty_session_def idle_entry_def)
  qed
  have "consistent E s'"
    unfolding consistent_def
  proof (intro conjI allI)
    fix jid show "case se_Jobs s' jid of None \<Rightarrow> idle_entry E s' jid | Some p \<Rightarrow> live_job E s' jid p"
      using some [of jid] none [of jid] by (cases "se_Jobs s jid") auto
  qed (use consistent_at(3) [OF assms(2)] db(1) in simp)
  moreover have "map_option (\<lambda>p. sj_Manifest (se_heap s' ! p)) (se_Jobs s' jid) = map_option (\<lambda>p. sj_Manifest (se_heap s ! p)) (se_Jobs s jid)" for jid
    using some [of jid] none [of jid] by (cases "se_Jobs s jid") auto
  moreover have "sj_calls (se_heap s' ! p) = [ToReady]" if "se_Jobs s' jid = Some p" for jid p
    using some [of jid] none [of jid] that by (cases "se_Jobs s jid") auto
  ultimately show ?thesis by (simp add: s'_def Let_def)
qed

section \<open>What a pattern deletes\<close>

text \<open>
  \<open>Delete\<close> tells exactly the jobs whose ID matches to stop, once each, takes them out of the session
  and the store, and answers with their IDs, in the order of the range.
\<close>

theorem delete_exact:
  assumes "env_ok G E" and "consistent E s" and "distinct ks" and "set ks = dom (se_Jobs s)" and "Compile (''(?i)'' @ m) = Some pat" and "\<not> match_all m"
  shows "\<exists>s'. job_Delete Compile E m ks s = (None, Some (s', filter pat ks)) \<and> consistent E s'
    \<and> se_Jobs s' = (\<lambda>jid. if pat jid then None else se_Jobs s jid)
    \<and> (\<forall>p. sj_calls (se_heap s' ! p) = sj_calls (se_heap s ! p) @ (if \<exists>jid. pat jid \<and> se_Jobs s jid = Some p then [ToStop] else []))"
proof -
  obtain s' where s': "fold (delete_step E pat) ks (Some (s, [])) = Some (s', [] @ filter (\<lambda>k. pat k \<and> se_Jobs s k \<noteq> None) ks)"
      "consistent E s'" "se_Jobs s' = (\<lambda>k. if k \<in> set ks \<and> pat k then None else se_Jobs s k)"
      "\<forall>p. sj_calls (se_heap s' ! p) = sj_calls (se_heap s ! p) @ (if \<exists>k \<in> set ks. pat k \<and> se_Jobs s k = Some p then [ToStop] else [])"
    using delete_fold_ok [OF assms(1-3), of pat "[]"] by blast
  have "filter (\<lambda>k. pat k \<and> se_Jobs s k \<noteq> None) ks = filter pat ks"
    by (rule filter_cong) (use assms(4) in auto)
  moreover have "se_Jobs s' = (\<lambda>jid. if pat jid then None else se_Jobs s jid)"
    using assms(4) by (auto simp: s'(3) fun_eq_iff dom_def)
  moreover have "(\<exists>k \<in> set ks. pat k \<and> se_Jobs s k = Some p) \<longleftrightarrow> (\<exists>jid. pat jid \<and> se_Jobs s jid = Some p)" for p
    using assms(4) by auto
  ultimately show ?thesis
    using s' assms(5,6) by (intro exI [of _ s']) (simp add: job_Delete_def ForEachJob_def job_Delete_fold)
qed

section \<open>A sample session\<close>

definition sample_manifest :: manifest where
  "sample_manifest = \<lparr>mf_ID = ''web'', mf_MainID = [], mf_MainKind = ''run'', mf_Launch = Some TriggerBoot, mf_Drop = None,
     mf_Options = zero_options, mf_Logger = \<lparr>lo_Output = [], lo_Error = [], lo_LogTime = [], lo_LogName = [], lo_PfxWidth = 0\<rparr>\<rparr>"

definition sample_session_env :: "(string \<times> string) list session_env" where
  "sample_session_env =
     \<lparr>en_badger = list_badger,
      en_col = col_Open
        \<lparr>cl_Prefix = [], cl_key0 = PString [], cl_val0 = PJson sample_manifest,
         cl_enc_k = (\<lambda>_. Some ''u''), cl_dec_k = (\<lambda>_. Some ()),
         cl_enc_v = (\<lambda>_. Some ''{}''), cl_dec_v = (\<lambda>_. Some sample_manifest)\<rparr> ''jobs'',
      en_spawn = (\<lambda>m. Some \<lparr>sj_ID = mf_ID m, sj_Manifest = m, sj_calls = [], sj_Whiteboard = None, sj_worker = None\<rparr>)\<rparr>"

lemma sample_session_env_ok: "env_ok {sample_manifest} sample_session_env"
  by (simp add: env_ok_def sample_session_env_def list_badger_laws codec_laws_def col_Open_def)

lemma empty_session_consistent: "consistent sample_session_env (empty_session [])"
  by (auto simp: consistent_def empty_session_def clean_def idle_entry_def stored_def col_map_def col_Get_def list_badger_def
      sample_session_env_def split: option.splits)

lemma running_is_stored_witness:
  "\<exists>s'. exec (service_act (\<lambda>_. None) sample_session_env) [SvcLaunch sample_manifest, SvcUpdate sample_manifest, SvcDelete ''*'' [''web'']]
      (empty_session []) = Some s' \<and> consistent sample_session_env s'"
  by (rule running_is_stored [OF sample_session_env_ok empty_session_consistent]) simp

definition one_job_session :: "(string \<times> string) list session" where
  "one_job_session = the (service_act (\<lambda>_. None) sample_session_env (SvcLaunch sample_manifest) (empty_session []))"

lemma one_job_session_consistent: "consistent sample_session_env one_job_session"
  using service_act_consistent [OF sample_session_env_ok empty_session_consistent, of "SvcLaunch sample_manifest" "\<lambda>_. None"]
  by (auto simp: one_job_session_def)

lemma restart_restores_jobs_witness:
  "let s' = reviveJobs sample_session_env (empty_session (se_db one_job_session)) in
    consistent sample_session_env s' \<and>
    (\<forall>jid. map_option (\<lambda>p. sj_Manifest (se_heap s' ! p)) (se_Jobs s' jid)
       = map_option (\<lambda>p. sj_Manifest (se_heap one_job_session ! p)) (se_Jobs one_job_session jid)) \<and>
    (\<forall>jid p. se_Jobs s' jid = Some p \<longrightarrow> sj_calls (se_heap s' ! p) = [ToReady])"
  by (rule restart_restores_jobs [OF sample_session_env_ok one_job_session_consistent])

lemma one_job_session_Jobs: "se_Jobs one_job_session = [''web'' \<mapsto> 0]"
proof -
  have sp: "en_spawn sample_session_env sample_manifest =
      Some \<lparr>sj_ID = ''web'', sj_Manifest = sample_manifest, sj_calls = [], sj_Whiteboard = None, sj_worker = None\<rparr>"
    by (simp add: sample_session_env_def) (simp add: sample_manifest_def)
  let ?s = "empty_session [] :: (string \<times> string) list session"
  obtain s' where "job_Update sample_session_env sample_manifest ?s = Some (Inr (length (se_heap ?s), s'))"
      "se_Jobs s' = (se_Jobs ?s)(mf_ID sample_manifest \<mapsto> length (se_heap ?s))"
    by (rule UpdateJob_ok [OF sample_session_env_ok empty_session_consistent sp]) simp_all
  then show ?thesis by (simp add: one_job_session_def job_Launch_def sample_manifest_def empty_session_def)
qed

lemma delete_exact_witness:
  "\<exists>s'. job_Delete (\<lambda>_. Some (\<lambda>jid. jid = ''web'')) sample_session_env ''web'' [''web''] one_job_session = (None, Some (s', [''web'']))
    \<and> consistent sample_session_env s'
    \<and> se_Jobs s' = (\<lambda>jid. if jid = ''web'' then None else se_Jobs one_job_session jid)
    \<and> (\<forall>p. sj_calls (se_heap s' ! p) = sj_calls (se_heap one_job_session ! p)
          @ (if \<exists>jid. jid = ''web'' \<and> se_Jobs one_job_session jid = Some p then [ToStop] else []))"
  using delete_exact [OF sample_session_env_ok one_job_session_consistent, of "[''web'']" "\<lambda>_. Some (\<lambda>jid. jid = ''web'')" "''web''" "\<lambda>jid. jid = ''web''"]
  by (simp add: one_job_session_Jobs match_all_def)

section \<open>The whiteboard service writes what it is sent\<close>

text \<open>A \<open>Put\<close> without a value, which is what the client's \<open>put\<close> sends, stores \<open>null\<close>.\<close>

lemma put_without_value:
  assumes "se_Jobs s jid = Some p" and "sj_Whiteboard (se_heap s ! p) = Some wb" and "wb_data wb = Some d"
  shows "\<exists>h'. whiteboard_Put Compile ''*'' key None [jid] s h = (None, h', 1) \<and> wb_Get Some h' wb key = WbValue ''null''"
  using assms by (simp add: whiteboard_Put_def ForEachJob_def match_all_def wb_Set_def wb_Get_def raw_marshal_def sm_laws)

section \<open>The stream of logs\<close>

text \<open>
  \<open>stream_log.go\<close>: a hook passes the lines of the namespaces its pattern matches into a channel of 128
  messages, and drops those that do not fit. The request's lines from the log files come first.
\<close>

record log_hook =
  hk_pattern :: "string \<Rightarrow> bool"
  hk_channel :: "(string \<times> string) list"

definition hook_Write :: "string \<Rightarrow> string \<Rightarrow> string \<Rightarrow> log_hook \<Rightarrow> log_hook" where
  "hook_Write ns line kind hk =
     (if \<not> hk_pattern hk ns then hk
      else if length (hk_channel hk) < 128 then hk\<lparr>hk_channel := hk_channel hk @ [(kind, line)]\<rparr> else hk)"

definition hook_Receive :: "log_hook \<Rightarrow> ((string \<times> string) \<times> log_hook) option" where
  "hook_Receive hk = (case hk_channel hk of [] \<Rightarrow> None | m # q \<Rightarrow> Some (m, hk\<lparr>hk_channel := q\<rparr>))"

datatype logs_reply = LogsNotFound | BadPattern bool | LogsStream bool "(string \<times> string) list" log_hook

text \<open>
  \<open>LogsHandler\<close> behind the authorization: \<open>q\<close> and \<open>t\<close> are the query's fields, \<open>tail\<close> the last lines of a
  job's log for a stream. The flag is the reply's error for a method other than \<open>GET\<close>, behind which
  the code goes on.
\<close>

definition LogsHandler :: "(string \<Rightarrow> (string \<Rightarrow> bool) option) \<Rightarrow> (string \<Rightarrow> int option) \<Rightarrow> (nat \<Rightarrow> int \<Rightarrow> string \<Rightarrow> string list option)
    \<Rightarrow> string \<Rightarrow> bool \<Rightarrow> string \<Rightarrow> string \<Rightarrow> string list \<Rightarrow> 'd session \<Rightarrow> logs_reply" where
  "LogsHandler Compile Atoi tail meth flusher q t ks s =
     (let bad = (meth \<noteq> ''GET'') in
      if \<not> flusher then LogsNotFound
      else (case Compile (''(?i)'' @ (if q = [] then ''.*'' else q)) of
              None \<Rightarrow> BadPattern bad
            | Some pat \<Rightarrow>
                let n = (if t = [] then 50 else case Atoi t of None \<Rightarrow> 50 | Some n \<Rightarrow> n);
                    out = snd (range_jobs (\<lambda>_. se_Jobs s) pat
                      (\<lambda>p out. (None, out @ concat (map (\<lambda>kind. case tail p n kind of None \<Rightarrow> [] | Some ls \<Rightarrow> map (Pair kind) ls)
                         [''stdout'', ''stderr'']))) ks [])
                in LogsStream bad out \<lparr>hk_pattern = pat, hk_channel = []\<rparr>))"

lemma hook_bounded: "length (hk_channel hk) \<le> 128 \<Longrightarrow> length (hk_channel (hook_Write ns line kind hk)) \<le> 128"
  by (simp add: hook_Write_def)

end
