(* ===== verification/Startup.thy ===== *)
theory Startup
  imports Session Config
begin

text \<open>
  What \<open>Open\<close> of \<open>pkg/session/session.go\<close> does before it revives its jobs: the choice of a database and
  the killing of processes that an earlier daemon left; and the directories and defaults it takes from
  \<open>pkg/settings\<close>. The processes of the system are a parameter.
\<close>

section \<open>Directories\<close>

definition settings_Home :: "string option \<Rightarrow> string \<Rightarrow> string" where
  "settings_Home GOSUHOME userDir = (case GOSUHOME of Some home \<Rightarrow> home | None \<Rightarrow> userDir @ ''/.gosu'')"

text \<open>\<open>Subdir.Path\<close>: the path, the cache, and the directory it makes, if it does.\<close>

definition subdir_Path :: "string \<Rightarrow> string \<Rightarrow> (string \<Rightarrow> string option) \<Rightarrow> string \<times> (string \<Rightarrow> string option) \<times> string option" where
  "subdir_Path home s cache =
     (case cache s of
        Some path \<Rightarrow> (path, cache, None)
      | None \<Rightarrow> let path = home @ ''/'' @ s in (path, cache(s \<mapsto> path), Some path))"

lemma subdir_Path_stable:
  assumes "subdir_Path home s cache = (path, cache', made)"
  shows "subdir_Path home' s cache' = (path, cache', None)"
  using assms by (auto simp: subdir_Path_def Let_def split: option.splits)

section \<open>The database\<close>

definition default_service :: bool where
  "default_service = False"

text \<open>\<open>None\<close> is a database in memory; otherwise its directory.\<close>

definition db_location :: "bool \<Rightarrow> string \<Rightarrow> string option" where
  "db_location ephemeral dataDir = (if ephemeral then None else Some dataDir)"

definition openDatabase :: "(string option \<Rightarrow> 'e + 'd) \<Rightarrow> bool \<Rightarrow> string \<Rightarrow> ('k, 'v) collection \<Rightarrow> 'e + 'd \<times> ('k, 'v) collection" where
  "openDatabase badger_Open ephemeral dataDir c =
     (case badger_Open (db_location ephemeral dataDir) of Inl e \<Rightarrow> Inl e | Inr d \<Rightarrow> Inr (d, col_Open c ''jobs''))"

section \<open>Processes of an earlier daemon\<close>

text \<open>What the system tells of a process: its environment, and whether its parent runs, where it can tell.\<close>

record os_process =
  op_Pid :: int
  op_Environ :: "string list option"
  op_ParentRuns :: "bool option"

text \<open>The kills of \<open>Open\<close>, in their order, one for every variable whose name begins with \<open>GOSU_NS\<close>.\<close>

definition kills_of :: "os_process \<Rightarrow> int list" where
  "kills_of p =
     (case op_Environ p of
        None \<Rightarrow> []
      | Some env \<Rightarrow>
          concat (map (\<lambda>e. if HasPrefix e ''GOSU_NS'' then (if op_ParentRuns p = Some True then [] else [op_Pid p]) else []) env))"

definition stale_kills :: "os_process list option \<Rightarrow> int list" where
  "stale_kills processlist = (case processlist of None \<Rightarrow> [] | Some ps \<Rightarrow> concat (map kills_of ps))"

lemma kills_of_mem:
  "pid \<in> set (kills_of p) \<longleftrightarrow> op_Pid p = pid \<and> op_ParentRuns p \<noteq> Some True
     \<and> (\<exists>env e. op_Environ p = Some env \<and> e \<in> set env \<and> HasPrefix e ''GOSU_NS'')"
  by (cases "op_Environ p"; cases "op_ParentRuns p = Some True") (auto simp: kills_of_def)

text \<open>
  Exactly the readable processes with a namespace of gosu whose parent is not known to run are
  killed; the processes of a daemon that still runs are not.
\<close>

theorem stale_kills_exact:
  "pid \<in> set (stale_kills (Some ps)) \<longleftrightarrow>
     (\<exists>p env. p \<in> set ps \<and> op_Pid p = pid \<and> op_Environ p = Some env \<and> op_ParentRuns p \<noteq> Some True
        \<and> (\<exists>e. e \<in> set env \<and> HasPrefix e ''GOSU_NS''))"
  unfolding stale_kills_def option.case set_concat set_map UN_iff bex_simps kills_of_mem by blast

text \<open>
  A process whose parent has died is adopted by a running one, so no process of a daemon that has died
  is killed.
\<close>

lemma adopted_processes_survive: "op_ParentRuns p = Some True \<Longrightarrow> kills_of p = []"
  by (auto simp: kills_of_def split: option.splits)

end
