(* ===== verification/Client.thy ===== *)
theory Client
  imports ArgReader
begin

text \<open>
  \<open>pkg/client/main.go\<close>: the command line, the table of commands and the calls each makes, and the start
  of the daemon. What the flags and the body are decoded into, and whether the daemon answers, are
  parameters; what a command prints is left out.
\<close>

section \<open>The command line\<close>

definition client_quote :: "string \<Rightarrow> string" where
  "client_quote s = CHR 0x22 # ReplaceAll (CHR 0x22) [CHR 0x5C, CHR 0x22] s @ [CHR 0x22]"

text \<open>A flag with a space is quoted behind its \<open>=\<close>, or as a whole when no \<open>=\<close> precedes the space.\<close>

definition flag_text :: "string \<Rightarrow> string" where
  "flag_text arg =
     (case IndexByte arg (CHR '' '') of
        None \<Rightarrow> arg
      | Some sp \<Rightarrow>
          (case IndexByte arg (CHR ''='') of
             Some i \<Rightarrow> if i < sp then take (i + 1) arg @ client_quote (drop (i + 1) arg) else client_quote arg
           | None \<Rightarrow> client_quote arg))"

fun build_args :: "string list \<Rightarrow> string \<Rightarrow> string \<Rightarrow> string \<times> string" where
  "build_args [] body args = (body, args)"
| "build_args (arg # rest) body args =
     (if \<not> HasPrefix arg ''-'' then build_args rest (if body = [] then arg else body) args
      else build_args rest body (args @ flag_text arg @ '' ''))"

definition client_line :: "string list \<Rightarrow> string \<times> string \<times> string" where
  "client_line argv = (case argv of [] \<Rightarrow> ([], [], []) | cmd # rest \<Rightarrow> (ToLower cmd, build_args rest [] []))"

section \<open>Commands\<close>

datatype client_cmd =
    CView
  | CList
  | CPut
  | CGet
  | CSignal
  | CShutdown
  | CCreate string
  | CCtl string

definition addCommand :: "string list \<Rightarrow> client_cmd \<Rightarrow> (string \<Rightarrow> client_cmd option) \<Rightarrow> (string \<Rightarrow> client_cmd option)" where
  "addCommand names c m = fold (\<lambda>n m. m(n \<mapsto> c)) names m"

definition client_commands :: "string \<Rightarrow> client_cmd option" where
  "client_commands =
     fold (\<lambda>(names, c). addCommand names c)
       [([''view'', ''v''], CView), ([''list'', ''ls''], CList), ([''put''], CPut), ([''get''], CGet),
        ([''signal''], CSignal), ([''shutdown''], CShutdown),
        ([''update'', ''u''], CCreate ''job.Update''), ([''launch'', ''a''], CCreate ''job.Launch''),
        ([''start'', ''s''], CCtl ''job.Start''), ([''stop'', ''x''], CCtl ''job.Stop''),
        ([''restart'', ''r''], CCtl ''job.Restart''), ([''kill'', ''k''], CCtl ''job.Kill''),
        ([''delete'', ''d''], CCtl ''job.Delete'')] Map.empty"

datatype 'm call_arg = ArgText string | ArgKey string string | ArgManifest 'm | ArgInt int | ArgNil

datatype client_err = ReadFlags rerr | InvalidKey string

text \<open>
  The flags are decoded into a manifest (\<open>cl_decode\<close>, over the zero one), and the body, as a JSON
  string, into its main task (\<open>cl_main\<close>, \<open>None\<close> being an error).
\<close>

record 'm client_env =
  cl_reader :: reader_env
  cl_zero :: 'm
  cl_decode :: "(string \<times> jany) list \<Rightarrow> 'm \<Rightarrow> rerr option \<times> 'm"
  cl_main :: "string \<Rightarrow> 'm \<Rightarrow> 'm option"

definition call_key :: "string \<Rightarrow> string \<Rightarrow> client_err + (string \<times> 'm call_arg) list" where
  "call_key rpc_method job_key =
     (case str_cut (CHR '':'') job_key of
        (before, after, True) \<Rightarrow> Inr [(rpc_method, ArgKey before after)]
      | (_, _, False) \<Rightarrow> Inl (InvalidKey job_key))"

definition create_calls :: "'m client_env \<Rightarrow> string \<Rightarrow> string \<Rightarrow> 'm arg_target \<Rightarrow> (string \<times> 'm call_arg) list" where
  "create_calls E rpc_method body t =
     (case t of
        TOther mf \<Rightarrow> (case cl_main E body mf of None \<Rightarrow> [] | Some mf' \<Rightarrow> [(rpc_method, ArgManifest mf')])
      | _ \<Rightarrow> [])"

text \<open>The calls of a command, of which \<open>view\<close> repeats its own; an error ends the program with code 1.\<close>

definition run_client_cmd :: "'m client_env \<Rightarrow> client_cmd \<Rightarrow> string \<Rightarrow> string \<Rightarrow> client_err + (string \<times> 'm call_arg) list" where
  "run_client_cmd E c body flags =
     (case c of
        CView \<Rightarrow> Inr [(''job.List'', ArgText body)]
      | CList \<Rightarrow> Inr [(''job.List'', ArgText body)]
      | CPut \<Rightarrow>
          (case fst (rd_Unmarshal (cl_reader E) (\<lambda>m v. (None, v)) (TOther ()) flags) of
             Some e \<Rightarrow> Inl (ReadFlags e)
           | None \<Rightarrow> call_key ''whiteboard.Put'' body)
      | CGet \<Rightarrow> call_key ''whiteboard.Get'' body
      | CSignal \<Rightarrow> Inr [(''event.Signal'', ArgText body)]
      | CShutdown \<Rightarrow> Inr [(''daemon.Shutdown'', ArgNil)]
      | CCreate rpc_method \<Rightarrow>
          (case rd_Unmarshal (cl_reader E) (cl_decode E) (TOther (cl_zero E)) flags of
             (Some e, _) \<Rightarrow> Inl (ReadFlags e)
           | (None, t) \<Rightarrow> Inr (create_calls E rpc_method body t))
      | CCtl rpc_method \<Rightarrow> Inr [(rpc_method, ArgText body)])"

definition client_Run :: "'m client_env \<Rightarrow> string list \<Rightarrow> nat \<times> (string \<times> 'm call_arg) list" where
  "client_Run E argv =
     (case client_line argv of
        (cmd, body, args) \<Rightarrow>
          (case client_commands cmd of
             None \<Rightarrow> (0, [])
           | Some c \<Rightarrow> (case run_client_cmd E c body args of Inl e \<Rightarrow> (1, []) | Inr calls \<Rightarrow> (0, calls))))"

text \<open>The pings of a daemon that was started, \<open>up i\<close> being the answer to the \<open>i\<close>th.\<close>

fun ping_loop :: "(nat \<Rightarrow> bool) \<Rightarrow> nat \<Rightarrow> nat \<Rightarrow> nat" where
  "ping_loop up i 0 = 0"
| "ping_loop up i (Suc n) = Suc (if up i then 0 else ping_loop up (Suc i) n)"

text \<open>Whether a daemon is started, and how often it is asked.\<close>

definition getClient :: "bool \<Rightarrow> bool \<Rightarrow> (nat \<Rightarrow> bool) \<Rightarrow> bool \<times> nat" where
  "getClient cached running up = (if cached \<or> running then (False, 0) else (True, ping_loop up 0 50))"

section \<open>Flags reach the manifest\<close>

definition word_text :: "string \<Rightarrow> bool" where
  "word_text t \<longleftrightarrow> t \<noteq> [] \<and> TestRune identifierOkFirst (hd t) \<and> list_all (TestRune identifierOk) t"

lemma id_rest_word:
  "list_all (TestRune identifierOk) k \<Longrightarrow> \<not> TestRune identifierOk c \<Longrightarrow> id_rest False (k @ c # r) = (k, c # r)"
  by (induction k) auto

lemma word_text_read:
  assumes "word_text t"
  shows "word_for env t (JStr t)"
  unfolding word_for_def
proof (intro allI impI)
  fix r n
  assume "4 * length (t @ CHR '' '' # r) + 1 \<le> n"
  then obtain m where n: "n = Suc m" by (cases n) auto
  obtain a s where t: "t = a # s" using assms by (cases t) (auto simp: word_text_def)
  note a = first_rune [of a]
  have "id_rest False (s @ CHR '' '' # r) = (s, CHR '' '' # r)"
    using assms by (intro id_rest_word) (auto simp: word_text_def t)
  then show "rd_Any env n (t @ CHR '' '' # r) = (Inr (JStr t), CHR '' '' # r)"
    using assms a by (simp add: n t word_text_def rd_Any.simps rd_ID_def)
qed

lemma client_quote_shown: "CHR 0x5C \<notin> set s \<Longrightarrow> client_quote s = show_quoted s"
  by (induction s) (auto simp: client_quote_def show_quoted_def ReplaceAll_def)

lemma quoted_read: "CHR 0x5C \<notin> set s \<Longrightarrow> word_for env (client_quote s) (JStr s)"
  using rd_Any_string [of _ env s] by (simp add: word_for_def client_quote_shown)

text \<open>What the shell hands over for a flag, and what the flag means.\<close>

definition flag_arg :: "string \<times> string \<Rightarrow> string" where
  "flag_arg f = ''--'' @ fst f @ ''='' @ snd f"

definition plain_flag :: "string \<times> string \<Rightarrow> bool" where
  "plain_flag f \<longleftrightarrow>
     good_key (fst f) \<and> (if CHR '' '' \<in> set (snd f) then CHR 0x5C \<notin> set (snd f) else word_text (snd f))"

lemma IndexByte_skip: "c \<notin> set k \<Longrightarrow> IndexByte (k @ c # s) c = Some (length k)"
  by (induction k) auto

lemma IndexByte_behind:
  "c \<notin> set k \<Longrightarrow> c \<in> set s \<Longrightarrow> \<exists>i. IndexByte (k @ s) c = Some i \<and> length k \<le> i"
  by (induction k) (auto simp: IndexByte_None not_None_eq [symmetric] simp del: not_None_eq)

lemma key_runes: "good_key k \<Longrightarrow> CHR '' '' \<notin> set k \<and> CHR ''='' \<notin> set k"
  by (auto simp: good_key_def list_all_iff)

lemma flag_text_plain:
  assumes "plain_flag f"
  shows "\<exists>t. flag_text (flag_arg f) @ '' '' = show_flag (fst f, t, JStr (snd f)) \<and> word_for env t (JStr (snd f))"
proof (cases "CHR '' '' \<in> set (snd f)")
  case True
  let ?k = "CHR ''-'' # CHR ''-'' # fst f"
  have k: "CHR '' '' \<notin> set (?k @ ''='')" "CHR ''='' \<notin> set ?k" using key_runes assms by (auto simp: plain_flag_def)
  have arg: "flag_arg f = (?k @ ''='') @ snd f" by (simp add: flag_arg_def)
  obtain sp where sp: "IndexByte (flag_arg f) (CHR '' '') = Some sp" "length (?k @ ''='') \<le> sp"
    using IndexByte_behind [OF k(1) True] arg by metis
  have i: "IndexByte (flag_arg f) (CHR ''='') = Some (length ?k)" using IndexByte_skip [OF k(2), of "snd f"] arg by simp
  have "flag_text (flag_arg f) = (?k @ ''='') @ client_quote (snd f)"
    unfolding flag_text_def sp(1) i using sp(2) by (simp add: arg)
  then have "flag_text (flag_arg f) @ '' '' = show_flag (fst f, client_quote (snd f), JStr (snd f))"
    by (simp add: show_flag_def)
  moreover have "word_for env (client_quote (snd f)) (JStr (snd f))"
    using assms True by (intro quoted_read) (simp add: plain_flag_def)
  ultimately show ?thesis by blast
next
  case False
  then have "CHR '' '' \<notin> set (flag_arg f)" using key_runes assms by (auto simp: plain_flag_def flag_arg_def)
  then have "flag_text (flag_arg f) = flag_arg f" by (simp add: flag_text_def flip: IndexByte_None)
  then have "flag_text (flag_arg f) @ '' '' = show_flag (fst f, snd f, JStr (snd f))" by (simp add: show_flag_def flag_arg_def)
  moreover have "word_for env (snd f) (JStr (snd f))" using assms False by (intro word_text_read) (simp add: plain_flag_def)
  ultimately show ?thesis by blast
qed

lemma build_args_flags:
  "build_args (map flag_arg fs) body args = (body, args @ concat (map (\<lambda>f. flag_text (flag_arg f) @ '' '') fs))"
  by (induction fs arbitrary: args) (simp_all add: flag_arg_def HasPrefix_def)

lemma flags_reach:
  assumes "list_all plain_flag fs" and "distinct (map fst fs)" and "\<not> HasPrefix body ''-''" and "body \<noteq> []"
    and "client_commands (ToLower cmd) = Some (CCreate rpc_method)"
    and "cl_decode E (map (\<lambda>(k, v). (k, JStr v)) fs) (cl_zero E) = (None, mf)" and "cl_main E body mf = Some mf'"
  shows "client_Run E (cmd # map flag_arg fs @ [body]) = (0, [(rpc_method, ArgManifest mf')])"
proof -
  define t where "t f = (SOME t. flag_text (flag_arg f) @ '' '' = show_flag (fst f, t, JStr (snd f))
      \<and> word_for (cl_reader E) t (JStr (snd f)))" for f
  have t: "flag_text (flag_arg f) @ '' '' = show_flag (fst f, t f, JStr (snd f)) \<and> word_for (cl_reader E) (t f) (JStr (snd f))"
    if "f \<in> set fs" for f
    unfolding t_def by (rule someI_ex, rule flag_text_plain) (use assms(1) that in \<open>auto simp: list_all_iff\<close>)
  let ?fs = "map (\<lambda>f. (fst f, t f, JStr (snd f))) fs"
  have shown: "concat (map (\<lambda>f. flag_text (flag_arg f) @ '' '') fs) = concat (map show_flag ?fs)"
    using t by (simp add: comp_def cong: map_cong)
  have fs: "map (\<lambda>(k, t, v). (k, v)) ?fs = map (\<lambda>(k, v). (k, JStr v)) fs" by (simp add: split_beta)
  have "rd_Set (cl_reader E) (concat (map show_flag ?fs)) = (Inr (map (\<lambda>(k, t, v). (k, v)) ?fs), [])"
    by (rule flags_are_read) (use t assms(1,2) in \<open>auto simp: list_all_iff plain_flag_def comp_def\<close>)
  then have read: "rd_Set (cl_reader E) (concat (map show_flag ?fs)) = (Inr (map (\<lambda>(k, v). (k, JStr v)) fs), [])"
    by (simp only: fs)
  have "build_args (map flag_arg fs @ [body]) [] args = (body, args @ concat (map (\<lambda>f. flag_text (flag_arg f) @ '' '') fs))" for args
    using assms(3) by (induction fs arbitrary: args) (simp_all add: flag_arg_def HasPrefix_def)
  then have line: "client_line (cmd # map flag_arg fs @ [body]) = (ToLower cmd, body, concat (map show_flag ?fs))"
    by (simp add: client_line_def shown)
  show ?thesis
    using assms(5,6,7)
    by (simp add: client_Run_def line run_client_cmd_def rd_Unmarshal_def create_calls_def read del: map_map concat_map_singleton)
qed



section \<open>Where the command line is not what it seems\<close>

text \<open>
  A flag with a space and no \<open>=\<close> before it ends the reading: its opening quote is no letter, \<open>ID\<close> gives
  \<open>io.EOF\<close>, and the flags behind it are silently dropped. A backslash in a value escapes what follows.
\<close>

lemma spaced_flag_drops_the_rest:
  "fst (rd_Set sample_env (snd (build_args [''--id=a'', ''--my flag'', ''--cwd=b''] [] []))) = Inr [(''id'', JStr ''a'')]"
  by code_simp

lemma backslash_lost:
  "fst (rd_Set sample_env (snd (build_args [''--cwd=C:'' @ CHR 0x5C # ''my dir''] [] []))) = Inr [(''cwd'', JStr ''C:my dir'')]"
  by code_simp

text \<open>The daemon is asked at most fifty times, and what follows does not depend on an answer.\<close>

lemma pings_bounded: "snd (getClient cached running up) \<le> 50 \<and> (fst (getClient cached running up) \<longrightarrow> 1 \<le> snd (getClient cached running up))"
proof -
  have "ping_loop up i n \<le> n" for i n by (induction n arbitrary: i) auto
  then show ?thesis by (simp add: getClient_def) (simp add: numeral_eq_Suc)
qed

end
