(* ===== verification/Surpc.thy ===== *)
theory Surpc
  imports Go_Strings "HOL-Library.Word"
begin

text \<open>
  \<open>pkg/surpc\<close> and the settings it reads (\<open>pkg/settings/rpc.go\<close>): who may call the daemon, the cipher
  over a connection, the client's choice of a transport and the listeners. SHA-256, AES in OFB mode, the
  parsing of URLs and addresses, base64 and the transports are parameters; a key stream is a function
  from positions to bytes. A slice out of range is a panic.
\<close>

section \<open>Settings of the RPC\<close>

record rpc_settings =
  rp_LocalAddress :: string
  rp_RemoteAddresses :: "string list"
  rp_Secret :: string
  rp_Seed :: string

definition rpc_Addresses :: "rpc_settings \<Rightarrow> string list" where
  "rpc_Addresses s = rp_LocalAddress s # rp_RemoteAddresses s"

definition CipherKey :: "(string \<Rightarrow> 'k) \<Rightarrow> rpc_settings \<Rightarrow> 'k option" where
  "CipherKey sha256 s = (if rp_Seed s = [] then None else Some (sha256 (rp_Seed s @ rp_Secret s)))"

text \<open>\<open>NewCipher\<close>, whose block is nil without a seed; \<open>NewOFB\<close> then dereferences it.\<close>

definition NewCipher :: "(string \<Rightarrow> 'k) \<Rightarrow> rpc_settings \<Rightarrow> 'k option" where
  "NewCipher sha256 s = CipherKey sha256 s"

section \<open>Authorization\<close>

datatype authorization = AuthPanics | Forbidden | Authorized "string option"

text \<open>\<open>loopback\<close> says that a text is an IP address of this machine; the result's text is the IV of the
  cipher that the request and its answer use.\<close>

definition Authorize :: "(string \<Rightarrow> bool) \<Rightarrow> (string \<Rightarrow> string option) \<Rightarrow> rpc_settings \<Rightarrow> string \<Rightarrow> string \<Rightarrow> string \<Rightarrow> authorization" where
  "Authorize loopback base64 st xsecret xiv remote =
     (if xsecret = [] then (if loopback (fst (str_cut (CHR '':'') remote)) then Authorized None else Forbidden)
      else if rp_Secret st = [] then Authorized None
      else if length (rp_Secret st) < 8 \<or> length xsecret < 8 then AuthPanics
      else if take 8 (rp_Secret st) \<noteq> take 8 xsecret then Forbidden
      else (case base64 xiv of None \<Rightarrow> Forbidden | Some iv \<Rightarrow> if length iv \<noteq> 16 then Forbidden else Authorized (Some iv)))"



text \<open>
  With an empty secret anyone is let in who sends any secret at all, from anywhere and without a
  cipher, although the same request without the header is refused.
\<close>

theorem empty_secret_opens:
  assumes "rp_Secret st = []" and "xsecret \<noteq> []" and "\<not> loopback (fst (str_cut (CHR '':'') remote))"
  shows "Authorize loopback base64 st xsecret xiv remote = Authorized None \<and> Authorize loopback base64 st [] xiv remote = Forbidden"
  using assms by (simp add: Authorize_def)

lemma empty_secret_opens_witness:
  "Authorize (\<lambda>_. False) (\<lambda>_. None) \<lparr>rp_LocalAddress = [], rp_RemoteAddresses = [], rp_Secret = [], rp_Seed = []\<rparr> ''x'' [] ''8.8.8.8:1'' = Authorized None
   \<and> Authorize (\<lambda>_. False) (\<lambda>_. None) \<lparr>rp_LocalAddress = [], rp_RemoteAddresses = [], rp_Secret = [], rp_Seed = []\<rparr> [] [] ''8.8.8.8:1'' = Forbidden"
  by (rule empty_secret_opens) simp_all

text \<open>A secret of fewer than eight characters, on either side, is a panic of the handler.\<close>

lemma short_secret_panics:
  "rp_Secret st \<noteq> [] \<Longrightarrow> xsecret \<noteq> [] \<Longrightarrow> length (rp_Secret st) < 8 \<or> length xsecret < 8 \<Longrightarrow>
   Authorize loopback base64 st xsecret xiv remote = AuthPanics"
  by (simp add: Authorize_def)

text \<open>A client on the IPv6 loopback is refused: what precedes the first colon of its address is a bracket.\<close>

lemma ipv6_loopback_refused:
  "\<not> loopback ''['' \<Longrightarrow> Authorize loopback base64 st [] xiv ''[::1]:5000'' = Forbidden"
  by (simp add: Authorize_def)

section \<open>The cipher\<close>

type_synonym byte = "8 word"

type_synonym keystream = "nat \<Rightarrow> byte"

text \<open>A stream in OFB mode, from position \<open>n\<close>: the bytes and the next position.\<close>

fun xor_stream :: "keystream \<Rightarrow> nat \<Rightarrow> byte list \<Rightarrow> byte list" where
  "xor_stream ks n [] = []"
| "xor_stream ks n (b # bs) = xor b (ks n) # xor_stream ks (Suc n) bs"

record cipher_rwc =
  cw_stream :: keystream
  cw_read :: nat
  cw_written :: nat

definition NewCipherRWC :: "(string \<Rightarrow> 'k) \<Rightarrow> ('k \<Rightarrow> string \<Rightarrow> keystream) \<Rightarrow> rpc_settings \<Rightarrow> string \<Rightarrow> cipher_rwc option" where
  "NewCipherRWC sha256 ofb st iv =
     map_option (\<lambda>k. \<lparr>cw_stream = ofb k iv, cw_read = 0, cw_written = 0\<rparr>) (NewCipher sha256 st)"

definition cw_Write :: "byte list \<Rightarrow> cipher_rwc \<Rightarrow> byte list \<times> cipher_rwc" where
  "cw_Write p c = (xor_stream (cw_stream c) (cw_written c) p, c\<lparr>cw_written := cw_written c + length p\<rparr>)"

definition cw_Read :: "byte list \<Rightarrow> cipher_rwc \<Rightarrow> byte list \<times> cipher_rwc" where
  "cw_Read p c = (xor_stream (cw_stream c) (cw_read c) p, c\<lparr>cw_read := cw_read c + length p\<rparr>)"

text \<open>A sequence of writes, or of reads, and all the bytes it passes on.\<close>

fun cw_Writes :: "byte list list \<Rightarrow> cipher_rwc \<Rightarrow> byte list" where
  "cw_Writes [] c = []"
| "cw_Writes (p # ps) c = (case cw_Write p c of (out, c') \<Rightarrow> out @ cw_Writes ps c')"

fun cw_Reads :: "byte list list \<Rightarrow> cipher_rwc \<Rightarrow> byte list" where
  "cw_Reads [] c = []"
| "cw_Reads (p # ps) c = (case cw_Read p c of (out, c') \<Rightarrow> out @ cw_Reads ps c')"

lemma xor_stream_append: "xor_stream ks n (xs @ ys) = xor_stream ks n xs @ xor_stream ks (n + length xs) ys"
  by (induction xs arbitrary: n) simp_all

lemma xor_stream_twice [simp]: "xor_stream ks n (xor_stream ks n xs) = xs"
  by (induction xs arbitrary: n) (simp_all add: xor.assoc)

lemma cw_Writes_all: "cw_Writes ps c = xor_stream (cw_stream c) (cw_written c) (concat ps)"
  by (induction ps arbitrary: c) (simp_all add: cw_Write_def xor_stream_append)

lemma cw_Reads_all: "cw_Reads ps c = xor_stream (cw_stream c) (cw_read c) (concat ps)"
  by (induction ps arbitrary: c) (simp_all add: cw_Read_def xor_stream_append)

text \<open>
  C34. Over a connection that both ends wrapped with the same settings and the same IV, what is read is
  what was written, however the bytes are cut into writes and into reads.
\<close>

theorem cipher_transparent:
  assumes "NewCipherRWC sha256 ofb st iv = Some client" and "NewCipherRWC sha256 ofb st iv = Some server"
    and "concat chunks = cw_Writes msgs client"
  shows "cw_Reads chunks server = concat msgs"
  using assms by (auto simp: NewCipherRWC_def cw_Reads_all cw_Writes_all)

lemma cipher_transparent_witness:
  "cw_Reads [[xor 1 5], [xor 2 6, xor 3 7]] \<lparr>cw_stream = (\<lambda>n. of_nat n + 5), cw_read = 0, cw_written = 0\<rparr> = concat [[1, 2], [3 :: byte]]"
  by (rule cipher_transparent [of "\<lambda>_. ()" "\<lambda>_ _ n. of_nat n + 5" "\<lparr>rp_LocalAddress = [], rp_RemoteAddresses = [], rp_Secret = [], rp_Seed = ''s''\<rparr>"
        "''iv''" "\<lparr>cw_stream = (\<lambda>n. of_nat n + 5), cw_read = 0, cw_written = 0\<rparr>"])
    (simp_all add: NewCipherRWC_def NewCipher_def CipherKey_def cw_Write_def)

text \<open>
  The request and its answer are encrypted with the same stream: someone who sees both has the
  difference of the two plain texts.
\<close>

lemma keystream_reused:
  assumes "NewCipherRWC sha256 ofb st iv = Some client" and "NewCipherRWC sha256 ofb st iv = Some server"
  shows "map2 xor (cw_Writes [req] client) (cw_Writes [ans] server) = map2 xor req ans"
proof -
  have "map2 xor (xor_stream ks n xs) (xor_stream ks n ys) = map2 xor xs ys" for ks n xs ys
  proof (induction xs arbitrary: n ys)
    case (Cons x xs)
    have "xor (xor x k) (xor y k) = xor x y" for k y :: byte
      by (metis (no_types) xor.assoc xor.commute xor_self_eq xor.right_neutral)
    then show ?case using Cons.IH by (cases ys) simp_all
  qed simp
  then show ?thesis using assms by (auto simp: NewCipherRWC_def cw_Writes_all)
qed

section \<open>The server\<close>

datatype rpc_reply = ReplyPanic | ReplyForbidden | ReplyWebsocket bool "string option" | ReplyHttp nat string string

text \<open>\<open>RpcHandler\<close>: \<open>serve\<close> is the answer of the codec, with an error or not, to a POST.\<close>

definition RpcHandler :: "authorization \<Rightarrow> string \<Rightarrow> (string option \<Rightarrow> bool \<times> string) \<Rightarrow> rpc_reply" where
  "RpcHandler auth meth serve =
     (case auth of
        AuthPanics \<Rightarrow> ReplyPanic
      | Forbidden \<Rightarrow> ReplyForbidden
      | Authorized secure \<Rightarrow>
          if meth \<noteq> ''POST'' then ReplyWebsocket (meth = ''GET'') secure
          else let ctype = (if secure \<noteq> None then ''application/json'' else ''application/octet-stream'') in
            (case serve secure of
               (err, out) \<Rightarrow> if err \<and> out = [] then ReplyHttp 500 ctype [] else ReplyHttp 200 ctype out))"

text \<open>The types are the wrong way round: a plain JSON answer is labelled as bytes, an encrypted one as JSON.\<close>

lemma content_types_swapped:
  "RpcHandler (Authorized None) ''POST'' serve \<in> range (\<lambda>(c, b). ReplyHttp c ''application/octet-stream'' b)"
  "RpcHandler (Authorized (Some iv)) ''POST'' serve \<in> range (\<lambda>(c, b). ReplyHttp c ''application/json'' b)"
  by (auto simp: RpcHandler_def image_iff Let_def split: prod.splits)

record rpc_server =
  sv_listeners :: "nat list"

definition server_Listen :: "(string \<Rightarrow> nat option) \<Rightarrow> string \<Rightarrow> rpc_server \<Rightarrow> bool \<times> rpc_server" where
  "server_Listen net_Listen adr s =
     (if HasPrefix adr ''http://''
      then (case net_Listen (drop 7 adr) of None \<Rightarrow> (False, s) | Some l \<Rightarrow> (True, s\<lparr>sv_listeners := sv_listeners s @ [l]\<rparr>))
      else (False, s))"

fun server_ListenAll :: "(string \<Rightarrow> nat option) \<Rightarrow> string list \<Rightarrow> rpc_server \<Rightarrow> bool \<times> rpc_server" where
  "server_ListenAll net [] s = (True, s)"
| "server_ListenAll net (a # as) s =
     (case server_Listen net a s of (False, s') \<Rightarrow> (False, s') | (True, s') \<Rightarrow> server_ListenAll net as s')"

definition server_Close :: "rpc_server \<Rightarrow> nat list" where
  "server_Close s = sv_listeners s"

text \<open>What was opened is closed, when a later address failed too.\<close>

lemma listeners_closed:
  "server_Close (snd (server_ListenAll net as s)) = server_Close s
     @ map (\<lambda>a. the (net (drop 7 a))) (takeWhile (\<lambda>a. HasPrefix a ''http://'' \<and> net (drop 7 a) \<noteq> None) as)"
proof (induction as arbitrary: s)
  case (Cons a as)
  then show ?case by (auto simp: server_Listen_def server_Close_def split: option.splits)
qed (simp add: server_Close_def)

section \<open>The client\<close>

record rpc_client =
  rc_Secure :: "string option"
  rc_Ws :: "nat option"

text \<open>\<open>NewClient\<close>, of the host name in its URL; \<open>None\<close> is a panic. The header of a secure client carries
  the first eight characters of the secret.\<close>

definition NewClient :: "rpc_settings \<Rightarrow> string \<Rightarrow> rpc_client option" where
  "NewClient st host =
     (if host \<in> {''localhost'', ''[::1]'', ''127.0.0.1''} \<or> rp_Secret st = [] then Some \<lparr>rc_Secure = None, rc_Ws = None\<rparr>
      else if length (rp_Secret st) < 8 then None
      else Some \<lparr>rc_Secure = Some (take 8 (rp_Secret st)), rc_Ws = None\<rparr>)"

text \<open>\<open>Open\<close>: the socket or the error; \<open>dial\<close> is the attempt to connect.\<close>

definition client_Open :: "nat option \<Rightarrow> bool \<Rightarrow> rpc_client \<Rightarrow> (nat option \<times> bool) \<times> rpc_client" where
  "client_Open dial force c =
     (if rc_Ws c \<noteq> None \<and> \<not> force then ((rc_Ws c, False), c)
      else (case dial of None \<Rightarrow> ((None, True), c) | Some ws \<Rightarrow> ((Some ws, False), c\<lparr>rc_Ws := Some ws\<rparr>)))"

text \<open>\<open>Call\<close>, over what an exchange by HTTP and a call over a socket answer, the error of the latter being
  \<open>None\<close>.\<close>

definition client_Call :: "nat option \<Rightarrow> nat option \<Rightarrow> (nat \<Rightarrow> 'r option) \<Rightarrow> 'r option \<Rightarrow> rpc_client \<Rightarrow> 'r option \<times> rpc_client" where
  "client_Call dial redial ws_call http c =
     (case client_Open dial False c of
        ((ws, err), c) \<Rightarrow>
          if err \<and> ws \<noteq> None
          then (case ws_call (the ws) of
                  Some r \<Rightarrow> (Some r, c)
                | None \<Rightarrow>
                    (case client_Open redial True c of
                       ((ws, err), c) \<Rightarrow> (if err then None else ws_call (the ws), c)))
          else (http, c))"

text \<open>The exchange by HTTP: the request, the status, the header of the answer with its error, its body.\<close>

datatype 'r http_result = WriteFailed | DoFailed | BadStatus nat | BadHeader | RpcFailed string | HttpReply "'r option"

definition call_http :: "'q option \<Rightarrow> ('q \<Rightarrow> (nat \<times> 'a) option) \<Rightarrow> ('a \<Rightarrow> string option) \<Rightarrow> ('a \<Rightarrow> 'r option) \<Rightarrow> 'r http_result" where
  "call_http req send header body =
     (case req of
        None \<Rightarrow> WriteFailed
      | Some q \<Rightarrow>
          (case send q of
             None \<Rightarrow> DoFailed
           | Some (code, a) \<Rightarrow>
               if code \<noteq> 200 then BadStatus code
               else (case header a of
                       None \<Rightarrow> BadHeader
                     | Some e \<Rightarrow> if e \<noteq> [] then RpcFailed e else HttpReply (body a))))"

text \<open>
  The websocket is opened and never used: \<open>Call\<close> asks for an error together with a socket, which
  \<open>Open\<close> never returns, so every call is a request of its own by HTTP.
\<close>

theorem websocket_never_used:
  "fst (client_Call dial redial ws_call http c) = http"
  by (auto simp: client_Call_def client_Open_def split: option.splits)

section \<open>The halves of a cipher\<close>

text \<open>\<open>NewCipherWriter\<close> and \<open>NewCipherReader\<close>: a stream and how far it is; \<open>None\<close> is the panic.\<close>

definition NewCipherWriter :: "(string \<Rightarrow> 'k) \<Rightarrow> ('k \<Rightarrow> string \<Rightarrow> keystream) \<Rightarrow> rpc_settings \<Rightarrow> string \<Rightarrow> (keystream \<times> nat) option" where
  "NewCipherWriter sha256 ofb st iv = map_option (\<lambda>k. (ofb k iv, 0)) (NewCipher sha256 st)"

definition NewCipherReader :: "(string \<Rightarrow> 'k) \<Rightarrow> ('k \<Rightarrow> string \<Rightarrow> keystream) \<Rightarrow> rpc_settings \<Rightarrow> string \<Rightarrow> (keystream \<times> nat) option" where
  "NewCipherReader sha256 ofb st iv = map_option (\<lambda>k. (ofb k iv, 0)) (NewCipher sha256 st)"

fun half_passes :: "byte list list \<Rightarrow> keystream \<times> nat \<Rightarrow> byte list" where
  "half_passes [] c = []"
| "half_passes (p # ps) (ks, n) = xor_stream ks n p @ half_passes ps (ks, n + length p)"

lemma half_passes_all: "half_passes ps (ks, n) = xor_stream ks n (concat ps)"
  by (induction ps arbitrary: n) (simp_all add: xor_stream_append)

text \<open>A reader understands a writer, and the far end of a \<open>CipherRWC\<close>, with the same settings and vector.\<close>

lemma halves_agree:
  assumes "NewCipherWriter sha256 ofb st iv = Some w" and "NewCipherReader sha256 ofb st iv = Some r" and "NewCipherRWC sha256 ofb st iv = Some c"
    and "concat chunks = half_passes msgs w"
  shows "half_passes chunks r = concat msgs" and "cw_Reads chunks c = concat msgs"
  using assms by (auto simp: NewCipherWriter_def NewCipherReader_def NewCipherRWC_def half_passes_all cw_Reads_all)

text \<open>\<open>NewServer\<close> and \<open>Serve\<close>: the error of a server that was closed is none.\<close>

definition NewServer :: rpc_server where
  "NewServer = \<lparr>sv_listeners = []\<rparr>"

datatype 'e serve_err = ErrServerClosed | ServeErr 'e

definition server_Serve :: "'e serve_err option \<Rightarrow> 'e serve_err option" where
  "server_Serve err = (if err \<noteq> None \<and> err \<noteq> Some ErrServerClosed then err else None)"

lemma new_server_closes: "server_ListenAll net as NewServer = (ok, s) \<Longrightarrow> length (server_Close s) \<le> length as"
proof -
  have "length (sv_listeners s) \<le> length (sv_listeners s0) + length as" if "server_ListenAll net as s0 = (ok, s)" for s0
    using that
  proof (induction as arbitrary: s0)
    case (Cons a as)
    obtain b s1 where l: "server_Listen net a s0 = (b, s1)" by fastforce
    have "length (sv_listeners s1) \<le> Suc (length (sv_listeners s0))"
      using l by (auto simp: server_Listen_def split: if_splits option.splits)
    then show ?case using Cons.IH [of s1] Cons.prems l by (cases b) auto
  qed simp
  then show "server_ListenAll net as NewServer = (ok, s) \<Longrightarrow> length (server_Close s) \<le> length as"
    by (fastforce simp: NewServer_def server_Close_def)
qed

end
