(* ===== verification/RpcExchange.thy ===== *)
theory RpcExchange
  imports Surpc Config
begin

text \<open>
  One call from end to end: the headers of \<open>pkg/surpc/client.go\<close>, the codecs of \<open>codec.go\<close>, the
  authorization of \<open>server.go\<close> and the defaults of \<open>pkg/settings/rpc.go\<close>, put together as \<open>Call\<close> and
  \<open>RpcHandler\<close> put them together.
\<close>

section \<open>The default settings\<close>

definition fastRandom :: "(8 word list \<Rightarrow> string) \<Rightarrow> (nat \<Rightarrow> (8 word list \<times> nat) option) \<Rightarrow> (nat \<Rightarrow> 64 word \<times> 64 word) \<Rightarrow> string" where
  "fastRandom base64 read weak = base64 (RandomBytes read weak 32)"

definition default_rpc :: "string \<Rightarrow> string \<Rightarrow> rpc_settings" where
  "default_rpc secret seed =
     \<lparr>rp_LocalAddress = ''http://localhost:24511'', rp_RemoteAddresses = [], rp_Secret = secret, rp_Seed = seed\<rparr>"

section \<open>Pipes of bytes\<close>

text \<open>\<open>RWC\<close>: what is left to read, what was written and whether it was closed; the parts may be nil.\<close>

record rwc =
  rw_Reader :: "byte list option"
  rw_Writer :: "byte list option"
  rw_Closer :: "bool option"

datatype rwc_err = RwcEOF | RwcNoProgress

definition rwc_Read :: "nat \<Rightarrow> rwc \<Rightarrow> (rwc_err + byte list) \<times> rwc" where
  "rwc_Read n c =
     (case rw_Reader c of
        None \<Rightarrow> (Inl RwcEOF, c)
      | Some r \<Rightarrow> if r = [] \<and> 0 < n then (Inl RwcEOF, c) else (Inr (take n r), c\<lparr>rw_Reader := Some (drop n r)\<rparr>))"

definition rwc_Write :: "byte list \<Rightarrow> rwc \<Rightarrow> (rwc_err + nat) \<times> rwc" where
  "rwc_Write p c =
     (case rw_Writer c of None \<Rightarrow> (Inl RwcNoProgress, c) | Some w \<Rightarrow> (Inr (length p), c\<lparr>rw_Writer := Some (w @ p)\<rparr>))"

definition rwc_Close :: "rwc \<Rightarrow> rwc" where
  "rwc_Close c = (case rw_Closer c of None \<Rightarrow> c | Some _ \<Rightarrow> c\<lparr>rw_Closer := Some True\<rparr>)"

section \<open>Codecs\<close>

text \<open>\<open>NewServerCodec\<close> and \<open>NewClientCodec\<close> cipher the connection when there is an IV; \<open>None\<close> is their panic.\<close>

datatype rpc_conn = PlainConn | CipherConn cipher_rwc

definition new_codec :: "(string \<Rightarrow> 'k) \<Rightarrow> ('k \<Rightarrow> string \<Rightarrow> keystream) \<Rightarrow> rpc_settings \<Rightarrow> string option \<Rightarrow> rpc_conn option" where
  "new_codec sha256 ofb st iv =
     (case iv of None \<Rightarrow> Some PlainConn | Some iv \<Rightarrow> map_option CipherConn (NewCipherRWC sha256 ofb st iv))"

fun conn_Write :: "byte list \<Rightarrow> rpc_conn \<Rightarrow> byte list \<times> rpc_conn" where
  "conn_Write p PlainConn = (p, PlainConn)"
| "conn_Write p (CipherConn c) = map_prod id CipherConn (cw_Write p c)"

fun conn_Read :: "byte list \<Rightarrow> rpc_conn \<Rightarrow> byte list \<times> rpc_conn" where
  "conn_Read p PlainConn = (p, PlainConn)"
| "conn_Read p (CipherConn c) = map_prod id CipherConn (cw_Read p c)"

section \<open>A call\<close>

text \<open>The secret and the IV in the headers of a request, and the IV itself, of sixteen random bytes.\<close>

definition client_next :: "(string \<Rightarrow> string) \<Rightarrow> string \<Rightarrow> rpc_client \<Rightarrow> string \<times> string \<times> string option" where
  "client_next base64 rnd c =
     (case rc_Secure c of None \<Rightarrow> ([], [], None) | Some x \<Rightarrow> (x, base64 rnd, Some rnd))"

definition client_Close :: "rpc_client \<Rightarrow> nat list" where
  "client_Close c = (case rc_Ws c of None \<Rightarrow> [] | Some ws \<Rightarrow> [ws])"

datatype exchange = ExPanics | ExForbidden | Exchanged "byte list" "byte list"

text \<open>What the server was asked and what the client got, of a request and of the server's answer to it.\<close>

definition rpc_exchange :: "(string \<Rightarrow> 'k) \<Rightarrow> ('k \<Rightarrow> string \<Rightarrow> keystream) \<Rightarrow> (string \<Rightarrow> string) \<Rightarrow> (string \<Rightarrow> string option) \<Rightarrow> (string \<Rightarrow> bool)
    \<Rightarrow> rpc_settings \<Rightarrow> rpc_settings \<Rightarrow> rpc_client \<Rightarrow> string \<Rightarrow> string \<Rightarrow> byte list \<Rightarrow> (byte list \<Rightarrow> byte list) \<Rightarrow> exchange" where
  "rpc_exchange sha256 ofb base64 unbase64 loopback cst sst c rnd remote request answer =
     (case client_next base64 rnd c of
        (xsecret, xiv, iv) \<Rightarrow>
          (case new_codec sha256 ofb cst iv of
             None \<Rightarrow> ExPanics
           | Some conn \<Rightarrow>
               (case conn_Write request conn of
                  (wire, conn) \<Rightarrow>
                    (case Authorize loopback unbase64 sst xsecret xiv remote of
                       AuthPanics \<Rightarrow> ExPanics
                     | Forbidden \<Rightarrow> ExForbidden
                     | Authorized secure \<Rightarrow>
                         (case new_codec sha256 ofb sst secure of
                            None \<Rightarrow> ExPanics
                          | Some sconn \<Rightarrow>
                              (case conn_Read wire sconn of
                                 (asked, sconn) \<Rightarrow>
                                   (case conn_Write (answer asked) sconn of
                                      (back, _) \<Rightarrow> Exchanged asked (fst (conn_Read back conn)))))))))"

lemma cipher_back:
  assumes "cw_stream c = cw_stream d" and "cw_read d = cw_written c"
  shows "fst (cw_Read (fst (cw_Write p c)) d) = p"
  using assms by (simp add: cw_Read_def cw_Write_def)

lemma exchange_ok:
  assumes "NewClient st host = Some c" and "8 \<le> length (rp_Secret st)" and "rp_Seed st \<noteq> []"
    and "unbase64 (base64 rnd) = Some rnd" and "length rnd = 16"
    and "rc_Secure c = None \<Longrightarrow> loopback (fst (str_cut (CHR '':'') remote))"
  shows "rpc_exchange sha256 ofb base64 unbase64 loopback st st c rnd remote request answer = Exchanged request (answer request)"
proof (cases "rc_Secure c")
  case None
  then show ?thesis using assms(6) by (simp add: rpc_exchange_def client_next_def new_codec_def Authorize_def)
next
  case (Some x)
  then have x: "x = take 8 (rp_Secret st)" using assms(1) by (auto simp: NewClient_def split: if_splits)
  then have "x \<noteq> []" "length x = 8" using assms(2) by auto
  moreover have "rp_Secret st \<noteq> []" using assms(2) by auto
  ultimately have a: "Authorize loopback unbase64 st x (base64 rnd) remote = Authorized (Some rnd)"
    using assms(2,4,5) by (simp add: Authorize_def x)
  obtain d where d: "NewCipherRWC sha256 ofb st rnd = Some d" and "cw_read d = 0" "cw_written d = 0"
    using assms(3) by (auto simp: NewCipherRWC_def NewCipher_def CipherKey_def)
  then show ?thesis
    by (simp add: rpc_exchange_def client_next_def Some new_codec_def a d cw_Write_def cw_Read_def)
qed



text \<open>A client that has no secret is refused by a server that is not its own machine.\<close>

lemma no_secret_refused:
  assumes "rp_Secret cst = []" and "NewClient cst host = Some c" and "\<not> loopback (fst (str_cut (CHR '':'') remote))"
  shows "rpc_exchange sha256 ofb base64 unbase64 loopback cst sst c rnd remote request answer = ExForbidden"
  using assms by (auto simp: NewClient_def rpc_exchange_def client_next_def new_codec_def Authorize_def split: if_splits)

end
