(* ===== verification/JobRegistry.thy ===== *)
theory JobRegistry
  imports Session
begin

text \<open>
  What the job service of \<open>pkg/session/service_job.go\<close> promises its clients: it keeps a map from job IDs
  to manifests. The requests of \<open>Session\<close> with their answers, the same requests on such a map, and the
  simulation of the second by the first, over whatever is asked of a daemon.
\<close>

section \<open>The requests and their answers\<close>

text \<open>A range answers with the IDs it has told so far; an error of the pattern comes alone.\<close>

definition told :: "session_err option \<times> 'a \<times> string list \<Rightarrow> session_err + string list" where
  "told r = (case r of (None, _, out) \<Rightarrow> Inr out | (Some e, _) \<Rightarrow> Inl e)"

definition made :: "'d session \<Rightarrow> (session_err + nat \<times> 'd session) \<Rightarrow> (session_err + string list) \<times> 'd session" where
  "made s r = (case r of Inl e \<Rightarrow> (Inl e, s) | Inr (p, s') \<Rightarrow> (Inr [sj_ID (se_heap s' ! p)], s'))"

fun service_step :: "(string \<Rightarrow> (string \<Rightarrow> bool) option) \<Rightarrow> 'd session_env \<Rightarrow> service_op \<Rightarrow> 'd session
    \<Rightarrow> ((session_err + string list) \<times> 'd session) option" where
  "service_step Compile E (SvcLaunch m) s = map_option (made s) (job_Launch E m s)"
| "service_step Compile E (SvcUpdate m) s = map_option (made s) (job_Update E m s)"
| "service_step Compile E (SvcDelete m ks) s =
     (case job_Delete Compile E m ks s of (e, r) \<Rightarrow> map_option (\<lambda>(s', out). (told (e, s', out), s')) r)"
| "service_step Compile E (SvcControl c m ks) s =
     (case job_control Compile c m ks s of (e, s', out) \<Rightarrow> Some (told (e, s', out), s'))"
| "service_step Compile E (SvcStopAll ks) s = Some (Inr [], StopAll ks s)"

section \<open>The map it promises\<close>

text \<open>The jobs a pattern selects among the keys of a range; \<open>None\<close> when it is not a regular expression.\<close>

definition selects :: "(string \<Rightarrow> (string \<Rightarrow> bool) option) \<Rightarrow> string \<Rightarrow> (string \<Rightarrow> bool) option" where
  "selects Compile m = (if match_all m then Some (\<lambda>_. True) else Compile (''(?i)'' @ m))"

fun registry_step :: "(string \<Rightarrow> (string \<Rightarrow> bool) option) \<Rightarrow> (manifest \<Rightarrow> bool) \<Rightarrow> service_op \<Rightarrow> (string \<Rightarrow> manifest option)
    \<Rightarrow> (session_err + string list) \<times> (string \<Rightarrow> manifest option)" where
  "registry_step Compile can (SvcLaunch m) R = (if can m then (Inr [mf_ID m], R(mf_ID m \<mapsto> m)) else (Inl ErrSpawn, R))"
| "registry_step Compile can (SvcUpdate m) R = (if can m then (Inr [mf_ID m], R(mf_ID m \<mapsto> m)) else (Inl ErrSpawn, R))"
| "registry_step Compile can (SvcDelete m ks) R =
     (case selects Compile m of
        None \<Rightarrow> (Inl ErrPattern, R)
      | Some pat \<Rightarrow> (Inr (filter (\<lambda>k. pat k \<and> R k \<noteq> None) ks), \<lambda>k. if k \<in> set ks \<and> pat k then None else R k))"
| "registry_step Compile can (SvcControl c m ks) R =
     (case selects Compile m of
        None \<Rightarrow> (Inl ErrPattern, R)
      | Some pat \<Rightarrow> (Inr (filter (\<lambda>k. pat k \<and> R k \<noteq> None) ks), R))"
| "registry_step Compile can (SvcStopAll ks) R = (Inr [], R)"

definition running :: "'d session \<Rightarrow> string \<Rightarrow> manifest option" where
  "running s jid = map_option (\<lambda>p. sj_Manifest (se_heap s ! p)) (se_Jobs s jid)"

lemma running_None [simp]: "running s jid = None \<longleftrightarrow> se_Jobs s jid = None"
  by (simp add: running_def)

lemma running_call [simp]: "running (call_job p c s) = running s"
  by (simp add: running_def fun_eq_iff)

section \<open>The simulation\<close>

lemma ForEachJob_selects:
  "ForEachJob Compile jobs m cb ks s = (case selects Compile m of None \<Rightarrow> (Some ErrPattern, s) | Some pat \<Rightarrow> range_jobs jobs pat cb ks s)"
  by (simp add: ForEachJob_def selects_def)

text \<open>What an update leaves of the heap: the new job behind the old ones.\<close>

lemma job_Update_heap:
  assumes "job_Update E m s = Some (Inr (p, s'))" and "en_spawn E m = Some j"
  shows "p = length (se_heap s)" and "sj_ID (se_heap s' ! p) = sj_ID j" and "sj_Manifest (se_heap s' ! p) = sj_Manifest j"
    and "q < length (se_heap s) \<Longrightarrow> sj_Manifest (se_heap s' ! q) = sj_Manifest (se_heap s ! q)"
  using assms
  by (auto simp: job_Update_def new_job_ptr_def UpdateJob_def store_job_def Let_def nth_append split: option.splits)

lemma Update_simulates:
  assumes "env_ok G E" and "consistent E s" and "m \<in> G"
  shows "\<exists>r. job_Update E m s = Some r \<and> fst (made s r) = fst (registry_step Compile (\<lambda>m. en_spawn E m \<noteq> None) (SvcUpdate m) (running s))
    \<and> consistent E (snd (made s r)) \<and> running (snd (made s r)) = snd (registry_step Compile (\<lambda>m. en_spawn E m \<noteq> None) (SvcUpdate m) (running s))"
proof (cases "en_spawn E m")
  case None
  then show ?thesis using assms(2) by (simp add: job_Update_def made_def)
next
  case (Some j)
  have j: "sj_ID j = mf_ID m" "sj_Manifest j = m" using assms(1) Some by (auto simp: env_ok_def)
  obtain s' where s': "job_Update E m s = Some (Inr (length (se_heap s), s'))" "consistent E s'"
      "se_Jobs s' = (se_Jobs s)(mf_ID m \<mapsto> length (se_heap s))"
    by (rule UpdateJob_ok [OF assms(1,2) Some assms(3)])
  note h = job_Update_heap [OF s'(1) Some]
  have "running s' k = ((running s)(mf_ID m \<mapsto> m)) k" for k
  proof (cases "se_Jobs s k")
    case (Some q)
    then have "q < length (se_heap s)" using consistent_at(1) [OF assms(2) Some] by (simp add: live_job_def)
    then show ?thesis using h(3) h(4) [of q] j Some by (simp add: running_def s'(3))
  qed (use h(3) j in \<open>simp add: running_def s'(3)\<close>)
  then show ?thesis using s' h(2) j Some by (simp add: made_def fun_eq_iff)
qed

lemma job_Launch_made:
  "job_Update E m s = Some r \<Longrightarrow> \<exists>r'. job_Launch E m s = Some r' \<and> fst (made s r') = fst (made s r)
    \<and> (consistent E (snd (made s r)) \<longrightarrow> consistent E (snd (made s r'))) \<and> running (snd (made s r')) = running (snd (made s r))"
  by (cases r) (auto simp: job_Launch_def made_def)

text \<open>A deletion leaves the manifests of the heap alone; so does a range of calls.\<close>

lemma DeleteJob_heap: "DeleteJob E jid s = Some (e, s') \<Longrightarrow> sj_Manifest (se_heap s' ! q) = sj_Manifest (se_heap s ! q)"
  by (auto simp: DeleteJob_def unstore_job_def split: option.splits)

lemma delete_step_heap:
  "delete_step E pat k (Some (s, out)) = Some (s', out') \<Longrightarrow> sj_Manifest (se_heap s' ! q) = sj_Manifest (se_heap s ! q)"
  using DeleteJob_heap by (fastforce simp: delete_step_def split: option.splits if_splits)

lemma delete_fold_None [simp]: "fold (delete_step E pat) ks None = None"
  by (induction ks) (auto simp: delete_step_def)

lemma delete_fold_heap:
  "fold (delete_step E pat) ks (Some (s, out)) = Some (s', out') \<Longrightarrow> sj_Manifest (se_heap s' ! q) = sj_Manifest (se_heap s ! q)"
proof (induction ks arbitrary: s out)
  case (Cons k ks)
  show ?case
  proof (cases "delete_step E pat k (Some (s, out))")
    case None
    then show ?thesis using Cons.prems by simp
  next
    case (Some r)
    then obtain s1 out1 where "delete_step E pat k (Some (s, out)) = Some (s1, out1)" by (cases r) auto
    then show ?thesis using Cons.IH [of s1 out1] Cons.prems delete_step_heap [of E pat k s out s1 out1 q] by simp
  qed
qed simp

lemma Delete_simulates:
  assumes "env_ok G E" and "consistent E s" and "distinct ks"
  shows "\<exists>s'. fold (delete_step E pat) ks (Some (s, [])) = Some (s', filter (\<lambda>k. pat k \<and> running s k \<noteq> None) ks)
    \<and> consistent E s' \<and> running s' = (\<lambda>k. if k \<in> set ks \<and> pat k then None else running s k)"
proof -
  obtain s' where s': "fold (delete_step E pat) ks (Some (s, [])) = Some (s', [] @ filter (\<lambda>k. pat k \<and> se_Jobs s k \<noteq> None) ks)"
      "consistent E s'" "se_Jobs s' = (\<lambda>k. if k \<in> set ks \<and> pat k then None else se_Jobs s k)"
    using delete_fold_ok [OF assms, of pat "[]"] by blast
  then show ?thesis using delete_fold_heap [OF s'(1)] by (auto simp: running_def fun_eq_iff)
qed

lemma control_fold:
  "consistent E s \<Longrightarrow>
   \<exists>s'. fold (\<lambda>k r. case se_Jobs (fst r) k of None \<Rightarrow> r
      | Some p \<Rightarrow> if pat k then (call_job p c (fst r), snd r @ [sj_ID (se_heap (fst r) ! p)]) else r) ks (s, out)
     = (s', out @ filter (\<lambda>k. pat k \<and> running s k \<noteq> None) ks) \<and> consistent E s' \<and> running s' = running s"
proof (induction ks arbitrary: s out)
  case (Cons k ks)
  show ?case
  proof (cases "se_Jobs s k \<noteq> None \<and> pat k")
    case False
    then show ?thesis using Cons.IH [OF Cons.prems, of out] by (auto split: option.splits)
  next
    case True
    then obtain p where p: "se_Jobs s k = Some p" "pat k" by auto
    have "sj_ID (se_heap s ! p) = k" using consistent_at(1) [OF Cons.prems p(1)] by (simp add: live_job_def)
    then show ?thesis using Cons.IH [of "call_job p c s" "out @ [k]"] Cons.prems p by simp
  qed
qed simp

lemma StopAll_running: "running (StopAll ks s) = running s"
proof -
  have "running (fold (\<lambda>k s. case se_Jobs s k of None \<Rightarrow> s | Some p \<Rightarrow> if True then call_job p ToStop s else s) ks s) = running s"
    by (induction ks arbitrary: s) (auto split: option.splits)
  then show ?thesis by (simp add: StopAll_def range_fold [where f = "\<lambda>p. call_job p ToStop"])
qed

text \<open>What the environment asks of the requests: orders without repetition, manifests the JSON brings back.\<close>

definition op_ok :: "manifest set \<Rightarrow> service_op \<Rightarrow> bool" where
  "op_ok G op \<longleftrightarrow> distinct (op_keys op) \<and> op_manifests op \<subseteq> G"

lemma service_simulates:
  assumes "env_ok G E" and "consistent E s" and "op_ok G op"
  shows "\<exists>s'. service_step Compile E op s = Some (fst (registry_step Compile (\<lambda>m. en_spawn E m \<noteq> None) op (running s)), s')
    \<and> consistent E s' \<and> running s' = snd (registry_step Compile (\<lambda>m. en_spawn E m \<noteq> None) op (running s))"
proof (cases op)
  case (SvcLaunch m)
  then obtain r where "job_Update E m s = Some r" "fst (made s r) = fst (registry_step Compile (\<lambda>m. en_spawn E m \<noteq> None) op (running s))"
      "consistent E (snd (made s r))" "running (snd (made s r)) = snd (registry_step Compile (\<lambda>m. en_spawn E m \<noteq> None) op (running s))"
    using Update_simulates [OF assms(1,2), of m Compile] assms(3) by (auto simp: op_ok_def)
  with job_Launch_made [OF this(1)] show ?thesis by (fastforce simp: SvcLaunch prod_eq_iff)
next
  case (SvcUpdate m)
  then obtain r where "job_Update E m s = Some r" "fst (made s r) = fst (registry_step Compile (\<lambda>m. en_spawn E m \<noteq> None) op (running s))"
      "consistent E (snd (made s r))" "running (snd (made s r)) = snd (registry_step Compile (\<lambda>m. en_spawn E m \<noteq> None) op (running s))"
    using Update_simulates [OF assms(1,2), of m Compile] assms(3) by (auto simp: op_ok_def)
  then show ?thesis by (simp add: SvcUpdate prod_eq_iff)
next
  case (SvcDelete m ks)
  then have "distinct ks" using assms(3) by (simp add: op_ok_def)
  from Delete_simulates [OF assms(1,2) this] show ?thesis
    using assms(2) by (fastforce simp: SvcDelete job_Delete_def ForEachJob_selects job_Delete_fold told_def split: option.splits)
next
  case (SvcControl c m ks)
  have f: "job_control Compile c m ks s = (case selects Compile m of None \<Rightarrow> (Some ErrPattern, (s, []))
      | Some pat \<Rightarrow> (None, fold (\<lambda>k r. case se_Jobs (fst r) k of None \<Rightarrow> r
          | Some p \<Rightarrow> if pat k then (call_job p c (fst r), snd r @ [sj_ID (se_heap (fst r) ! p)]) else r) ks (s, [])))"
    by (simp add: job_control_def ForEachJob_selects range_fold [where f = "\<lambda>p r. (call_job p c (fst r), snd r @ [sj_ID (se_heap (fst r) ! p)])"]
        case_prod_unfold split: option.splits)
  show ?thesis
  proof (cases "selects Compile m")
    case (Some pat)
    obtain s' where "fold (\<lambda>k r. case se_Jobs (fst r) k of None \<Rightarrow> r
        | Some p \<Rightarrow> if pat k then (call_job p c (fst r), snd r @ [sj_ID (se_heap (fst r) ! p)]) else r) ks (s, [])
      = (s', filter (\<lambda>k. pat k \<and> running s k \<noteq> None) ks)" "consistent E s'" "running s' = running s"
      using control_fold [OF assms(2), of pat c ks "[]"] by auto
    then show ?thesis by (simp add: SvcControl f Some told_def)
  qed (use assms(2) in \<open>simp add: SvcControl f told_def\<close>)
qed (use assms(2) StopAll_consistent StopAll_running in auto)

interpretation jobs: simulation "service_step Compile E" "registry_step Compile (\<lambda>m. en_spawn E m \<noteq> None)" running
    "\<lambda>s. env_ok G E \<and> consistent E s" "op_ok G" for Compile E G
proof
  fix s op assume "env_ok G E \<and> consistent E s" "op_ok G op"
  then show "\<exists>s'. service_step Compile E op s = Some (fst (registry_step Compile (\<lambda>m. en_spawn E m \<noteq> None) op (running s)), s')
      \<and> (env_ok G E \<and> consistent E s') \<and> running s' = snd (registry_step Compile (\<lambda>m. en_spawn E m \<noteq> None) op (running s))"
    using service_simulates [of G E s op Compile] by auto
qed



end
