(* ===== verification/Commands.thy ===== *)
theory Commands
  imports Client RpcExchange JobRegistry
begin

text \<open>
  A command from the shell to the jobs: the line that \<open>pkg/client/main.go\<close> reads, the call it makes
  through \<open>pkg/surpc\<close>, the method that the daemon finds among the services that
  \<open>pkg/session/session.go\<close> registers, and the answer on its way back. The encoding of calls and answers
  is \<open>net/rpc/jsonrpc\<close>, a parameter.
\<close>

section \<open>The registered services\<close>

datatype service_method =
    MList | MLaunch | MUpdate | MDelete | MCtl job_call
  | MShutdown | MPing | MSignal | MGet | MPut

definition service_methods :: "string \<Rightarrow> service_method option" where
  "service_methods = map_of
     [(''job.List'', MList), (''job.Launch'', MLaunch), (''job.Update'', MUpdate), (''job.Delete'', MDelete),
      (''job.Start'', MCtl ToStart), (''job.Stop'', MCtl ToStop), (''job.Restart'', MCtl ToRestart), (''job.Kill'', MCtl ToKill),
      (''daemon.Shutdown'', MShutdown), (''daemon.Ping'', MPing), (''event.Signal'', MSignal),
      (''whiteboard.Get'', MGet), (''whiteboard.Put'', MPut)]"

text \<open>What the services share: the session, the whiteboards of its jobs, the events and the signals sent.\<close>

record 'd daemon =
  dm_session :: "'d session"
  dm_boards :: wb_heap
  dm_hub :: hub
  dm_signalled :: "nat set list"

datatype service_reply =
    RpJobs "session_err option" "(string \<times> rpc_task) list"
  | RpJob "session_err + string \<times> rpc_task"
  | RpIDs "session_err + string list"
  | RpValues "session_err option" "(string \<times> string \<times> string) list"
  | RpCount "session_err option" nat
  | RpInt int
  | RpDone
  | RpNoMethod
  | RpBadRequest

text \<open>\<open>Launch\<close> and \<open>Update\<close> answer with what they made; a \<open>None\<close> is a panic of the store.\<close>

definition job_reply :: "status list \<Rightarrow> 'd daemon \<Rightarrow> session_err + nat \<times> 'd session \<Rightarrow> service_reply \<times> 'd daemon" where
  "job_reply order d r =
     (case r of
        Inl e \<Rightarrow> (RpJob (Inl e), d)
      | Inr (p, s) \<Rightarrow> (RpJob (Inr (jobInfo order (se_heap s ! p))), d\<lparr>dm_session := s\<rparr>))"

fun serve_method :: "(string \<Rightarrow> (string \<Rightarrow> bool) option) \<Rightarrow> 'd session_env \<Rightarrow> status list \<Rightarrow> string list \<Rightarrow> service_method
    \<Rightarrow> manifest call_arg \<Rightarrow> 'd daemon \<Rightarrow> (service_reply \<times> 'd daemon) option" where
  "serve_method Compile E order ks MList (ArgText m) d =
     (case job_List Compile order m ks (dm_session d) of (e, js) \<Rightarrow> Some (RpJobs e js, d))"
| "serve_method Compile E order ks MLaunch (ArgManifest m) d = map_option (job_reply order d) (job_Launch E m (dm_session d))"
| "serve_method Compile E order ks MUpdate (ArgManifest m) d = map_option (job_reply order d) (job_Update E m (dm_session d))"
| "serve_method Compile E order ks MDelete (ArgText m) d =
     (case job_Delete Compile E m ks (dm_session d) of
        (e, r) \<Rightarrow> map_option (\<lambda>(s, out). (RpIDs (told (e, s, out)), d\<lparr>dm_session := s\<rparr>)) r)"
| "serve_method Compile E order ks (MCtl c) (ArgText m) d =
     (case job_control Compile c m ks (dm_session d) of
        (e, s, out) \<Rightarrow> Some (RpIDs (told (e, s, out)), d\<lparr>dm_session := s\<rparr>))"
| "serve_method Compile E order ks MShutdown ArgNil d = Some (RpDone, d\<lparr>dm_session := daemon_Shutdown ks (dm_session d)\<rparr>)"
| "serve_method Compile E order ks MPing (ArgInt x) d = Some (RpInt (daemon_Ping x), d)"
| "serve_method Compile E order ks MSignal (ArgText n) d =
     Some (RpDone, d\<lparr>dm_signalled := dm_signalled d @ [event_Signal (dm_hub d) n]\<rparr>)"
| "serve_method Compile E order ks MGet (ArgKey j k) d =
     (case whiteboard_Get Compile (dm_boards d) j k ks (dm_session d) of (e, vs) \<Rightarrow> Some (RpValues e vs, d))"
| "serve_method Compile E order ks MPut (ArgKey j k) d =
     (case whiteboard_Put Compile j k None ks (dm_session d) (dm_boards d) of
        (e, h, n) \<Rightarrow> Some (RpCount e n, d\<lparr>dm_boards := h\<rparr>))"
| "serve_method Compile E order ks _ _ d = Some (RpBadRequest, d)"

definition serve_call :: "(string \<Rightarrow> (string \<Rightarrow> bool) option) \<Rightarrow> 'd session_env \<Rightarrow> status list \<Rightarrow> string list
    \<Rightarrow> string \<times> manifest call_arg \<Rightarrow> 'd daemon \<Rightarrow> (service_reply \<times> 'd daemon) option" where
  "serve_call Compile E order ks call d =
     (case service_methods (fst call) of None \<Rightarrow> Some (RpNoMethod, d) | Some m \<Rightarrow> serve_method Compile E order ks m (snd call) d)"

section \<open>The connection\<close>

text \<open>The cryptography, the sender's address and the random bytes of one call.\<close>

record 'k rpc_net =
  nw_sha256 :: "string \<Rightarrow> 'k"
  nw_ofb :: "'k \<Rightarrow> string \<Rightarrow> keystream"
  nw_base64 :: "string \<Rightarrow> string"
  nw_unbase64 :: "string \<Rightarrow> string option"
  nw_loopback :: "string \<Rightarrow> bool"
  nw_remote :: string
  nw_random :: string

record rpc_json =
  rj_show_call :: "string \<times> manifest call_arg \<Rightarrow> byte list"
  rj_call :: "byte list \<Rightarrow> (string \<times> manifest call_arg) option"
  rj_show_reply :: "service_reply \<Rightarrow> byte list"
  rj_reply :: "byte list \<Rightarrow> service_reply option"

text \<open>What the client reads, if it is let in and can read it, and the daemon the call leaves.\<close>

definition remote_call :: "'k rpc_net \<Rightarrow> rpc_json \<Rightarrow> rpc_settings \<Rightarrow> rpc_settings \<Rightarrow> rpc_client
    \<Rightarrow> (string \<times> manifest call_arg \<Rightarrow> 'd daemon \<Rightarrow> (service_reply \<times> 'd daemon) option)
    \<Rightarrow> string \<times> manifest call_arg \<Rightarrow> 'd daemon \<Rightarrow> (service_reply option \<times> 'd daemon) option" where
  "remote_call N J cst sst c serve call d =
     (let served = (\<lambda>q. case rj_call J q of None \<Rightarrow> Some (RpBadRequest, d) | Some cl \<Rightarrow> serve cl d);
          answer = (\<lambda>q. case served q of None \<Rightarrow> [] | Some (r, _) \<Rightarrow> rj_show_reply J r)
      in case rpc_exchange (nw_sha256 N) (nw_ofb N) (nw_base64 N) (nw_unbase64 N) (nw_loopback N) cst sst c (nw_random N) (nw_remote N)
             (rj_show_call J call) answer of
           ExPanics \<Rightarrow> None
         | ExForbidden \<Rightarrow> Some (None, d)
         | Exchanged asked got \<Rightarrow> (case served asked of None \<Rightarrow> None | Some (_, d') \<Rightarrow> Some (rj_reply J got, d')))"

text \<open>\<open>gosu\<close> with a running daemon: its exit code, the answer to the call it made, and the daemon.\<close>

definition gosu :: "manifest client_env \<Rightarrow> 'k rpc_net \<Rightarrow> rpc_json \<Rightarrow> rpc_settings \<Rightarrow> rpc_settings \<Rightarrow> string
    \<Rightarrow> (string \<times> manifest call_arg \<Rightarrow> 'd daemon \<Rightarrow> (service_reply \<times> 'd daemon) option)
    \<Rightarrow> string list \<Rightarrow> 'd daemon \<Rightarrow> (nat \<times> service_reply option \<times> 'd daemon) option" where
  "gosu CE N J cst sst host serve argv d =
     (case client_Run CE argv of
        (code, []) \<Rightarrow> Some (code, None, d)
      | (code, call # _) \<Rightarrow>
          (case NewClient cst host of
             None \<Rightarrow> None
           | Some c \<Rightarrow> map_option (Pair code) (remote_call N J cst sst c serve call d)))"

section \<open>From the shell to the jobs\<close>

text \<open>The requests to the job service among the calls, over the order of the range of the request.\<close>

fun job_request :: "string list \<Rightarrow> service_method \<Rightarrow> manifest call_arg \<Rightarrow> service_op option" where
  "job_request ks MLaunch (ArgManifest m) = Some (SvcLaunch m)"
| "job_request ks MUpdate (ArgManifest m) = Some (SvcUpdate m)"
| "job_request ks MDelete (ArgText m) = Some (SvcDelete m ks)"
| "job_request ks (MCtl c) (ArgText m) = Some (SvcControl c m ks)"
| "job_request ks _ _ = None"

text \<open>The IDs in an answer.\<close>

fun reply_ids :: "service_reply \<Rightarrow> session_err + string list" where
  "reply_ids (RpJob r) = map_sum id (\<lambda>(jid, _). [jid]) r"
| "reply_ids (RpIDs r) = r"
| "reply_ids _ = Inr []"

lemma job_reply_made:
  "reply_ids (fst (job_reply order d r)) = fst (made (dm_session d) r)"
  "dm_session (snd (job_reply order d r)) = snd (made (dm_session d) r)"
  by (auto simp: job_reply_def made_def jobInfo_def split: sum.splits)

text \<open>The dispatch answers a request to the job service as the service does.\<close>

lemma serve_method_step:
  assumes "job_request ks m arg = Some op"
  shows "map_option (\<lambda>(r, d'). (reply_ids r, dm_session d')) (serve_method Compile E order ks m arg d)
    = service_step Compile E op (dm_session d)"
  using assms
  by (cases "(ks, m, arg)" rule: job_request.cases)
    (auto simp: option.map_comp comp_def case_prod_unfold job_reply_made)

text \<open>The JSON of a call, and of its answer, is read back.\<close>

definition json_reads :: "rpc_json \<Rightarrow> string \<times> manifest call_arg \<Rightarrow> service_reply \<Rightarrow> bool" where
  "json_reads J call r \<longleftrightarrow> rj_call J (rj_show_call J call) = Some call \<and> rj_reply J (rj_show_reply J r) = Some r"

text \<open>A secret that can be cut, a seed, sixteen random bytes that Base64 brings back, and a client that may come in.\<close>

definition link_ok :: "'k rpc_net \<Rightarrow> rpc_settings \<Rightarrow> string \<Rightarrow> bool" where
  "link_ok N st host \<longleftrightarrow>
     8 \<le> length (rp_Secret st) \<and> rp_Seed st \<noteq> [] \<and> nw_unbase64 N (nw_base64 N (nw_random N)) = Some (nw_random N)
     \<and> length (nw_random N) = 16
     \<and> (host \<in> {''localhost'', ''[::1]'', ''127.0.0.1''} \<longrightarrow> nw_loopback N (fst (str_cut (CHR '':'') (nw_remote N))))"

lemma NewClient_ok: "link_ok N st host \<Longrightarrow> \<exists>c. NewClient st host = Some c"
  by (auto simp: NewClient_def link_ok_def)

lemma local_client:
  "NewClient st host = Some c \<Longrightarrow> rc_Secure c = None \<Longrightarrow> rp_Secret st \<noteq> [] \<Longrightarrow> host \<in> {''localhost'', ''[::1]'', ''127.0.0.1''}"
  by (auto simp: NewClient_def split: if_splits)

lemma remote_call_ok:
  assumes "link_ok N st host" and "NewClient st host = Some c" and "json_reads J call r" and "serve call d = Some (r, d')"
  shows "remote_call N J st st c serve call d = Some (Some r, d')"
proof -
  have l: "8 \<le> length (rp_Secret st)" "rp_Seed st \<noteq> []" "nw_unbase64 N (nw_base64 N (nw_random N)) = Some (nw_random N)"
      "length (nw_random N) = 16" "rp_Secret st \<noteq> []"
    using assms(1) by (auto simp: link_ok_def)
  have "nw_loopback N (fst (str_cut (CHR '':'') (nw_remote N)))" if "rc_Secure c = None"
    using local_client [OF assms(2) that l(5)] assms(1) unfolding link_ok_def by blast
  note x = exchange_ok [of st host c "nw_unbase64 N" "nw_base64 N" "nw_random N" "nw_loopback N" "nw_remote N", OF assms(2) l(1-4) this]
  show ?thesis using assms(3,4) by (simp add: remote_call_def Let_def x json_reads_def)
qed

lemma gosu_calls:
  assumes "link_ok N st host" and "client_Run CE argv = (code, [call])" and "json_reads J call r" and "serve call d = Some (r, d')"
  shows "gosu CE N J st st host serve argv d = Some (code, Some r, d')"
proof -
  obtain c where c: "NewClient st host = Some c" using NewClient_ok [OF assms(1)] by blast
  show ?thesis using remote_call_ok [of N st host c J call r serve d d'] assms c by (simp add: gosu_def)
qed


text \<open>The command of the sample: \<open>gosu launch --id=web "run ls"\<close>, to a new daemon.\<close>

definition sample_client :: "manifest client_env" where
  "sample_client = \<lparr>cl_reader = sample_env, cl_zero = sample_manifest, cl_decode = (\<lambda>_ m. (None, m)), cl_main = (\<lambda>_ m. Some m)\<rparr>"

definition sample_net :: "string rpc_net" where
  "sample_net = \<lparr>nw_sha256 = (\<lambda>s. s), nw_ofb = (\<lambda>k iv n. of_nat (n + length k)), nw_base64 = (\<lambda>s. s), nw_unbase64 = Some,
     nw_loopback = (\<lambda>_. True), nw_remote = ''127.0.0.1:80'', nw_random = ''0123456789abcdef''\<rparr>"

definition new_daemon :: "(string \<times> string) list daemon" where
  "new_daemon = \<lparr>dm_session = empty_session [], dm_boards = \<lparr>wb_next = 0, wb_maps = (\<lambda>_. Map.empty)\<rparr>, dm_hub = new_hub, dm_signalled = []\<rparr>"

lemma sample_command:
  "client_Run sample_client [''launch'', ''--id=web'', ''run ls''] = (0, [(''job.Launch'', ArgManifest sample_manifest)])"
  using flags_reach [of "[(''id'', ''web'')]" "''run ls''" "''launch''" "''job.Launch''" sample_client sample_manifest sample_manifest]
  by (simp add: sample_client_def flag_arg_def plain_flag_def) (code_simp | simp)+

definition sample_json :: "service_reply \<Rightarrow> rpc_json" where
  "sample_json r = \<lparr>rj_show_call = (\<lambda>_. [1]), rj_call = (\<lambda>_. Some (''job.Launch'', ArgManifest sample_manifest)),
     rj_show_reply = (\<lambda>_. [2]), rj_reply = (\<lambda>_. Some r)\<rparr>"


end
