(* ===== verification/View.thy ===== *)
theory View
  imports Session RunTask "HOL-Library.List_Lexorder" "HOL-Library.Multiset"
begin

text \<open>
  \<open>pkg/client/view/tasks.go\<close>: the rows of the list of tasks, their order, and the refresh of the list.
  A text is a list of code points, whose order is that of the UTF-8 bytes. How numbers and durations
  are printed, and the table and the styles of the terminal, are parameters.
\<close>

type_synonym utext = "nat list"

type_synonym row = "utext list"

definition utf :: "string \<Rightarrow> utext" where
  "utf = map of_char"

record view_env =
  ve_now :: int
  ve_pids :: "int list \<Rightarrow> utext"
  ve_fixed2 :: "f64 \<Rightarrow> utext"
  ve_duration :: "duration \<Rightarrow> utext"

section \<open>Cells\<close>

definition bytesstr :: "(f64 \<Rightarrow> utext) \<Rightarrow> f64 \<Rightarrow> utext" where
  "bytesstr fixed2 n =
     (let k = f64_of_int 1024 in
      if f64_less n k then fixed2 n @ utf ''b''
      else let n = f64_div n k in
        if f64_less n k then fixed2 n @ utf ''kb''
        else let n = f64_div n k in
          if f64_less n k then fixed2 n @ utf ''mb'' else fixed2 (f64_div n k) @ utf ''gb'')"

text \<open>\<open>Duration.Round\<close>, half away from zero, with its saturation.\<close>

definition dur_Round :: "duration \<Rightarrow> duration \<Rightarrow> duration" where
  "dur_Round d m =
     (if m \<le> 0 then d
      else if d < 0
      then let r = (- d) mod m in
        if 2 * r < m then d + r
        else let d1 = wrap64 (d - m + r) in if d1 < d then d1 else - (2 ^ 63)
      else let r = d mod m in
        if 2 * r < m then d - r
        else let d1 = wrap64 (d + m - r) in if d1 > d then d1 else 2 ^ 63 - 1)"

definition timestr :: "(duration \<Rightarrow> utext) \<Rightarrow> duration \<Rightarrow> utext" where
  "timestr dur d =
     (let d = (if d > Second then dur_Round d Second else d) in
      if d < Minute then dur d
      else if d < Hour then dur (dur_Round d Second)
      else if d < 24 * Hour then dur (dur_Round d Minute)
      else dur (dur_Round d Hour))"

text \<open>\<open>time.Since\<close> saturates.\<close>

definition since :: "int \<Rightarrow> int \<Rightarrow> duration" where
  "since now t = max (- (2 ^ 63)) (min (2 ^ 63 - 1) (now - t))"

text \<open>The status came as texts over RPC, so it has an icon and a code.\<close>

definition status_cell :: "rpc_status \<Rightarrow> utext" where
  "status_cell s =
     (case rs_Icon s of None \<Rightarrow> [] | Some i \<Rightarrow> i) @ utf '' '' @ (case rs_Code s of None \<Rightarrow> [] | Some c \<Rightarrow> utf c)"

definition task_entry :: "view_env \<Rightarrow> utext \<Rightarrow> string \<Rightarrow> rpc_status \<Rightarrow> report \<Rightarrow> row" where
  "task_entry V pre uid st rep =
     (if rep_IsZero rep
      then [pre @ utf uid, [0x1F9CA], [], utf ''0'', status_cell st, [], [], []]
      else [pre @ utf uid, ve_pids V (rep_Pid rep), timestr (ve_duration V) (since (ve_now V) (rep_CreateTime rep)), utf ''0'',
            status_cell st, ve_fixed2 V (rep_Cpu rep) @ utf ''%'', bytesstr (ve_fixed2 V) (rep_Mem rep), utf (rep_Username rep)])"

section \<open>Rows\<close>

primrec displayRpcTaskStateRecursive :: "view_env \<Rightarrow> rpc_task \<Rightarrow> utext \<Rightarrow> row list" where
  "displayRpcTaskStateRecursive V (RpcTask ns st rep cs) =
     (\<lambda>pre. if cs = [] then [task_entry V pre ns st rep]
               else concat (map (\<lambda>f. f []) (map (displayRpcTaskStateRecursive V) cs)))"

definition name_job :: "string \<times> rpc_task \<Rightarrow> rpc_task" where
  "name_job j =
     (case snd j of RpcTask ns st rep cs \<Rightarrow> RpcTask (if ns = [] then fst j else ns) st rep cs)"

definition row_before :: "row \<Rightarrow> row \<Rightarrow> bool" where
  "row_before a b = (if a ! 4 \<noteq> b ! 4 then b ! 4 < a ! 4 else a ! 0 < b ! 0)"

text \<open>\<open>sort.SliceStable\<close>, as its contract says: the stable order of the comparison.\<close>

fun stable_insert :: "row \<Rightarrow> row list \<Rightarrow> row list" where
  "stable_insert x [] = [x]"
| "stable_insert x (y # ys) = (if row_before y x then y # stable_insert x ys else x # y # ys)"

definition SliceStable :: "row list \<Rightarrow> row list" where
  "SliceStable rows = foldr stable_insert rows []"

definition torows :: "view_env \<Rightarrow> (string \<times> rpc_task) list \<Rightarrow> row list" where
  "torows V jobs = SliceStable (concat (map (\<lambda>j. displayRpcTaskStateRecursive V (name_job j) []) jobs))"

text \<open>The tasks without children, which are those that have a row.\<close>

primrec task_leaves :: "rpc_task \<Rightarrow> rpc_task list" where
  "task_leaves (RpcTask ns st rep cs) = (if cs = [] then [RpcTask ns st rep []] else concat (map task_leaves cs))"

definition leaf_row :: "view_env \<Rightarrow> rpc_task \<Rightarrow> row" where
  "leaf_row V t = task_entry V [] (rt_Namespace t) (rt_Status t) (rt_Report t)"

lemma rows_are_leaves: "displayRpcTaskStateRecursive V t [] = map (leaf_row V) (task_leaves t)"
proof (induction t)
  case (RpcTask ns st rep cs)
  then have "concat (map (\<lambda>f. f []) (map (displayRpcTaskStateRecursive V) cs)) = map (leaf_row V) (concat (map task_leaves cs))"
    by (simp add: map_concat comp_def cong: map_cong)
  then show ?case by (simp add: leaf_row_def)
qed

definition not_after :: "row \<Rightarrow> row \<Rightarrow> bool" where
  "not_after a b \<longleftrightarrow> \<not> row_before b a"

lemma not_after_trans: "not_after a b \<Longrightarrow> not_after b c \<Longrightarrow> not_after a c"
  unfolding not_after_def row_before_def by (auto split: if_splits)

lemma row_before_not_after: "row_before a b \<Longrightarrow> not_after a b"
  unfolding not_after_def row_before_def by (auto split: if_splits)

lemma stable_insert_mset [simp]: "mset (stable_insert x ys) = add_mset x (mset ys)"
  by (induction ys) auto

lemma stable_insert_sorted:
  assumes "sorted_wrt not_after ys"
  shows "sorted_wrt not_after (stable_insert x ys)"
  using assms
proof (induction ys)
  case (Cons y ys)
  have set: "set (stable_insert x ys) = insert x (set ys)"
    by (induction ys) auto
  show ?case
  proof (cases "row_before y x")
    case True
    then show ?thesis using Cons by (auto simp: set row_before_not_after)
  next
    case False
    then have "not_after x y" by (simp add: not_after_def)
    then show ?thesis using Cons.prems False by (auto intro: not_after_trans)
  qed
qed simp

lemma SliceStable_sorted: "sorted_wrt not_after (SliceStable rows) \<and> mset (SliceStable rows) = mset rows"
  by (induction rows) (simp_all add: SliceStable_def stable_insert_sorted)

text \<open>Rows of the same status and name keep their order.\<close>

definition same_place :: "row \<Rightarrow> row \<Rightarrow> bool" where
  "same_place a b \<longleftrightarrow> a ! 4 = b ! 4 \<and> a ! 0 = b ! 0"

lemma same_place_before: "same_place r x \<Longrightarrow> same_place r y \<Longrightarrow> \<not> row_before y x"
  by (simp add: same_place_def row_before_def)

lemma stable_insert_filter:
  "filter (same_place r) (stable_insert x ys) = (if same_place r x then x # filter (same_place r) ys else filter (same_place r) ys)"
  by (induction ys) (auto dest: same_place_before)

lemma SliceStable_stable: "filter (same_place r) (SliceStable rows) = filter (same_place r) rows"
  by (induction rows) (simp_all add: SliceStable_def stable_insert_filter)

text \<open>
  The list shows every task without children exactly once, a job without a namespace under its own
  name; rows are in descending order of status, within a status in ascending order of name, and rows
  equal in both keep the order in which the daemon gave them.
\<close>

theorem list_shows_every_leaf:
  "let leaves = map (leaf_row V) (concat (map (\<lambda>j. task_leaves (name_job j)) jobs)); rows = torows V jobs in
     mset rows = mset leaves \<and>
     sorted_wrt (\<lambda>a b. b ! 4 < a ! 4 \<or> a ! 4 = b ! 4 \<and> a ! 0 \<le> b ! 0) rows \<and>
     (\<forall>r. filter (same_place r) rows = filter (same_place r) leaves)"
proof -
  let ?rows = "concat (map (\<lambda>j. displayRpcTaskStateRecursive V (name_job j) []) jobs)"
  have leaves: "?rows = map (leaf_row V) (concat (map (\<lambda>j. task_leaves (name_job j)) jobs))"
    by (simp add: rows_are_leaves map_concat comp_def)
  have "not_after = (\<lambda>a b. b ! 4 < a ! 4 \<or> a ! 4 = b ! 4 \<and> a ! 0 \<le> b ! 0)"
    by (auto simp: fun_eq_iff not_after_def row_before_def)
  then show ?thesis
    using SliceStable_sorted [of ?rows] SliceStable_stable [of _ ?rows]
    by (simp add: torows_def leaves)
qed

section \<open>The refresh\<close>

text \<open>The table of the terminal, and what draws it.\<close>

record 't table_ops =
  to_Focused :: "'t \<Rightarrow> bool"
  to_Blur :: "'t \<Rightarrow> 't"
  to_Focus :: "'t \<Rightarrow> 't"
  to_Update :: "string \<Rightarrow> 't \<Rightarrow> 't"
  to_SetRows :: "row list \<Rightarrow> nat \<Rightarrow> 't \<Rightarrow> 't"

record 't tasklist =
  tl_table :: 't
  tl_jobs :: "(string \<times> rpc_task) list"
  tl_fetchError :: "string option"
  tl_rows :: "row list"
  tl_lastFetch :: int

definition no_connection :: row where
  "no_connection = [[0x1F480] @ utf '' No connection'']"

definition updateData :: "'t table_ops \<Rightarrow> view_env \<Rightarrow> (string \<times> rpc_task) list \<times> string option \<Rightarrow> 't tasklist \<Rightarrow> 't tasklist" where
  "updateData T V fetched m =
     (let m = (if since (ve_now V) (tl_lastFetch m) > Second
               then m\<lparr>tl_lastFetch := ve_now V, tl_jobs := fst fetched, tl_fetchError := snd fetched\<rparr> else m);
          rows = (if tl_fetchError m \<noteq> None then [no_connection] else torows V (tl_jobs m))
      in m\<lparr>tl_rows := rows, tl_table := to_SetRows T rows (length rows) (tl_table m)\<rparr>)"

datatype view_msg = KeyMsg string | TickMsg | OtherMsg string

datatype view_cmd = CmdQuit | CmdTick | CmdTable

definition tl_Update :: "'t table_ops \<Rightarrow> view_env \<Rightarrow> (string \<times> rpc_task) list \<times> string option \<Rightarrow> view_msg \<Rightarrow> 't tasklist
    \<Rightarrow> view_cmd \<times> 't tasklist" where
  "tl_Update T V fetched msg m =
     (case msg of
        KeyMsg k \<Rightarrow>
          if k = ''q'' \<or> k = ''ctrl+c'' then (CmdQuit, m)
          else let t = tl_table m;
                   t = (if k = ''esc'' then (if to_Focused T t then to_Blur T t else to_Focus T t) else t)
               in (CmdTable, m\<lparr>tl_table := to_Update T k t\<rparr>)
      | TickMsg \<Rightarrow> (CmdTick, updateData T V fetched m)
      | OtherMsg k \<Rightarrow> (CmdTable, m\<lparr>tl_table := to_Update T k (tl_table m)\<rparr>))"

definition tl_View :: "('t \<Rightarrow> utext) \<Rightarrow> (utext \<Rightarrow> utext) \<Rightarrow> (utext \<Rightarrow> utext) \<Rightarrow> 't tasklist \<Rightarrow> utext" where
  "tl_View draw base box m =
     base (draw (tl_table m)) @ [10] @ (case tl_fetchError m of None \<Rightarrow> [] | Some e \<Rightarrow> box (utf e))"

definition NewTasklist :: "'t table_ops \<Rightarrow> view_env \<Rightarrow> (string \<times> rpc_task) list \<times> string option \<Rightarrow> 't \<Rightarrow> int \<Rightarrow> 't tasklist" where
  "NewTasklist T V fetched table zero_time =
     updateData T V fetched
       \<lparr>tl_table = table, tl_jobs = [], tl_fetchError = None, tl_rows = [], tl_lastFetch = zero_time\<rparr>"

text \<open>
  What is shown is what was last fetched: after any message the rows are those of the jobs, or the
  one of a lost connection, and a fetch is never less than a second after the one before it.
\<close>

definition shows_fetched :: "'t tasklist \<Rightarrow> bool" where
  "shows_fetched m \<longleftrightarrow>
     (tl_fetchError m \<noteq> None \<longrightarrow> tl_rows m = [no_connection]) \<and>
     (tl_fetchError m = None \<longrightarrow> (\<exists>V. tl_rows m = torows V (tl_jobs m)))"

lemma tl_Update_keeps:
  "shows_fetched m \<Longrightarrow> shows_fetched (snd (tl_Update T V fetched msg m))"
  by (cases msg) (auto simp: tl_Update_def updateData_def shows_fetched_def Let_def)

text \<open>
  Whatever messages come, the rows are those of the jobs last fetched or tell of the error of that
  fetch, and a message makes a fetch only if more than a second has passed since the last one.
\<close>

theorem view_shows_last_fetch:
  "let m = fold (\<lambda>(V, fetched, msg) m. snd (tl_Update T V fetched msg m)) msgs (NewTasklist T V0 fetched0 table zero_time) in
     shows_fetched m \<and>
     (let m' = snd (tl_Update T V fetched msg m) in
        tl_lastFetch m' \<noteq> tl_lastFetch m \<longrightarrow> tl_lastFetch m' = ve_now V \<and> tl_lastFetch m + Second < ve_now V)"
proof -
  have "shows_fetched (NewTasklist T V0 fetched0 table zero_time)"
    by (auto simp: NewTasklist_def updateData_def shows_fetched_def Let_def)
  then have s: "shows_fetched (fold (\<lambda>(V, fetched, msg) m. snd (tl_Update T V fetched msg m)) msgs (NewTasklist T V0 fetched0 table zero_time))"
  proof (induction msgs rule: rev_induct)
    case (snoc x xs)
    then show ?case by (cases x) (simp add: tl_Update_keeps)
  qed simp
  have f: "tl_lastFetch (snd (tl_Update T V fetched msg m)) \<noteq> tl_lastFetch m \<longrightarrow>
      tl_lastFetch (snd (tl_Update T V fetched msg m)) = ve_now V \<and> tl_lastFetch m + Second < ve_now V" for m
    by (cases msg) (auto simp: tl_Update_def updateData_def since_def Second_def Let_def)
  show ?thesis unfolding Let_def by (intro conjI s f)
qed

definition sample_view :: "int \<Rightarrow> view_env" where
  "sample_view now = \<lparr>ve_now = now, ve_pids = (\<lambda>ps. map nat ps), ve_fixed2 = (\<lambda>_. utf ''0''), ve_duration = (\<lambda>_. utf ''1s'')\<rparr>"

definition no_table :: "unit table_ops" where
  "no_table =
     \<lparr>to_Focused = (\<lambda>_. True), to_Blur = id, to_Focus = id, to_Update = (\<lambda>_. id), to_SetRows = (\<lambda>_ _. id)\<rparr>"

lemma view_shows_last_fetch_witness:
  "let m = fold (\<lambda>(V, fetched, msg) m. snd (tl_Update no_table V fetched msg m)) [(sample_view (3 * Second), ([], Some ''down''), TickMsg)]
             (NewTasklist no_table (sample_view (2 * Second)) ([(''j'', zero_task)], None) () 0) in
     shows_fetched m \<and>
     (let m' = snd (tl_Update no_table (sample_view (5 * Second)) ([], None) TickMsg m) in
        tl_lastFetch m' \<noteq> tl_lastFetch m \<longrightarrow>
          tl_lastFetch m' = ve_now (sample_view (5 * Second)) \<and> tl_lastFetch m + Second < ve_now (sample_view (5 * Second)))"
  by (rule view_shows_last_fetch)

section \<open>Columns\<close>

definition tl_columns :: "(utext \<times> int) list" where
  "tl_columns =
     [(utf ''name'', 25), (utf ''pid'', 8), (utf ''uptime'', 10), ([0x21BA], 3), (utf ''status'', 13), (utf ''cpu'', 8),
      (utf ''mem'', 8), (utf ''user'', 8)]"

text \<open>The interval of \<open>doTick\<close>, half the age at which a list is fetched again.\<close>

definition tl_tick :: duration where
  "tl_tick = 500 * Millisecond"

text \<open>Every row of a job has a cell for each column, its status where the order looks for it.\<close>

lemma leaf_row_length: "length (leaf_row V t) = length tl_columns"
  by (simp add: leaf_row_def task_entry_def tl_columns_def)

lemma rows_fit_columns: "row \<in> set (torows V jobs) \<Longrightarrow> length row = length tl_columns"
proof -
  have "set (torows V jobs) = set (concat (map (\<lambda>j. displayRpcTaskStateRecursive V (name_job j) []) jobs))"
    unfolding torows_def by (rule mset_eq_setD) (rule conjunct2 [OF SliceStable_sorted])
  also have "\<dots> \<subseteq> range (leaf_row V)" by (auto simp: rows_are_leaves)
  finally show "row \<in> set (torows V jobs) \<Longrightarrow> ?thesis" using leaf_row_length by fastforce
qed

text \<open>\<open>Init\<close> begins the ticking.\<close>

definition tl_Init :: duration where
  "tl_Init = tl_tick"

end
