(* ===== verification/Printing.thy ===== *)
theory Printing
  imports Commands View
begin

text \<open>
  What the commands of \<open>pkg/client/main.go\<close> print of the answers they get. The drawing of a list of
  tasks (\<open>render\<close>), the texts of errors and the JSON of a manifest are parameters.
\<close>

section \<open>Answers\<close>

text \<open>What a call returns to a command: its error, or its answer.\<close>

definition reply_error :: "service_reply \<Rightarrow> session_err option" where
  "reply_error r =
     (case r of
        RpJobs e _ \<Rightarrow> e
      | RpJob (Inl e) \<Rightarrow> Some e
      | RpIDs (Inl e) \<Rightarrow> Some e
      | RpValues e _ \<Rightarrow> e
      | RpCount e _ \<Rightarrow> e
      | _ \<Rightarrow> None)"

definition call_result :: "(session_err \<Rightarrow> string) \<Rightarrow> string + service_reply \<Rightarrow> string + service_reply" where
  "call_result err_txt res =
     (case res of Inl e \<Rightarrow> Inl e | Inr r \<Rightarrow> (case reply_error r of None \<Rightarrow> Inr r | Some e \<Rightarrow> Inl (err_txt e)))"

fun join :: "string \<Rightarrow> string list \<Rightarrow> string" where
  "join sep [] = []"
| "join sep [x] = x"
| "join sep (x # xs) = x @ sep @ join sep xs"

definition newline :: string where
  "newline = [CHR 0x0A]"

section \<open>Printing\<close>

text \<open>The list that \<open>display\<close> prints, of jobs or of an error.\<close>

type_synonym renderer = "(string \<times> rpc_task) list \<Rightarrow> string option \<Rightarrow> string"

definition client_display :: "(utext \<Rightarrow> string) \<Rightarrow> 't table_ops \<Rightarrow> ('t \<Rightarrow> utext) \<Rightarrow> (utext \<Rightarrow> utext) \<Rightarrow> (utext \<Rightarrow> utext)
    \<Rightarrow> view_env \<Rightarrow> 't \<Rightarrow> int \<Rightarrow> renderer" where
  "client_display enc T draw base box V table zero_time jobs e =
     enc (tl_View draw base box (NewTasklist T V (jobs, e) table zero_time))"

text \<open>The words before the IDs that a control command told, by its method.\<close>

definition control_human :: "string \<Rightarrow> string" where
  "control_human rpc_method =
     (if rpc_method = ''job.Start'' then ''Started job(s):''
      else if rpc_method = ''job.Stop'' then ''Stopped job(s):''
      else if rpc_method = ''job.Restart'' then ''Restarted job(s):''
      else if rpc_method = ''job.Kill'' then ''Killed job(s):''
      else ''Deleted job(s):'')"

definition create_human :: "string \<Rightarrow> string \<Rightarrow> string" where
  "create_human rpc_method js = (if rpc_method = ''job.Update'' then ''Updating job '' else ''Starting job '') @ js @ newline"

definition value_line :: "string \<times> string \<times> string \<Rightarrow> string" where
  "value_line v = (case v of (j, k, t) \<Rightarrow> j @ '':'' @ k @ '': '' @ t @ newline)"

definition job_rows :: "string + service_reply \<Rightarrow> (string \<times> rpc_task) list" where
  "job_rows res = (case res of Inr (RpJobs _ js) \<Rightarrow> js | _ \<Rightarrow> [])"

text \<open>
  What a command prints of the result of its call; \<open>js\<close> is the JSON of the manifest. A job that could
  not be made is shown as an empty one; the end of the connection is no error of \<open>shutdown\<close>; \<open>view\<close>
  draws its own screen.
\<close>

definition client_print :: "renderer \<Rightarrow> string \<Rightarrow> client_cmd \<Rightarrow> string + service_reply \<Rightarrow> string" where
  "client_print render js c res =
     (let err = (case res of Inl e \<Rightarrow> Some e | Inr _ \<Rightarrow> None) in
      case c of
        CView \<Rightarrow> []
      | CList \<Rightarrow> render (job_rows res) err
      | CPut \<Rightarrow> (if err \<noteq> None then render [] err else [])
               @ ''Put '' @ format_nat 10 (case res of Inr (RpCount _ n) \<Rightarrow> n | _ \<Rightarrow> 0) @ '' values'' @ newline
      | CGet \<Rightarrow> (case res of Inl _ \<Rightarrow> render [] err | Inr (RpValues _ vs) \<Rightarrow> concat (map value_line vs) | Inr _ \<Rightarrow> [])
      | CSignal \<Rightarrow> (if err \<noteq> None then render [] err else [])
      | CShutdown \<Rightarrow> (if err \<noteq> None \<and> err \<noteq> Some ''EOF'' then render [] err else [])
      | CCreate m \<Rightarrow> create_human m js @ render [case res of Inr (RpJob (Inr j)) \<Rightarrow> j | _ \<Rightarrow> ([], zero_task)] err
      | CCtl m \<Rightarrow>
          (case res of
             Inl _ \<Rightarrow> render [] err
           | Inr (RpIDs (Inr ids)) \<Rightarrow> control_human m @ '' '' @ join '','' ids @ newline
           | Inr _ \<Rightarrow> control_human m @ '' '' @ newline))"

section \<open>What is printed is what was done\<close>

text \<open>IDs without a comma can be read back from the line.\<close>

fun split_at :: "char \<Rightarrow> string \<Rightarrow> string list" where
  "split_at c [] = [[]]"
| "split_at c (x # xs) = (if x = c then [] # split_at c xs else (case split_at c xs of [] \<Rightarrow> [[x]] | y # ys \<Rightarrow> (x # y) # ys))"

lemma split_at_word: "c \<notin> set w \<Longrightarrow> split_at c w = [w]"
  by (induction w) auto

lemma split_at_cons: "c \<notin> set w \<Longrightarrow> split_at c (w @ c # s) = w # split_at c s"
  by (induction w) auto

lemma split_join: "ids \<noteq> [] \<Longrightarrow> \<forall>w \<in> set ids. c \<notin> set w \<Longrightarrow> split_at c (join [c] ids) = ids"
  by (induction "[c]" ids rule: join.induct) (auto simp: split_at_word split_at_cons)

text \<open>
  A control command prints the IDs of exactly the jobs that it told: those that run and match, in the
  order in which the daemon went through them.
\<close>

lemma control_prints_told:
  assumes "reply_ids r = fst (registry_step Compile can (SvcControl cl m ks) R)" and "r = RpIDs ids" and "selects Compile m = Some pat"
  shows "client_print render js (CCtl name) (call_result err_txt (Inr r))
    = control_human name @ '' '' @ join '','' (filter (\<lambda>k. pat k \<and> R k \<noteq> None) ks) @ newline"
  using assms by (auto simp: client_print_def call_result_def reply_error_def split: sum.splits)

text \<open>A value that could not be put is counted as none, behind the error.\<close>

lemma failed_put_prints_zero:
  "client_print render js CPut (Inl e) = render [] (Some e) @ ''Put 0 values'' @ newline"
proof -
  have "format_nat 10 0 = ''0''" by code_simp
  then show ?thesis by (simp add: client_print_def)
qed

end
