(* ===== verification/Lifecycle.thy ===== *)
theory Lifecycle
  imports Job
begin

text \<open>
  A job with its triggers: \<open>Ready\<close> of \<open>pkg/job/job.go\<close> puts the job of \<open>Job\<close> and the listeners of
  \<open>Triggers\<close> together. The goroutines of the triggers call back into the job, \<open>startOrJoin\<close> for the
  launch trigger (callback 0) and \<open>Stop\<close> for the drop trigger (callback 1), while the job is started,
  stopped, killed and cancelled from elsewhere.
\<close>

section \<open>The composed system\<close>

text \<open>A callback under way: not begun, waiting for the worker it has got, or waiting for a stop.\<close>

datatype origin = FromTicker nat | FromSignal nat

datatype callback = CbBegin origin nat | CbJoining origin nat | CbStopping origin

fun cb_origin :: "callback \<Rightarrow> origin" where
  "cb_origin (CbBegin o1 fn) = o1"
| "cb_origin (CbJoining o1 i) = o1"
| "cb_origin (CbStopping o1) = o1"

fun cb_stops :: "callback \<Rightarrow> bool" where
  "cb_stops (CbStopping o1) = True"
| "cb_stops c = False"

text \<open>The tickers below \<open>lf_launchers\<close> are those of the launch trigger; the handles are what the end of the context removes.\<close>

record lifecycle =
  lf_job :: job
  lf_listening :: listening
  lf_launchers :: nat
  lf_handles :: "remove_handle list"
  lf_calls :: "callback list"

definition idle_life :: "job \<Rightarrow> int \<Rightarrow> lifecycle" where
  "idle_life j now =
     \<lparr>lf_job = j, lf_listening = \<lparr>ln_hub = new_hub, ln_tickers = [], ln_now = now\<rparr>, lf_launchers = 0, lf_handles = [], lf_calls = []\<rparr>"

definition life_Ready :: "trigger option \<Rightarrow> trigger option \<Rightarrow> lifecycle \<Rightarrow> lifecycle" where
  "life_Ready onLaunch onDrop lf =
     (case job_Ready onLaunch None (lf_listening lf) of
        (_, l) \<Rightarrow>
          (case job_Ready onLaunch onDrop (lf_listening lf) of
             (hs, l') \<Rightarrow> lf\<lparr>lf_listening := l', lf_launchers := length (ln_tickers l), lf_handles := hs\<rparr>))"

text \<open>A callback that is over leaves; the goroutine of its ticker goes on.\<close>

definition ticker_step :: "ticker_ev \<Rightarrow> nat \<Rightarrow> lifecycle \<Rightarrow> lifecycle option" where
  "ticker_step ev i lf =
     (if i < length (ln_tickers (lf_listening lf))
      then map_option (\<lambda>k. lf\<lparr>lf_listening := (lf_listening lf)\<lparr>ln_tickers := (ln_tickers (lf_listening lf))[i := k]\<rparr>\<rparr>)
             (ticker_act ev (ln_tickers (lf_listening lf) ! i))
      else None)"

definition end_callback :: "nat \<Rightarrow> lifecycle \<Rightarrow> lifecycle option" where
  "end_callback k lf =
     (let c = lf_calls lf ! k;
          lf = lf\<lparr>lf_calls := take k (lf_calls lf) @ drop (Suc k) (lf_calls lf)\<rparr>
      in case cb_origin c of FromTicker i \<Rightarrow> ticker_step TkReturns i lf | FromSignal s \<Rightarrow> Some lf)"

text \<open>The first step of a callback takes the lock of the job.\<close>

definition begin_callback :: "nat \<Rightarrow> origin \<Rightarrow> nat \<Rightarrow> lifecycle \<Rightarrow> lifecycle option" where
  "begin_callback k o1 fn lf =
     (if jb_stopping (lf_job lf) \<noteq> None then None
      else if fn = 0
      then (case startLocked (lf_job lf) of
              ((i, _), j) \<Rightarrow> Some (lf\<lparr>lf_job := j, lf_calls := (lf_calls lf)[k := CbJoining o1 i]\<rparr>))
      else (case jb_worker (lf_job lf) of
              None \<Rightarrow> end_callback k lf
            | Some _ \<Rightarrow> Some (lf\<lparr>lf_job := stopLocked False (lf_job lf), lf_calls := (lf_calls lf)[k := CbStopping o1]\<rparr>)))"

datatype life_ev =
    LfJob job_ev
  | LfSignal string nat
  | LfTicker nat ticker_ev
  | LfBegin nat
  | LfEnd nat
  | LfRemove

text \<open>
  \<open>LfJob\<close> is any step of the job from elsewhere, \<open>LfSignal\<close> the goroutine that a signal of the named event
  starts for a subscription, and \<open>LfRemove\<close> the removal of the triggers, after the end of the context.
\<close>

fun life_act :: "life_ev \<Rightarrow> lifecycle \<Rightarrow> lifecycle option" where
  "life_act (LfJob ev) lf =
     (if ev = JStopped \<and> list_ex cb_stops (lf_calls lf) then None
      else map_option (\<lambda>j. lf\<lparr>lf_job := j\<rparr>) (job_act ev (lf_job lf)))"
| "life_act (LfSignal name s) lf =
     (case hub_subs (ln_hub (lf_listening lf)) s of
        Some x \<Rightarrow>
          if s \<in> hub_Signal (ln_hub (lf_listening lf)) name
          then Some (lf\<lparr>lf_calls := lf_calls lf @ [CbBegin (FromSignal s) (sub_fn x)]\<rparr>) else None
      | None \<Rightarrow> None)"
| "life_act (LfTicker i ev) lf =
     (if ev = TkReturns \<or> ev = TkRemove then None
      else if ev = TkCalls
      then map_option (\<lambda>lf'. lf'\<lparr>lf_calls := lf_calls lf @ [CbBegin (FromTicker i) (if i < lf_launchers lf then 0 else 1)]\<rparr>)
             (ticker_step TkCalls i lf)
      else ticker_step ev i lf)"
| "life_act (LfBegin k) lf =
     (if k < length (lf_calls lf)
      then (case lf_calls lf ! k of CbBegin o1 fn \<Rightarrow> begin_callback k o1 fn lf | _ \<Rightarrow> None)
      else None)"
| "life_act (LfEnd k) lf =
     (if k < length (lf_calls lf)
      then (case lf_calls lf ! k of
              CbBegin _ _ \<Rightarrow> None
            | CbJoining _ i \<Rightarrow>
                if worker_ctx (jb_workers (lf_job lf) ! i) \<noteq> None \<or> jb_ctx (lf_job lf) \<noteq> None then end_callback k lf else None
            | CbStopping _ \<Rightarrow>
                (case job_act JStopped (lf_job lf) of None \<Rightarrow> None | Some j \<Rightarrow> end_callback k (lf\<lparr>lf_job := j\<rparr>)))
      else None)"
| "life_act LfRemove lf =
     (if jb_ctx (lf_job lf) \<noteq> None
      then Some (lf\<lparr>lf_listening := trigger_remove (lf_handles lf) (lf_listening lf), lf_handles := []\<rparr>) else None)"

section \<open>What the triggers do to the job\<close>

lemma ticker_step_frame:
  assumes "ticker_step ev i lf = Some lf'"
  shows "lf_job lf' = lf_job lf" and "lf_calls lf' = lf_calls lf" and "lf_launchers lf' = lf_launchers lf"
  using assms by (auto simp: ticker_step_def split: if_splits)

lemma end_callback_frame:
  assumes "end_callback k lf = Some lf'"
  shows "lf_job lf' = lf_job lf" and "lf_calls lf' = take k (lf_calls lf) @ drop (Suc k) (lf_calls lf)"
  using assms by (auto simp: end_callback_def Let_def split: origin.splits dest: ticker_step_frame)

text \<open>Whatever a trigger does to the job is a start, a stop or the end of a stop.\<close>

lemma life_job_step:
  assumes "life_act ev lf = Some lf'"
  shows "lf_job lf' = lf_job lf \<or> (\<exists>jev. job_act jev (lf_job lf) = Some (lf_job lf') \<and> (jev = JKill \<longrightarrow> ev = LfJob JKill))"
proof (cases ev)
  case (LfJob jev)
  then show ?thesis using assms by (auto split: if_splits)
next
  case (LfTicker i tev)
  then show ?thesis using assms by (auto split: if_splits dest: ticker_step_frame(1))
next
  case (LfBegin k)
  then obtain o1 fn where b: "begin_callback k o1 fn lf = Some lf'" using assms by (auto split: if_splits callback.splits)
  then have s: "jb_stopping (lf_job lf) = None" by (cases "jb_stopping (lf_job lf)") (simp_all add: begin_callback_def)
  show ?thesis
  proof (cases "fn = 0")
    case True
    then have "job_act JStart (lf_job lf) = Some (lf_job lf')"
      using b s by (auto simp: begin_callback_def split: prod.splits)
    then show ?thesis by blast
  next
    case False
    then show ?thesis
    proof (cases "jb_worker (lf_job lf)")
      case None
      then show ?thesis using b s False by (auto simp: begin_callback_def dest: end_callback_frame(1))
    next
      case (Some i)
      then have "job_act JStop (lf_job lf) = Some (lf_job lf')" using b s False by (auto simp: begin_callback_def)
      then show ?thesis by blast
    qed
  qed
next
  case (LfEnd k)
  then consider "end_callback k lf = Some lf'"
    | j where "job_act JStopped (lf_job lf) = Some j" "end_callback k (lf\<lparr>lf_job := j\<rparr>) = Some lf'"
    using assms by (auto simp del: job_act.simps split: if_splits callback.splits option.splits)
  then show ?thesis
  proof cases
    case 1
    then show ?thesis by (simp add: end_callback_frame(1))
  next
    case 2
    then have "lf_job lf' = j" using end_callback_frame(1) by fastforce
    then show ?thesis using 2(1) by blast
  qed
qed (use assms in \<open>auto split: if_splits option.splits\<close>)

interpretation life_accounting: guarded_system life_act "\<lambda>ev. ev \<noteq> LfJob JKill" "\<lambda>lf. accounted (lf_job lf)"
proof
  fix ev lf lf' assume "ev \<noteq> LfJob JKill" "life_act ev lf = Some lf'" "accounted (lf_job lf)"
  then show "accounted (lf_job lf')" using life_job_step [of ev lf lf'] accounted_keeps by metis
qed

section \<open>One callback at a time\<close>

primrec calls_of :: "nat \<Rightarrow> callback list \<Rightarrow> nat" where
  "calls_of i [] = 0"
| "calls_of i (c # cs) = of_bool (cb_origin c = FromTicker i) + calls_of i cs"

lemma calls_of_append [simp]: "calls_of i (cs @ ds) = calls_of i cs + calls_of i ds"
  by (induction cs) simp_all

text \<open>A ticker is calling exactly while one callback of its own is under way.\<close>

definition one_call :: "ticker list \<Rightarrow> callback list \<Rightarrow> bool" where
  "one_call tks cs \<longleftrightarrow>
     (\<forall>i < length tks. calls_of i cs = of_bool (tk_pc (tks ! i) = TkCalling)) \<and> (\<forall>i \<ge> length tks. calls_of i cs = 0)"

definition sequential :: "lifecycle \<Rightarrow> bool" where
  "sequential lf \<longleftrightarrow> one_call (ln_tickers (lf_listening lf)) (lf_calls lf)"

lemma calls_of_split: "k < length cs \<Longrightarrow> calls_of i cs = calls_of i (take k cs) + of_bool (cb_origin (cs ! k) = FromTicker i) + calls_of i (drop (Suc k) cs)"
  by (subst id_take_nth_drop [of k cs]) simp_all

lemma calls_of_update [simp]:
  assumes "k < length cs" and "cb_origin c = cb_origin (cs ! k)"
  shows "calls_of i (cs[k := c]) = calls_of i cs"
  using assms(2) by (simp add: upd_conv_take_nth_drop [OF assms(1)] calls_of_split [OF assms(1)])

lemma calls_of_remove:
  assumes "k < length cs"
  shows "calls_of i cs = calls_of i (take k cs @ drop (Suc k) cs) + of_bool (cb_origin (cs ! k) = FromTicker i)"
  by (simp add: calls_of_split [OF assms])

lemma one_call_same:
  assumes "one_call tks cs" and "length tks' = length tks" and "\<And>i. i < length tks \<Longrightarrow> (tk_pc (tks' ! i) = TkCalling) = (tk_pc (tks ! i) = TkCalling)"
    and "\<And>i. calls_of i cs' = calls_of i cs"
  shows "one_call tks' cs'"
  using assms by (simp add: one_call_def)

lemma ticker_act_calling:
  assumes "ticker_act ev k = Some k'" and "ev \<noteq> TkCalls" and "ev \<noteq> TkReturns"
  shows "(tk_pc k' = TkCalling) = (tk_pc k = TkCalling)"
  using assms by (cases ev) (auto split: ticker_pc.splits if_splits)

lemma sequential_ticker:
  assumes "sequential lf" and "ticker_step ev i lf = Some lf'" and "ev \<noteq> TkCalls" and "ev \<noteq> TkReturns"
  shows "sequential lf'"
  using assms(2) ticker_act_calling [OF _ assms(3,4)] unfolding sequential_def
  by (auto simp: ticker_step_def nth_list_update split: if_splits
      intro!: one_call_same [OF assms(1) [unfolded sequential_def]])

lemma sequential_calls:
  assumes "sequential lf" and "ticker_step TkCalls i lf = Some lf'"
  shows "sequential (lf'\<lparr>lf_calls := lf_calls lf @ [CbBegin (FromTicker i) fn]\<rparr>)"
  using assms by (auto simp: sequential_def one_call_def ticker_step_def nth_list_update split: if_splits)

lemma sequential_end:
  assumes "sequential lf" and "end_callback k lf = Some lf'" and "k < length (lf_calls lf)"
  shows "sequential lf'"
proof (cases "cb_origin (lf_calls lf ! k)")
  case (FromSignal s)
  then have "calls_of j (lf_calls lf) = calls_of j (take k (lf_calls lf) @ drop (Suc k) (lf_calls lf))" for j
    using calls_of_remove [OF assms(3), of j] by simp
  moreover have "lf' = lf\<lparr>lf_calls := take k (lf_calls lf) @ drop (Suc k) (lf_calls lf)\<rparr>"
    using assms(2) FromSignal by (simp add: end_callback_def Let_def)
  ultimately show ?thesis using assms(1) unfolding sequential_def one_call_def by (simp del: calls_of_append)
next
  case (FromTicker i)
  let ?cs = "take k (lf_calls lf) @ drop (Suc k) (lf_calls lf)"
  have r: "calls_of j (lf_calls lf) = calls_of j ?cs + of_bool (i = j)" for j
    using calls_of_remove [OF assms(3), of j] FromTicker by simp
  obtain t where t: "i < length (ln_tickers (lf_listening lf))" "ticker_act TkReturns (ln_tickers (lf_listening lf) ! i) = Some t"
      "ln_tickers (lf_listening lf') = (ln_tickers (lf_listening lf))[i := t]" "lf_calls lf' = ?cs"
    using assms(2) FromTicker by (auto simp: end_callback_def ticker_step_def Let_def split: if_splits)
  have "tk_pc (ln_tickers (lf_listening lf) ! i) = TkCalling" "tk_pc t \<noteq> TkCalling"
    using t(2) by (auto simp: tk_again_def split: if_splits ticker_kind.splits)
  note c = this
  have old: "calls_of j (lf_calls lf) = (if j < length (ln_tickers (lf_listening lf)) then of_bool (tk_pc (ln_tickers (lf_listening lf) ! j) = TkCalling) else 0)" for j
    using assms(1) by (simp add: sequential_def one_call_def)
  have "calls_of j ?cs = (if j < length (ln_tickers (lf_listening lf)) then of_bool (tk_pc ((ln_tickers (lf_listening lf))[i := t] ! j) = TkCalling) else 0)" for j
  proof (cases "i = j")
    case True
    then show ?thesis using r [of j] old [of j] c t(1) by simp
  next
    case False
    then have "calls_of j ?cs = calls_of j (lf_calls lf)" using r [of j] by simp
    with old [of j] False show ?thesis by (simp del: calls_of_append)
  qed
  then show ?thesis unfolding sequential_def one_call_def t(3,4) by simp
qed

lemma sequential_update:
  "sequential lf \<Longrightarrow> k < length (lf_calls lf) \<Longrightarrow> cb_origin c = cb_origin (lf_calls lf ! k)
    \<Longrightarrow> sequential (lf\<lparr>lf_job := j, lf_calls := (lf_calls lf)[k := c]\<rparr>)"
  by (simp add: sequential_def one_call_def)

lemma sequential_begin:
  assumes "sequential lf" and "k < length (lf_calls lf)" and "lf_calls lf ! k = CbBegin o1 fn" and "begin_callback k o1 fn lf = Some lf'"
  shows "sequential lf'"
proof (cases "fn = 0")
  case True
  then obtain i b j where "startLocked (lf_job lf) = ((i, b), j)" "lf' = lf\<lparr>lf_job := j, lf_calls := (lf_calls lf)[k := CbJoining o1 i]\<rparr>"
    using assms(4) by (auto simp: begin_callback_def split: prod.splits if_splits)
  then show ?thesis using sequential_update [OF assms(1,2)] assms(3) by simp
next
  case False
  show ?thesis
  proof (cases "jb_worker (lf_job lf)")
    case None
    then show ?thesis using assms(2,4) False sequential_end [OF assms(1)] by (simp add: begin_callback_def split: if_splits)
  next
    case (Some i)
    then have "lf' = lf\<lparr>lf_job := stopLocked False (lf_job lf), lf_calls := (lf_calls lf)[k := CbStopping o1]\<rparr>"
      using assms(4) False by (simp add: begin_callback_def split: if_splits)
    then show ?thesis using sequential_update [OF assms(1,2)] assms(3) by simp
  qed
qed

lemma trigger_remove_frame:
  "length (ln_tickers (trigger_remove hs l)) = length (ln_tickers l) \<and> tk_pc (ln_tickers (trigger_remove hs l) ! i) = tk_pc (ln_tickers l ! i)"
proof (induction hs l rule: trigger_remove.induct)
  case (4 n rs l)
  then show ?case by (cases "n < length (ln_tickers l)") (auto simp: nth_list_update)
qed simp_all

lemma sequential_keeps:
  assumes "life_act ev lf = Some lf'" and "sequential lf"
  shows "sequential lf'"
proof (cases ev)
  case (LfJob jev)
  then show ?thesis using assms by (auto simp: sequential_def split: if_splits)
next
  case (LfSignal name s)
  then show ?thesis using assms by (auto simp: sequential_def one_call_def split: if_splits option.splits)
next
  case (LfTicker i tev)
  show ?thesis
  proof (cases "tev = TkCalls")
    case True
    then show ?thesis using assms LfTicker sequential_calls by auto
  next
    case False
    then have "ticker_step tev i lf = Some lf'" "tev \<noteq> TkReturns" using assms(1) LfTicker by (auto split: if_splits)
    then show ?thesis using sequential_ticker [OF assms(2)] False by blast
  qed
next
  case (LfBegin k)
  then obtain o1 fn where "k < length (lf_calls lf)" "lf_calls lf ! k = CbBegin o1 fn" "begin_callback k o1 fn lf = Some lf'"
    using assms(1) by (auto split: if_splits callback.splits)
  then show ?thesis using sequential_begin [OF assms(2)] by blast
next
  case (LfEnd k)
  then consider "k < length (lf_calls lf)" "end_callback k lf = Some lf'"
    | j where "k < length (lf_calls lf)" "end_callback k (lf\<lparr>lf_job := j\<rparr>) = Some lf'"
    using assms(1) by (auto simp del: job_act.simps split: if_splits callback.splits option.splits)
  then show ?thesis
  proof cases
    case 1
    then show ?thesis using sequential_end [OF assms(2)] by blast
  next
    case (2 j)
    then show ?thesis using sequential_end [of "lf\<lparr>lf_job := j\<rparr>" k lf'] assms(2) by (simp add: sequential_def)
  qed
next
  case LfRemove
  then show ?thesis
    using assms trigger_remove_frame by (auto simp: sequential_def one_call_def split: if_splits)
qed

interpretation life_callbacks: guarded_system life_act "\<lambda>_. True" sequential
  by unfold_locales (rule sequential_keeps)

text \<open>A job that is ready: its triggers wait, and nothing has called back.\<close>

lemma start_ticker_quiet: "tk_pc (new_ticker kind now) \<noteq> TkCalling"
  by (cases kind) (simp_all add: new_ticker_def tk_again_def Let_def)

lemma Listen_quiet:
  "\<forall>k \<in> set (ln_tickers l). tk_pc k \<noteq> TkCalling \<Longrightarrow> \<forall>k \<in> set (ln_tickers (snd (trigger_Listen fn t l))). tk_pc k \<noteq> TkCalling"
  "\<forall>k \<in> set (ln_tickers l). tk_pc k \<noteq> TkCalling \<Longrightarrow> \<forall>k \<in> set (ln_tickers (snd (triggers_Listen fn ts l))). tk_pc k \<noteq> TkCalling"
  by (induction fn t l and fn ts l rule: trigger_Listen_triggers_Listen.induct)
    (simp_all add: start_ticker_def start_ticker_quiet Let_def case_prod_unfold, metis prod.collapse)

lemma Ready_sequential: "sequential (life_Ready onLaunch onDrop (idle_life j now))"
proof -
  have q: "\<forall>k \<in> set (ln_tickers (snd (job_Ready onLaunch onDrop (lf_listening (idle_life j now))))). tk_pc k \<noteq> TkCalling"
    by (cases onLaunch; cases onDrop; simp add: job_Ready_def idle_life_def Let_def case_prod_unfold; intro Listen_quiet(1); simp)
  then show ?thesis
    by (simp add: life_Ready_def case_prod_unfold sequential_def one_call_def) (simp add: idle_life_def)
qed

lemma Ready_accounted: "accounted (lf_job (life_Ready onLaunch onDrop (idle_life (new_job jid configure opts t) now)))"
  by (simp add: life_Ready_def idle_life_def case_prod_unfold accounted_new)

text \<open>
  C23. The triggers of a job never make it run twice: whatever signals and timers call back, and whatever
  is asked of the job in between except a kill, it has at most one live worker; and a timer, \<open>always\<close> or
  \<open>every\<close>, has at most one callback under way, exactly while it waits for it.
\<close>

theorem triggers_start_once:
  assumes "exec life_act evs (life_Ready onLaunch onDrop (idle_life (new_job jid configure opts t) now)) = Some lf"
    and "LfJob JKill \<notin> set evs"
  shows "(\<forall>i k. i < length (jb_workers (lf_job lf)) \<longrightarrow> k < length (jb_workers (lf_job lf)) \<longrightarrow>
        worker_ctx (jb_workers (lf_job lf) ! i) = None \<longrightarrow> worker_ctx (jb_workers (lf_job lf) ! k) = None \<longrightarrow> i = k)
    \<and> (\<forall>i < length (ln_tickers (lf_listening lf)).
        calls_of i (lf_calls lf) = of_bool (tk_pc (ln_tickers (lf_listening lf) ! i) = TkCalling))"
proof -
  have "accounted (lf_job lf)"
    by (rule life_accounting.exec_keeps [OF assms(1) _ Ready_accounted]) (use assms(2) in auto)
  then have "i = k" if "i < length (jb_workers (lf_job lf))" "k < length (jb_workers (lf_job lf))"
      "worker_ctx (jb_workers (lf_job lf) ! i) = None" "worker_ctx (jb_workers (lf_job lf) ! k) = None" for i k
    using that unfolding accounted_def by (metis option.inject option.simps(3) prod.inject)
  moreover have "sequential lf" by (rule life_callbacks.exec_keeps [OF assms(1) _ Ready_sequential]) simp
  ultimately show ?thesis unfolding sequential_def one_call_def by blast
qed

text \<open>The sample: a job with an \<open>always\<close> trigger, whose worker ends at once, stopped and started in between.\<close>

definition always_job :: lifecycle where
  "always_job = life_Ready (Some TriggerAlways) None (idle_life (new_job ''j'' id once_opts 0) 0)"

lemma always_job_state:
  "always_job = (idle_life (new_job ''j'' id once_opts 0) 0)\<lparr>lf_listening :=
      \<lparr>ln_hub = new_hub, ln_tickers = [new_ticker KAlways 0], ln_now = 0\<rparr>, lf_launchers := 1, lf_handles := [RemTicker 0]\<rparr>"
  by (simp add: always_job_def life_Ready_def job_Ready_def start_ticker_def idle_life_def Let_def)

lemma triggers_start_once_witness:
  "\<exists>lf. exec life_act [LfTicker 0 TkTests, LfTicker 0 TkCalls, LfJob JStart, LfBegin 0]
      (life_Ready (Some TriggerAlways) None (idle_life (new_job ''j'' id once_opts 0) 0)) = Some lf
    \<and> length (jb_workers (lf_job lf)) = 1 \<and> calls_of 0 (lf_calls lf) = 1"
proof -
  have "\<exists>lf. exec life_act [LfTicker 0 TkTests, LfTicker 0 TkCalls, LfJob JStart, LfBegin 0] always_job = Some lf
      \<and> length (jb_workers (lf_job lf)) = 1 \<and> length (ln_tickers (lf_listening lf)) = 1 \<and> tk_pc (ln_tickers (lf_listening lf) ! 0) = TkCalling"
    by (simp add: always_job_state idle_life_def new_ticker_def tk_again_def ticker_step_def begin_callback_def new_job_def startLocked_def Let_def)
  then obtain lf where lf: "exec life_act [LfTicker 0 TkTests, LfTicker 0 TkCalls, LfJob JStart, LfBegin 0] always_job = Some lf"
      "length (jb_workers (lf_job lf)) = 1" "length (ln_tickers (lf_listening lf)) = 1" "tk_pc (ln_tickers (lf_listening lf) ! 0) = TkCalling"
    by blast
  then show ?thesis
    using triggers_start_once [OF lf(1) [unfolded always_job_def]] unfolding always_job_def by auto
qed

section \<open>What outlives a job\<close>

text \<open>
  \<open>DeleteJob\<close> of \<open>pkg/session/session.go\<close> stops a job and nothing more: its context lives on, its
  triggers stay, and the next signal starts the deleted job.
\<close>

lemma deleted_job_restarts:
  "\<exists>lf. exec life_act [LfJob JStop, LfSignal ''e'' 1, LfBegin 0] (life_Ready (Some (TriggerOn ''e'')) None (idle_life (new_job ''j'' id once_opts 0) 0)) = Some lf
    \<and> jb_worker (lf_job lf) = Some 0 \<and> worker_ctx (jb_workers (lf_job lf) ! 0) = None"
  by (simp add: life_Ready_def job_Ready_def idle_life_def hub_ops new_hub_def sm_Load_def sm_Store_def begin_callback_def start_once)

text \<open>
  An \<open>always\<close> trigger whose job is over calls back without end and without waiting: \<open>Start\<close> returns the
  worker that is over, \<open>startOrJoin\<close> returns at once, and the loop begins again in the same instant.
\<close>

definition spinning :: "nat \<Rightarrow> lifecycle \<Rightarrow> bool" where
  "spinning i lf \<longleftrightarrow>
     i < length (ln_tickers (lf_listening lf)) \<and> i < lf_launchers lf
     \<and> tk_kind (ln_tickers (lf_listening lf) ! i) = KAlways \<and> \<not> tk_done (ln_tickers (lf_listening lf) ! i)
     \<and> tk_pc (ln_tickers (lf_listening lf) ! i) = TkTest
     \<and> jb_stopping (lf_job lf) = None \<and> (\<exists>w. jb_worker (lf_job lf) = Some w \<and> worker_ctx (jb_workers (lf_job lf) ! w) \<noteq> None)"

lemma spin_once:
  assumes "spinning i lf"
  shows "\<exists>lf'. exec life_act [LfTicker i TkTests, LfTicker i TkCalls, LfBegin (length (lf_calls lf)), LfEnd (length (lf_calls lf))] lf = Some lf'
    \<and> spinning i lf' \<and> lf_job lf' = lf_job lf \<and> lf_calls lf' = lf_calls lf
    \<and> tk_calls (ln_tickers (lf_listening lf') ! i) = Suc (tk_calls (ln_tickers (lf_listening lf) ! i))
    \<and> tk_now (ln_tickers (lf_listening lf') ! i) = tk_now (ln_tickers (lf_listening lf) ! i)"
  using assms
  by (auto simp: spinning_def ticker_step_def begin_callback_def startLocked_def end_callback_def tk_again_def Let_def nth_append)

lemma always_spins:
  assumes "spinning i lf"
  shows "\<exists>evs lf'. exec life_act evs lf = Some lf' \<and> lf_job lf' = lf_job lf
    \<and> tk_calls (ln_tickers (lf_listening lf') ! i) = tk_calls (ln_tickers (lf_listening lf) ! i) + n
    \<and> tk_now (ln_tickers (lf_listening lf') ! i) = tk_now (ln_tickers (lf_listening lf) ! i)"
  using assms
proof (induction n arbitrary: lf)
  case (Suc n)
  obtain lf1 where lf1: "exec life_act [LfTicker i TkTests, LfTicker i TkCalls, LfBegin (length (lf_calls lf)), LfEnd (length (lf_calls lf))] lf = Some lf1"
      "spinning i lf1" "lf_job lf1 = lf_job lf" "tk_calls (ln_tickers (lf_listening lf1) ! i) = Suc (tk_calls (ln_tickers (lf_listening lf) ! i))"
      "tk_now (ln_tickers (lf_listening lf1) ! i) = tk_now (ln_tickers (lf_listening lf) ! i)"
    using spin_once [OF Suc.prems] by blast
  obtain evs lf2 where lf2: "exec life_act evs lf1 = Some lf2" "lf_job lf2 = lf_job lf1"
      "tk_calls (ln_tickers (lf_listening lf2) ! i) = tk_calls (ln_tickers (lf_listening lf1) ! i) + n"
      "tk_now (ln_tickers (lf_listening lf2) ! i) = tk_now (ln_tickers (lf_listening lf1) ! i)"
    using Suc.IH [OF lf1(2)] by blast
  show ?case
    by (rule exI [of _ "[LfTicker i TkTests, LfTicker i TkCalls, LfBegin (length (lf_calls lf)), LfEnd (length (lf_calls lf))] @ evs"])
      (use lf1 lf2 in \<open>simp only: exec_append option.case\<close>, simp)
qed (auto intro!: exI [of _ "[]"])

end
