(* ===== verification/ReaderPos.thy ===== *)
theory ReaderPos
  imports ArgReader
begin

text \<open>
  The lexical half of \<open>pkg/automarshal/reader.go\<close> as it is written: a buffer with a position, \<open>Read\<close> and
  \<open>Unread\<close> that move it, and loops with their builders and flags. \<open>ArgReader\<close> reads the text that
  remains instead; the theorem at the end is that both read the same.
\<close>

section \<open>Runes\<close>

record arg_reader =
  ar_buf :: string
  ar_pos :: nat

definition NewArgReader :: "string \<Rightarrow> arg_reader" where
  "NewArgReader args = \<lparr>ar_buf = args, ar_pos = 0\<rparr>"

definition ar_Len :: "arg_reader \<Rightarrow> int" where
  "ar_Len r = int (length (ar_buf r)) - int (ar_pos r)"

definition ar_Finished :: "arg_reader \<Rightarrow> bool" where
  "ar_Finished r \<longleftrightarrow> ar_Len r = 0"

definition ar_Peek :: "arg_reader \<Rightarrow> char" where
  "ar_Peek r = (if length (ar_buf r) \<le> ar_pos r then CHR 0x00 else ar_buf r ! ar_pos r)"

text \<open>\<open>None\<close> is \<open>io.EOF\<close>, the only error of \<open>Read\<close>.\<close>

definition ar_Read :: "arg_reader \<Rightarrow> char option \<times> arg_reader" where
  "ar_Read r =
     (if length (ar_buf r) \<le> ar_pos r then (None, r)
      else let r = r\<lparr>ar_pos := ar_pos r + 1\<rparr> in (Some (ar_buf r ! (ar_pos r - 1)), r))"

definition ar_Unread :: "arg_reader \<Rightarrow> arg_reader" where
  "ar_Unread r = r\<lparr>ar_pos := ar_pos r - 1\<rparr>"

definition ar_Remains :: "arg_reader \<Rightarrow> string" where
  "ar_Remains r = drop (ar_pos r) (ar_buf r)"

lemma ar_Read_cases:
  obtains (eof) "ar_Remains r = []" "ar_Read r = (None, r)"
  | (rune) c r' where "ar_Remains r = c # ar_Remains r'" "ar_Read r = (Some c, r')" "ar_Unread r' = r"
proof (cases "length (ar_buf r) \<le> ar_pos r")
  case True
  then show thesis by (intro eof) (simp_all add: ar_Remains_def ar_Read_def)
next
  case False
  then show thesis
    by (intro rune [of "ar_buf r ! ar_pos r" "r\<lparr>ar_pos := ar_pos r + 1\<rparr>"])
      (simp_all add: ar_Remains_def ar_Read_def ar_Unread_def drop_eq_Cons_nth)
qed

lemma ar_Read_shorter: "ar_Read r = (Some c, r') \<Longrightarrow> length (ar_Remains r') < length (ar_Remains r)"
  by (cases r rule: ar_Read_cases) auto

text \<open>A loop ends because each turn has read a rune; its result, with the text that remains.\<close>

fun at_remains :: "'v \<times> arg_reader \<Rightarrow> 'v \<times> string" where
  "at_remains (v, r) = (v, ar_Remains r)"

function ar_Skipspace :: "arg_reader \<Rightarrow> arg_reader" where
  "ar_Skipspace r =
     (case ar_Read r of
        (None, r) \<Rightarrow> r
      | (Some c, r) \<Rightarrow> if rd_space c then ar_Skipspace r else ar_Unread r)"
  by pat_completeness auto
termination by (relation "measure (\<lambda>r. length (ar_Remains r))") (simp_all add: ar_Read_shorter [OF sym])

declare ar_Skipspace.simps [simp del]

lemma remains_Skipspace [simp]: "ar_Remains (ar_Skipspace r) = Skipspace (ar_Remains r)"
proof (induction r rule: ar_Skipspace.induct)
  case (1 r)
  show ?case
  proof (cases r rule: ar_Read_cases)
    case eof
    then show ?thesis by (simp add: ar_Skipspace.simps [of r])
  next
    case (rune c r')
    then show ?thesis using "1.IH" [of "Some c" r' c] by (simp add: ar_Skipspace.simps [of r])
  qed
qed

definition ar_Significant :: "arg_reader \<Rightarrow> char option \<times> arg_reader" where
  "ar_Significant r = ar_Read (ar_Skipspace r)"

definition ar_TakeAnyIf :: "RuneSet \<Rightarrow> arg_reader \<Rightarrow> char option \<times> arg_reader" where
  "ar_TakeAnyIf d r =
     (case ar_Read r of
        (None, r) \<Rightarrow> (None, r)
      | (Some c, r) \<Rightarrow> if \<not> TestRune d c then (None, ar_Unread r) else (Some c, r))"

lemma ar_TakeAnyIf_shorter: "ar_TakeAnyIf d r = (Some c, r') \<Longrightarrow> length (ar_Remains r') < length (ar_Remains r)"
  by (cases r rule: ar_Read_cases) (auto simp: ar_TakeAnyIf_def split: if_splits)

function ar_TakeAnyN :: "RuneSet \<Rightarrow> string \<Rightarrow> arg_reader \<Rightarrow> string \<times> arg_reader" where
  "ar_TakeAnyN d res r =
     (case ar_TakeAnyIf d r of
        (None, r) \<Rightarrow> (res, r)
      | (Some c, r) \<Rightarrow> ar_TakeAnyN d (res @ [c]) r)"
  by pat_completeness auto
termination by (relation "measure (\<lambda>(d, res, r). length (ar_Remains r))") (simp_all add: ar_TakeAnyIf_shorter [OF sym])

declare ar_TakeAnyN.simps [simp del]

lemma remains_TakeAnyN: "at_remains (ar_TakeAnyN d res r) = apfst ((@) res) (TakeAnyN d (ar_Remains r))"
proof (induction d res r rule: ar_TakeAnyN.induct)
  case (1 d res r)
  show ?case
  proof (cases r rule: ar_Read_cases)
    case eof
    then show ?thesis by (simp add: ar_TakeAnyN.simps [of d res r] ar_TakeAnyIf_def)
  next
    case (rune c r')
    then show ?thesis
      using "1.IH" [of "Some c" r' c] by (simp add: ar_TakeAnyN.simps [of d res r] ar_TakeAnyIf_def case_prod_unfold apfst_def map_prod_def)
  qed
qed

definition ar_TakeIf :: "char \<Rightarrow> arg_reader \<Rightarrow> bool \<times> arg_reader" where
  "ar_TakeIf c r =
     (let r = (if c \<noteq> CHR '' '' then ar_Skipspace r else r) in
      case ar_Read r of
        (None, r) \<Rightarrow> (False, r)
      | (Some ch, r) \<Rightarrow> if ch \<noteq> c then (False, ar_Unread r) else (True, r))"

lemma remains_TakeIf: "at_remains (ar_TakeIf c r) = TakeIf c (ar_Remains r)"
proof -
  define q where "q = (if c \<noteq> CHR '' '' then ar_Skipspace r else r)"
  have e: "(if c \<noteq> CHR '' '' then Skipspace (ar_Remains r) else ar_Remains r) = ar_Remains q" by (simp add: q_def)
  show ?thesis
    unfolding ar_TakeIf_def TakeIf_def Let_def e q_def [symmetric] by (cases q rule: ar_Read_cases) simp_all
qed

definition ar_Take :: "char \<Rightarrow> arg_reader \<Rightarrow> rerr option \<times> arg_reader" where
  "ar_Take c r = (case ar_TakeIf c r of (ok, r) \<Rightarrow> (if \<not> ok then Some (Expected c) else None, r))"

lemma remains_Take: "at_remains (ar_Take c r) = Take c (ar_Remains r)"
  by (cases "ar_TakeIf c r") (simp add: ar_Take_def Take_def flip: remains_TakeIf)

section \<open>Words\<close>

function ar_quoted :: "char \<Rightarrow> bool \<Rightarrow> string \<Rightarrow> arg_reader \<Rightarrow> (rerr + string) \<times> arg_reader" where
  "ar_quoted q escape res r =
     (case ar_Read r of
        (None, r) \<Rightarrow> (Inl RdEOF, r)
      | (Some c, r) \<Rightarrow>
          if escape then ar_quoted q False (res @ [c]) r
          else if c = CHR 0x5C then ar_quoted q True res r
          else if c = q then (Inr res, r)
          else ar_quoted q False (res @ [c]) r)"
  by pat_completeness auto
termination by (relation "measure (\<lambda>(q, escape, res, r). length (ar_Remains r))") (simp_all add: ar_Read_shorter [OF sym])

declare ar_quoted.simps [simp del]

definition ar_Quoted :: "char \<Rightarrow> arg_reader \<Rightarrow> (rerr + string) \<times> arg_reader" where
  "ar_Quoted q r = ar_quoted q False [] r"

text \<open>What a builder had before its loop stays in front of what the loop adds.\<close>

fun built :: "string \<Rightarrow> (rerr + string) \<times> string \<Rightarrow> (rerr + string) \<times> string" where
  "built res (Inl e, r) = (Inl e, r)"
| "built res (Inr s, r) = (Inr (res @ s), r)"

lemma built_Nil [simp]: "built [] x = x"
  by (cases x; cases "fst x") auto

lemma built_Cons: "built res (case x of (Inl e, r) \<Rightarrow> (Inl e, r) | (Inr s, r) \<Rightarrow> (Inr (c # s), r)) = built (res @ [c]) x"
  by (cases x; cases "fst x") auto

lemma remains_quoted: "at_remains (ar_quoted q escape res r) = built res (quoted q escape (ar_Remains r))"
proof (induction q escape res r rule: ar_quoted.induct)
  case (1 q escape res r)
  show ?case
  proof (cases r rule: ar_Read_cases)
    case eof
    then show ?thesis by (simp add: ar_quoted.simps [of q escape res r])
  next
    case (rune c r')
    note IH = "1.IH" [OF rune(2) [symmetric] refl]
    show ?thesis
    proof (cases escape)
      case True
      then show ?thesis using IH(1) rune by (subst ar_quoted.simps) (simp add: built_Cons)
    next
      case False
      then show ?thesis
        using IH(2,3) rune by (cases "c = CHR 0x5C"; cases "c = q"; subst ar_quoted.simps; simp add: built_Cons)
    qed
  qed
qed

lemma remains_Quoted: "at_remains (ar_Quoted q r) = Quoted q (ar_Remains r)"
  by (simp add: ar_Quoted_def Quoted_def remains_quoted)

text \<open>\<open>Text\<close>, whose \<open>first\<close> rune is a significant one.\<close>

lemma ar_next_shorter:
  "(if first then ar_Significant r else ar_Read r) = (Some c, r') \<Longrightarrow> length (ar_Remains r') < length (ar_Remains r)"
proof -
  have "length (Skipspace s) \<le> length s" for s by (induction s) auto
  then have "length (ar_Remains (ar_Skipspace r)) \<le> length (ar_Remains r)" by simp
  then show "(if first then ar_Significant r else ar_Read r) = (Some c, r') \<Longrightarrow> ?thesis"
    using ar_Read_shorter [of r c r'] ar_Read_shorter [of "ar_Skipspace r" c r'] by (auto simp: ar_Significant_def split: if_splits)
qed

function ar_text :: "bool \<Rightarrow> string \<Rightarrow> arg_reader \<Rightarrow> (rerr + string) \<times> arg_reader" where
  "ar_text first res r =
     (case (if first then ar_Significant r else ar_Read r) of
        (None, r) \<Rightarrow> (Inr res, r)
      | (Some c, r) \<Rightarrow>
          if first \<and> is_quote c then ar_Quoted c r
          else if is_quote c then (Inr res, ar_Unread r)
          else ar_text False (res @ [c]) r)"
  by pat_completeness auto
termination by (relation "measure (\<lambda>(first, res, r). length (ar_Remains r))") (simp_all add: ar_next_shorter [OF sym])

declare ar_text.simps [simp del]

definition ar_Text :: "arg_reader \<Rightarrow> (rerr + string) \<times> arg_reader" where
  "ar_Text r = ar_text True [] r"

lemma remains_text: "at_remains (ar_text False res r) = map_prod (Inr \<circ> (@) res) id (text_rest (ar_Remains r))"
proof (induction "length (ar_Remains r)" arbitrary: res r rule: less_induct)
  case less
  show ?case
  proof (cases r rule: ar_Read_cases)
    case eof
    then show ?thesis by (subst ar_text.simps) simp
  next
    case (rune c r')
    then show ?thesis
      using less [of r' "res @ [c]"] by (subst ar_text.simps) (auto simp: case_prod_unfold map_prod_def)
  qed
qed

lemma remains_Text: "at_remains (ar_Text r) = rd_Text (ar_Remains r)"
  unfolding ar_Text_def rd_Text_def remains_Skipspace [symmetric]
  by (cases "ar_Skipspace r" rule: ar_Read_cases; subst ar_text.simps)
    (simp_all add: ar_Significant_def remains_Quoted remains_text case_prod_unfold map_prod_def)

text \<open>\<open>ID\<close>, with its \<open>began\<close>; a dash becomes an underscore behind the first rune of a name.\<close>

function ar_id :: "bool \<Rightarrow> bool \<Rightarrow> string \<Rightarrow> arg_reader \<Rightarrow> (rerr + string) \<times> arg_reader" where
  "ar_id tile began res r =
     (case (if \<not> began then ar_Significant r else ar_Read r) of
        (None, r) \<Rightarrow> (if began then Inr res else Inl RdEOF, r)
      | (Some c, r) \<Rightarrow>
          if \<not> TestRune (if began then identifierOk else identifierOkFirst) c
          then (if began then Inr res else Inl RdEOF, ar_Unread r)
          else let c = (if began \<and> tile \<and> c = CHR ''-'' then CHR ''_'' else c) in
            if is_quote c then (if began then (Inr res, ar_Unread r) else ar_Quoted c r)
            else ar_id tile True (res @ [c]) r)"
  by pat_completeness auto
termination by (relation "measure (\<lambda>(tile, began, res, r). length (ar_Remains r))") (simp_all add: ar_next_shorter [of "\<not> _", OF sym])

declare ar_id.simps [simp del]

definition ar_ID :: "bool \<Rightarrow> arg_reader \<Rightarrow> (rerr + string) \<times> arg_reader" where
  "ar_ID tile r = ar_id tile False [] r"

text \<open>\<open>TakePath\<close>.\<close>

function ar_path :: "string \<Rightarrow> arg_reader \<Rightarrow> (rerr + string) \<times> arg_reader" where
  "ar_path res r =
     (case ar_Read r of
        (None, r) \<Rightarrow> (Inl RdEOF, r)
      | (Some c, r) \<Rightarrow> if c = CHR '' '' then (Inr res, ar_Unread r) else ar_path (res @ [c]) r)"
  by pat_completeness auto
termination by (relation "measure (\<lambda>(res, r). length (ar_Remains r))") (simp_all add: ar_Read_shorter [OF sym])

declare ar_path.simps [simp del]

definition ar_TakePath :: "arg_reader \<Rightarrow> (rerr + string) \<times> arg_reader" where
  "ar_TakePath r =
     (let r = ar_Skipspace r; q = ar_Peek r in
      if q = CHR 0x22 \<or> q = CHR 0x27 then ar_Quoted q r else ar_path [] r)"

lemma word_no_quote:
  "TestRune identifierOk c \<Longrightarrow> \<not> is_quote c" "TestRune identifierOkFirst c \<Longrightarrow> \<not> is_quote c" "\<not> is_quote (CHR ''_'')"
  by (auto simp: rune_sets is_quote_def)

lemma remains_id: "at_remains (ar_id tile True res r) = map_prod (Inr \<circ> (@) res) id (id_rest tile (ar_Remains r))"
proof (induction "length (ar_Remains r)" arbitrary: res r rule: less_induct)
  case less
  show ?case
  proof (cases r rule: ar_Read_cases)
    case eof
    then show ?thesis by (subst ar_id.simps) simp
  next
    case (rune c r')
    let ?c = "if tile \<and> c = CHR ''-'' then CHR ''_'' else c"
    have IH: "at_remains (ar_id tile True (res @ [?c]) r') = map_prod (Inr \<circ> (@) (res @ [?c])) id (id_rest tile (ar_Remains r'))"
      using less [of r' "res @ [?c]"] rune(1) by simp
    show ?thesis
    proof (cases "TestRune identifierOk c")
      case True
      then have "\<not> is_quote ?c" using word_no_quote by simp
      then have "ar_id tile True res r = ar_id tile True (res @ [?c]) r'"
        using True rune(2) by (subst ar_id.simps) (simp add: Let_def)
      then show ?thesis using IH True rune(1) by (simp add: case_prod_unfold map_prod_def)
    next
      case False
      then show ?thesis using rune by (subst ar_id.simps) simp
    qed
  qed
qed

lemma remains_ID: "at_remains (ar_ID tile r) = rd_ID tile (ar_Remains r)"
  unfolding ar_ID_def rd_ID_def remains_Skipspace [symmetric]
  by (cases "ar_Skipspace r" rule: ar_Read_cases; subst ar_id.simps)
    (simp_all add: ar_Significant_def remains_id word_no_quote case_prod_unfold map_prod_def Let_def)

lemma remains_path: "at_remains (ar_path res r) = built res (path_rest (ar_Remains r))"
proof (induction res r rule: ar_path.induct)
  case (1 res r)
  show ?case
  proof (cases r rule: ar_Read_cases)
    case eof
    then show ?thesis by (subst ar_path.simps) simp
  next
    case (rune c r')
    note IH = "1.IH" [OF rune(2) [symmetric] refl]
    show ?thesis using IH rune by (cases "c = CHR '' ''"; subst ar_path.simps; simp add: built_Cons)
  qed
qed

lemma Peek_remains: "ar_Peek r = (case ar_Remains r of [] \<Rightarrow> CHR 0x00 | c # _ \<Rightarrow> c)"
  by (simp add: ar_Peek_def ar_Remains_def drop_eq_Cons_nth)

lemma remains_TakePath: "at_remains (ar_TakePath r) = TakePath (ar_Remains r)"
  by (simp add: ar_TakePath_def TakePath_def Peek_remains remains_Quoted remains_path is_quote_def Let_def split: list.splits)

section \<open>Both read the same\<close>

text \<open>
  C13. Reading from a buffer with a position, with a rune put back after each word, is reading from the text
  that remains: every word of the language (runes of a set, a rune, quoted and plain texts, names, paths)
  has the same value and the same error, and the position is left before the same rest, from every state
  of the reader.
\<close>

theorem positions_read_remains:
  "at_remains (ar_TakeAnyN d [] r) = TakeAnyN d (ar_Remains r)
    \<and> at_remains (ar_TakeIf c r) = TakeIf c (ar_Remains r)
    \<and> at_remains (ar_Take c r) = Take c (ar_Remains r)
    \<and> at_remains (ar_Quoted c r) = Quoted c (ar_Remains r)
    \<and> at_remains (ar_Text r) = rd_Text (ar_Remains r)
    \<and> at_remains (ar_ID tile r) = rd_ID tile (ar_Remains r)
    \<and> at_remains (ar_TakePath r) = TakePath (ar_Remains r)
    \<and> ar_Remains (NewArgReader args) = args
    \<and> (ar_Len r \<le> 0) = (ar_Remains r = [])"
proof -
  have "at_remains (ar_TakeAnyN d [] r) = TakeAnyN d (ar_Remains r)" using remains_TakeAnyN [of d "[]" r] by (cases "TakeAnyN d (ar_Remains r)") simp
  moreover have "ar_Remains (NewArgReader args) = args" by (simp add: ar_Remains_def NewArgReader_def)
  moreover have "(ar_Len r \<le> 0) = (ar_Remains r = [])" by (simp add: ar_Len_def ar_Remains_def)
  ultimately show ?thesis
    using remains_TakeIf remains_Take remains_Quoted remains_Text remains_ID remains_TakePath by blast
qed

end
