(* ===== verification/SessionRace.thy ===== *)
theory SessionRace
  imports Session
begin

text \<open>
  The requests of \<open>pkg/session\<close> as they interleave. The server answers each request in a goroutine of
  its own and the session has no lock around \<open>InsertJob\<close>, \<open>UpdateJob\<close> and \<open>DeleteJob\<close>: what is atomic
  is each operation on the map of jobs, on the collection and on a job. A request is the next of its
  operations, a session with requests under way steps any of them.
\<close>

section \<open>Requests in steps\<close>

text \<open>
  What a request does next: the operations of \<open>UpdateJob\<close> (and \<open>Start\<close> after it, for a launch), of
  \<open>DeleteJob\<close>, or a call on a job that a range over the jobs has found.
\<close>

datatype request =
    UpSwap nat bool
  | UpStop nat nat bool
  | UpReplace nat bool
  | UpReady nat bool
  | UpStart nat
  | DeDelete string
  | DeTake string
  | DeStop nat
  | CallJob nat job_call
  | Over "session_err option"

fun request_step :: "'d session_env \<Rightarrow> request \<Rightarrow> 'd session \<Rightarrow> (request \<times> 'd session) option" where
  "request_step E (UpSwap p launch) s =
     (let jid = sj_ID (se_heap s ! p) in
      Some (case se_Jobs s jid of None \<Rightarrow> UpReplace p launch | Some q \<Rightarrow> UpStop p q launch,
            s\<lparr>se_Jobs := (se_Jobs s)(jid \<mapsto> p)\<rparr>))"
| "request_step E (UpStop p q launch) s = Some (UpReplace p launch, call_job q ToStop s)"
| "request_step E (UpReplace p launch) s = map_option (\<lambda>s. (UpReady p launch, s)) (store_job E p s)"
| "request_step E (UpReady p launch) s = Some (if launch then UpStart p else Over None, call_job p ToReady s)"
| "request_step E (UpStart p) s = Some (Over None, call_job p ToStart s)"
| "request_step E (DeDelete jid) s = map_option (\<lambda>s. (DeTake jid, s)) (unstore_job E jid s)"
| "request_step E (DeTake jid) s =
     Some (case se_Jobs s jid of
       None \<Rightarrow> (Over (Some ErrNotFound), s)
     | Some p \<Rightarrow> (DeStop p, s\<lparr>se_Jobs := (se_Jobs s)(jid := None)\<rparr>))"
| "request_step E (DeStop p) s = Some (Over None, call_job p ToStop s)"
| "request_step E (CallJob p c) s = Some (Over None, call_job p c s)"
| "request_step E (Over e) s = None"

record 'd race =
  ra_session :: "'d session"
  ra_requests :: "request list"

fun is_over :: "request \<Rightarrow> bool" where
  "is_over (Over e) \<longleftrightarrow> True"
| "is_over q \<longleftrightarrow> False"

definition quiet :: "'d race \<Rightarrow> bool" where
  "quiet r \<longleftrightarrow> list_all is_over (ra_requests r)"

lemma quiet_iff: "quiet r \<longleftrightarrow> (\<forall>q \<in> set (ra_requests r). \<exists>e. q = Over e)"
proof -
  have "is_over q \<longleftrightarrow> (\<exists>e. q = Over e)" for q by (cases q) simp_all
  then show ?thesis by (simp add: quiet_def list_all_iff)
qed

text \<open>A request comes in, with its job made or found, or takes its next step.\<close>

datatype race_ev = RvLaunch manifest | RvUpdate manifest | RvDelete string | RvCall job_call string | RvStep nat

definition add_request :: "request \<Rightarrow> 'd race \<Rightarrow> 'd race" where
  "add_request q r = r\<lparr>ra_requests := ra_requests r @ [q]\<rparr>"

definition begin_update :: "'d session_env \<Rightarrow> manifest \<Rightarrow> bool \<Rightarrow> 'd race \<Rightarrow> 'd race" where
  "begin_update E m launch r =
     (case en_spawn E m of
        None \<Rightarrow> add_request (Over (Some ErrSpawn)) r
      | Some j \<Rightarrow> (case new_job_ptr j (ra_session r) of (p, s) \<Rightarrow> add_request (UpSwap p launch) (r\<lparr>ra_session := s\<rparr>)))"

fun race_act :: "'d session_env \<Rightarrow> race_ev \<Rightarrow> 'd race \<Rightarrow> 'd race option" where
  "race_act E (RvLaunch m) r = Some (begin_update E m True r)"
| "race_act E (RvUpdate m) r = Some (begin_update E m False r)"
| "race_act E (RvDelete jid) r = Some (add_request (DeDelete jid) r)"
| "race_act E (RvCall c jid) r = map_option (\<lambda>p. add_request (CallJob p c) r) (se_Jobs (ra_session r) jid)"
| "race_act E (RvStep i) r =
     (if i < length (ra_requests r)
      then map_option (\<lambda>(q, s). r\<lparr>ra_session := s, ra_requests := (ra_requests r)[i := q]\<rparr>)
             (request_step E (ra_requests r ! i) (ra_session r))
      else None)"

section \<open>One request at a time\<close>

text \<open>A request whose steps no other interrupts does what the functions of the session do.\<close>

fun run_request :: "'d session_env \<Rightarrow> nat \<Rightarrow> request \<Rightarrow> 'd session \<Rightarrow> (session_err option \<times> 'd session) option" where
  "run_request E n (Over e) s = Some (e, s)"
| "run_request E 0 q s = None"
| "run_request E (Suc n) q s =
     (case request_step E q s of None \<Rightarrow> None | Some (q', s') \<Rightarrow> run_request E n q' s')"

lemma run_over [simp]: "run_request E n (Over e) s = Some (e, s)"
  by (cases n) simp_all

lemma update_alone: "run_request E 4 (UpSwap p False) s = map_option (Pair None) (UpdateJob E p s)"
  by (cases "se_Jobs s (sj_ID (se_heap s ! p))")
    (simp_all add: eval_nat_numeral UpdateJob_def Let_def option.map_comp comp_def option.map_id0 split: option.splits)

lemma launch_alone:
  "run_request E 5 (UpSwap p True) s = map_option (\<lambda>s. (None, call_job p ToStart s)) (UpdateJob E p s)"
  by (cases "se_Jobs s (sj_ID (se_heap s ! p))")
    (simp_all add: eval_nat_numeral UpdateJob_def Let_def option.map_comp comp_def option.map_id0 split: option.splits)

lemma delete_alone: "run_request E 3 (DeDelete jid) s = DeleteJob E jid s"
  by (simp add: eval_nat_numeral DeleteJob_def split: option.splits)

text \<open>
  A request that is stepped alone until it is over: what the interleaved session does with it is what
  the request does.
\<close>

lemma steps_alone:
  assumes "run_request E n (ra_requests r ! i) (ra_session r) = Some (e, s')" and "i < length (ra_requests r)"
  shows "\<exists>m \<le> n. exec (race_act E) (replicate m (RvStep i)) r = Some (r\<lparr>ra_session := s', ra_requests := (ra_requests r)[i := Over e]\<rparr>)"
  using assms
proof (induction n arbitrary: r)
  case 0
  then have "ra_requests r ! i = Over e" "s' = ra_session r" by (cases "ra_requests r ! i"; simp)+
  then have "r\<lparr>ra_session := s', ra_requests := (ra_requests r)[i := Over e]\<rparr> = r"
    by (metis list_update_id race.surjective race.update_convs(1,2))
  then show ?case by simp
next
  case (Suc n)
  show ?case
  proof (cases "\<exists>e. ra_requests r ! i = Over e")
    case True
    then have "ra_requests r ! i = Over e" "s' = ra_session r" using Suc.prems(1) by auto
    then have "r\<lparr>ra_session := s', ra_requests := (ra_requests r)[i := Over e]\<rparr> = r"
      by (metis list_update_id race.surjective race.update_convs(1,2))
    then show ?thesis by (intro exI [of _ 0]) simp
  next
    case False
    then have "run_request E (Suc n) (ra_requests r ! i) (ra_session r) =
        (case request_step E (ra_requests r ! i) (ra_session r) of None \<Rightarrow> None | Some (q', s') \<Rightarrow> run_request E n q' s')"
      by (cases "ra_requests r ! i") simp_all
    then obtain q s1 where q: "request_step E (ra_requests r ! i) (ra_session r) = Some (q, s1)" "run_request E n q s1 = Some (e, s')"
      using Suc.prems(1) by (auto split: option.splits)
    let ?r = "r\<lparr>ra_session := s1, ra_requests := (ra_requests r)[i := q]\<rparr>"
    obtain m where "m \<le> n" "exec (race_act E) (replicate m (RvStep i)) ?r
        = Some (?r\<lparr>ra_session := s', ra_requests := (ra_requests ?r)[i := Over e]\<rparr>)"
      using Suc.IH [of ?r] Suc.prems(2) q(2) by auto
    then show ?thesis using q(1) Suc.prems(2) by (intro exI [of _ "Suc m"]) simp
  qed
qed

text \<open>So a request to the job service that nothing interrupts is what the service of \<open>Session\<close> answers.\<close>

lemma begin_alone:
  assumes "en_spawn E m = Some j"
    and "run_request E n (UpSwap (length (se_heap (ra_session r))) l) (snd (new_job_ptr j (ra_session r))) = Some (None, s')"
  shows "\<exists>k \<le> n. exec (race_act E) (replicate k (RvStep (length (ra_requests r)))) (begin_update E m l r)
      = Some (r\<lparr>ra_session := s', ra_requests := ra_requests r @ [Over None]\<rparr>)"
  using steps_alone [of E n "begin_update E m l r" "length (ra_requests r)" None s'] assms
  by (simp add: begin_update_def new_job_ptr_def add_request_def)

lemma service_alone:
  "job_Launch E m (ra_session r) = Some (Inr (p, s')) \<Longrightarrow>
     \<exists>k \<le> 5. exec (race_act E) (RvLaunch m # replicate k (RvStep (length (ra_requests r)))) r
       = Some (r\<lparr>ra_session := s', ra_requests := ra_requests r @ [Over None]\<rparr>)"
  "job_Update E m (ra_session r) = Some (Inr (p, s')) \<Longrightarrow>
     \<exists>k \<le> 4. exec (race_act E) (RvUpdate m # replicate k (RvStep (length (ra_requests r)))) r
       = Some (r\<lparr>ra_session := s', ra_requests := ra_requests r @ [Over None]\<rparr>)"
  "DeleteJob E jid (ra_session r) = Some (e, s') \<Longrightarrow>
     \<exists>k \<le> 3. exec (race_act E) (RvDelete jid # replicate k (RvStep (length (ra_requests r)))) r
       = Some (r\<lparr>ra_session := s', ra_requests := ra_requests r @ [Over e]\<rparr>)"
proof -
  assume a: "job_Launch E m (ra_session r) = Some (Inr (p, s'))"
  then obtain j where j: "en_spawn E m = Some j" by (cases "en_spawn E m") (simp_all add: job_Launch_def job_Update_def)
  show "\<exists>k \<le> 5. exec (race_act E) (RvLaunch m # replicate k (RvStep (length (ra_requests r)))) r
       = Some (r\<lparr>ra_session := s', ra_requests := ra_requests r @ [Over None]\<rparr>)"
    using begin_alone [OF j, of 5 r True s'] a j
    by (simp add: launch_alone job_Launch_def job_Update_def new_job_ptr_def option.map_comp comp_def) blast
next
  assume a: "job_Update E m (ra_session r) = Some (Inr (p, s'))"
  then obtain j where j: "en_spawn E m = Some j" by (cases "en_spawn E m") (simp_all add: job_Update_def)
  show "\<exists>k \<le> 4. exec (race_act E) (RvUpdate m # replicate k (RvStep (length (ra_requests r)))) r
       = Some (r\<lparr>ra_session := s', ra_requests := ra_requests r @ [Over None]\<rparr>)"
    using begin_alone [OF j, of 4 r False s'] a j by (auto simp: update_alone job_Update_def new_job_ptr_def)
next
  assume a: "DeleteJob E jid (ra_session r) = Some (e, s')"
  show "\<exists>k \<le> 3. exec (race_act E) (RvDelete jid # replicate k (RvStep (length (ra_requests r)))) r
       = Some (r\<lparr>ra_session := s', ra_requests := ra_requests r @ [Over e]\<rparr>)"
    using steps_alone [of E 3 "add_request (DeDelete jid) r" "length (ra_requests r)" e s'] a
    by (simp add: delete_alone add_request_def)
qed

section \<open>What every interleaving keeps\<close>

fun request_jobs :: "request \<Rightarrow> nat set" where
  "request_jobs (UpSwap p l) = {p}"
| "request_jobs (UpStop p q l) = {p, q}"
| "request_jobs (UpReplace p l) = {p}"
| "request_jobs (UpReady p l) = {p}"
| "request_jobs (UpStart p) = {p}"
| "request_jobs (DeStop p) = {p}"
| "request_jobs (CallJob p c) = {p}"
| "request_jobs q = {}"

text \<open>A request that will still write the entry of an ID, or take its job away; one that will still
  put a job into the map or tell it to stop.\<close>

fun owes_entry :: "'d session \<Rightarrow> string \<Rightarrow> request \<Rightarrow> bool" where
  "owes_entry s jid (UpStop p q l) \<longleftrightarrow> sj_ID (se_heap s ! p) = jid"
| "owes_entry s jid (UpReplace p l) \<longleftrightarrow> sj_ID (se_heap s ! p) = jid"
| "owes_entry s jid (DeTake k) \<longleftrightarrow> k = jid"
| "owes_entry s jid q \<longleftrightarrow> False"

fun owes_stop :: "nat \<Rightarrow> request \<Rightarrow> bool" where
  "owes_stop p (UpSwap p' l) \<longleftrightarrow> p' = p"
| "owes_stop p (UpStop p' q l) \<longleftrightarrow> q = p"
| "owes_stop p (DeStop p') \<longleftrightarrow> p' = p"
| "owes_stop p q \<longleftrightarrow> False"

text \<open>A job that was made of a manifest in \<open>G\<close>.\<close>

definition made_of :: "manifest set \<Rightarrow> 'd session_env \<Rightarrow> sjob \<Rightarrow> bool" where
  "made_of G E j \<longleftrightarrow> sj_Manifest j \<in> G \<and> mf_ID (sj_Manifest j) = sj_ID j \<and> en_spawn E (sj_Manifest j) \<noteq> None"

definition race_ok :: "manifest set \<Rightarrow> 'd session_env \<Rightarrow> 'd race \<Rightarrow> bool" where
  "race_ok G E r \<longleftrightarrow>
     clean (en_badger E) (en_col E) (se_db (ra_session r)) \<and>
     (\<forall>p < length (se_heap (ra_session r)). made_of G E (se_heap (ra_session r) ! p)) \<and>
     (\<forall>jid p. se_Jobs (ra_session r) jid = Some p \<longrightarrow>
        p < length (se_heap (ra_session r)) \<and> sj_ID (se_heap (ra_session r) ! p) = jid) \<and>
     (\<forall>q \<in> set (ra_requests r). \<forall>p \<in> request_jobs q. p < length (se_heap (ra_session r)))"

definition entries_owed :: "'d session_env \<Rightarrow> 'd race \<Rightarrow> bool" where
  "entries_owed E r \<longleftrightarrow>
     (\<forall>jid. se_Jobs (ra_session r) jid \<noteq> None \<longrightarrow>
        stored E (ra_session r) jid \<noteq> None \<or> (\<exists>q \<in> set (ra_requests r). owes_entry (ra_session r) jid q))"

definition stops_owed :: "'d race \<Rightarrow> bool" where
  "stops_owed r \<longleftrightarrow>
     (\<forall>p < length (se_heap (ra_session r)).
        se_Jobs (ra_session r) (sj_ID (se_heap (ra_session r) ! p)) = Some p
        \<or> ToStop \<in> set (sj_calls (se_heap (ra_session r) ! p))
        \<or> (\<exists>q \<in> set (ra_requests r). owes_stop p q))"

definition race_inv :: "manifest set \<Rightarrow> 'd session_env \<Rightarrow> 'd race \<Rightarrow> bool" where
  "race_inv G E r \<longleftrightarrow> race_ok G E r \<and> entries_owed E r \<and> stops_owed r"

text \<open>The requests of a list after one of them has moved on.\<close>

lemma set_update_same: "i < length xs \<Longrightarrow> y \<in> set (xs[i := y])"
  by (simp add: set_update_memI)

lemma set_update_other: "x \<in> set xs \<Longrightarrow> x \<noteq> xs ! i \<Longrightarrow> x \<in> set (xs[i := y])"
  by (metis in_set_conv_nth length_list_update nth_list_update_neq)

lemma bex_update:
  assumes "\<exists>x \<in> set xs. P x" and "i < length xs" and "P (xs ! i) \<Longrightarrow> P y"
  shows "\<exists>x \<in> set (xs[i := y]). P x"
  using assms set_update_same set_update_other by metis

text \<open>One step of one request.\<close>

lemma store_frame: "store_job E p s = Some s' \<Longrightarrow> se_Jobs s' = se_Jobs s \<and> se_heap s' = se_heap s"
  and unstore_frame: "unstore_job E jid s = Some s' \<Longrightarrow> se_Jobs s' = se_Jobs s \<and> se_heap s' = se_heap s"
  by (auto simp: store_job_def unstore_job_def)

lemma step_frame:
  assumes "request_step E q s = Some (q', s')"
  shows "length (se_heap s') = length (se_heap s)" and "sj_ID (se_heap s' ! p) = sj_ID (se_heap s ! p)"
    and "sj_Manifest (se_heap s' ! p) = sj_Manifest (se_heap s ! p)"
  using assms by (cases q; auto simp: Let_def dest: store_frame unstore_frame split: option.splits)+

lemma owes_frame:
  "request_step E q s = Some (q', s') \<Longrightarrow> owes_entry s' jid x = owes_entry s jid x"
  by (cases x) (simp_all add: step_frame(2))

lemma call_adds: "x \<in> set (sj_calls (se_heap s ! p)) \<Longrightarrow> x \<in> set (sj_calls (se_heap (call_job q c s) ! p))"
  by (cases "q < length (se_heap s)") (auto simp: call_job_def nth_list_update list_update_beyond)

lemma call_told: "p < length (se_heap s) \<Longrightarrow> c \<in> set (sj_calls (se_heap (call_job p c s) ! p))"
  by (simp add: call_job_def)

lemma step_calls:
  "request_step E q s = Some (q', s') \<Longrightarrow> x \<in> set (sj_calls (se_heap s ! p)) \<Longrightarrow> x \<in> set (sj_calls (se_heap s' ! p))"
  by (cases q) (auto simp: Let_def dest: store_frame unstore_frame intro: call_adds split: option.splits)

lemma step_jobs:
  "request_step E q s = Some (q', s') \<Longrightarrow> se_Jobs s' jid = Some p \<Longrightarrow>
   se_Jobs s jid = Some p \<or> (\<exists>l. q = UpSwap p l \<and> sj_ID (se_heap s ! p) = jid)"
  by (cases q) (auto simp: Let_def dest: store_frame unstore_frame split: option.splits if_splits)

lemma step_request_jobs:
  "request_step E q s = Some (q', s') \<Longrightarrow> p \<in> request_jobs q' \<Longrightarrow> p \<in> request_jobs q \<or> (\<exists>jid. se_Jobs s jid = Some p)"
  by (cases q) (auto simp: Let_def split: option.splits if_splits)

text \<open>The store, on the requests of a session that is all right.\<close>

definition step_ready :: "manifest set \<Rightarrow> 'd session_env \<Rightarrow> request \<Rightarrow> 'd session \<Rightarrow> bool" where
  "step_ready G E q s \<longleftrightarrow>
     clean (en_badger E) (en_col E) (se_db s) \<and> (\<forall>p \<in> request_jobs q. p < length (se_heap s) \<and> sj_Manifest (se_heap s ! p) \<in> G)"

lemma step_enabled:
  assumes "env_ok G E" and "step_ready G E q s" and "\<forall>e. q \<noteq> Over e"
  shows "\<exists>q' s'. request_step E q s = Some (q', s')"
proof -
  have "request_step E q s \<noteq> None"
  proof (cases q)
    case (UpReplace p l)
    then have "sj_Manifest (se_heap s ! p) \<in> G" using assms(2) by (simp add: step_ready_def)
    then obtain s' where "store_job E p s = Some s'" using store_job_ok assms(1,2) by (metis step_ready_def)
    then show ?thesis using UpReplace by simp
  next
    case (DeDelete jid)
    obtain s' where "unstore_job E jid s = Some s'" using unstore_job_ok assms(1,2) by (metis step_ready_def)
    then show ?thesis using DeDelete by simp
  qed (use assms(3) in \<open>simp_all add: Let_def\<close>)
  then show ?thesis by auto
qed

fun stored_after :: "'d session \<Rightarrow> request \<Rightarrow> (string \<Rightarrow> manifest payload option) \<Rightarrow> string \<Rightarrow> manifest payload option" where
  "stored_after s (UpReplace p l) m = m(sj_ID (se_heap s ! p) \<mapsto> PJson (sj_Manifest (se_heap s ! p)))"
| "stored_after s (DeDelete jid) m = m(jid := None)"
| "stored_after s q m = m"

lemma step_stored:
  assumes "env_ok G E" and "step_ready G E q s" and "request_step E q s = Some (q', s')"
  shows "clean (en_badger E) (en_col E) (se_db s') \<and> stored E s' = stored_after s q (stored E s)"
proof -
  have c: "clean (en_badger E) (en_col E) (se_db s)" using assms(2) by (simp add: step_ready_def)
  show ?thesis
  proof (cases q)
    case (UpReplace p l)
    then have G: "sj_Manifest (se_heap s ! p) \<in> G" using assms(2) by (simp add: step_ready_def)
    show ?thesis by (rule store_job_ok [OF assms(1) c G]) (use UpReplace assms(3) in simp)
  next
    case (DeDelete jid)
    show ?thesis by (rule unstore_job_ok [OF assms(1) c, of jid]) (use DeDelete assms(3) in simp)
  qed (use c assms(3) in \<open>auto simp: Let_def stored_def fun_eq_iff split: option.splits\<close>)
qed

lemma race_ok_ready:
  assumes "race_ok G E r" and "q \<in> set (ra_requests r)"
  shows "step_ready G E q (ra_session r)"
  using assms by (auto simp: race_ok_def step_ready_def made_of_def)

lemma race_stepE:
  assumes "race_act E (RvStep i) r = Some r'"
  obtains q s' where "i < length (ra_requests r)" "request_step E (ra_requests r ! i) (ra_session r) = Some (q, s')"
    "r' = r\<lparr>ra_session := s', ra_requests := (ra_requests r)[i := q]\<rparr>"
  using assms that by (auto split: if_splits)

lemma race_ok_step:
  assumes E: "env_ok G E" and r: "race_ok G E r" and i: "i < length (ra_requests r)"
    and q: "request_step E (ra_requests r ! i) (ra_session r) = Some (q, s')"
  shows "race_ok G E (r\<lparr>ra_session := s', ra_requests := (ra_requests r)[i := q]\<rparr>)"
proof -
  let ?s = "ra_session r"
  note f = step_frame [OF q]
  have m: "ra_requests r ! i \<in> set (ra_requests r)" using i by simp
  have "clean (en_badger E) (en_col E) (se_db s')" using step_stored [OF E race_ok_ready [OF r m] q] by simp
  moreover have "\<forall>p < length (se_heap s'). made_of G E (se_heap s' ! p)"
    using r by (simp add: race_ok_def made_of_def f)
  moreover have "p < length (se_heap s') \<and> sj_ID (se_heap s' ! p) = jid" if p: "se_Jobs s' jid = Some p" for jid p
  proof (cases "se_Jobs ?s jid = Some p")
    case True
    then show ?thesis using r by (simp add: race_ok_def f)
  next
    case False
    then obtain l where "ra_requests r ! i = UpSwap p l" "sj_ID (se_heap ?s ! p) = jid" using step_jobs [OF q p] by auto
    then show ?thesis using r m by (simp add: race_ok_def f)
  qed
  moreover have "p < length (se_heap s')" if x: "x \<in> set ((ra_requests r)[i := q])" and p: "p \<in> request_jobs x" for x p
  proof (cases "x \<in> set (ra_requests r)")
    case True
    then show ?thesis using r p by (auto simp: race_ok_def f)
  next
    case False
    then have "x = q" using x set_update_subset_insert [of "ra_requests r" i q] by auto
    then show ?thesis using step_request_jobs [OF q, of p] p r m unfolding race_ok_def f by blast
  qed
  ultimately show ?thesis by (simp add: race_ok_def)
qed

text \<open>Entries: a step either keeps the entry or is the one that still owes it.\<close>

lemma step_entry:
  assumes "request_step E q s = Some (q', s')" and "stored E s' = stored_after s q (stored E s)"
    and "stored E s jid \<noteq> None \<or> owes_entry s jid q" and "se_Jobs s' jid \<noteq> None"
  shows "stored E s' jid \<noteq> None \<or> owes_entry s' jid q'"
  using assms by (cases q) (auto simp: Let_def split: option.splits if_splits)

lemma step_new_entry:
  assumes "request_step E q s = Some (q', s')" and "se_Jobs s jid = None" and "se_Jobs s' jid \<noteq> None"
  shows "owes_entry s' jid q'"
  using assms by (cases q) (auto simp: Let_def dest: store_frame unstore_frame split: option.splits if_splits)

lemma entries_owed_step:
  assumes E: "env_ok G E" and r: "race_ok G E r" and e: "entries_owed E r" and i: "i < length (ra_requests r)"
    and q: "request_step E (ra_requests r ! i) (ra_session r) = Some (q, s')"
  shows "entries_owed E (r\<lparr>ra_session := s', ra_requests := (ra_requests r)[i := q]\<rparr>)"
  unfolding entries_owed_def
proof (simp, intro allI impI)
  fix jid
  assume j: "\<exists>p. se_Jobs s' jid = Some p"
  let ?s = "ra_session r"
  let ?now = "(\<exists>m. stored E s' jid = Some m) \<or> (\<exists>x \<in> set ((ra_requests r)[i := q]). owes_entry s' jid x)"
  have m: "ra_requests r ! i \<in> set (ra_requests r)" "q \<in> set ((ra_requests r)[i := q])" using i set_update_same by simp_all
  have st: "stored E s' = stored_after ?s (ra_requests r ! i) (stored E ?s)"
    using step_stored [OF E race_ok_ready [OF r m(1)] q] by simp
  show ?now
  proof (cases "se_Jobs ?s jid")
    case None
    then show ?thesis using step_new_entry [OF q None] j m(2) by auto
  next
    case (Some p)
    then consider "stored E ?s jid \<noteq> None \<or> owes_entry ?s jid (ra_requests r ! i)"
      | x where "x \<in> set (ra_requests r)" "owes_entry ?s jid x" "x \<noteq> ra_requests r ! i"
        using e unfolding entries_owed_def by (metis option.distinct(1))
    then show ?thesis
    proof cases
      case 1
      then show ?thesis using step_entry [OF q st 1] j m(2) by auto
    next
      case (2 x)
      then show ?thesis using set_update_other [OF 2(1,3)] owes_frame [OF q] by auto
    qed
  qed
qed

text \<open>Stops: a job that is taken out of the map is one that its request will tell to stop.\<close>

lemma step_stop:
  assumes "request_step E q s = Some (q', s')" and "p < length (se_heap s)"
    and "se_Jobs s (sj_ID (se_heap s ! p)) = Some p \<or> owes_stop p q"
  shows "se_Jobs s' (sj_ID (se_heap s ! p)) = Some p \<or> ToStop \<in> set (sj_calls (se_heap s' ! p)) \<or> owes_stop p q'"
  using assms by (cases q) (auto simp: Let_def call_told dest: store_frame unstore_frame split: option.splits if_splits)

lemma stops_owed_step:
  assumes e: "stops_owed r" and i: "i < length (ra_requests r)"
    and q: "request_step E (ra_requests r ! i) (ra_session r) = Some (q, s')"
  shows "stops_owed (r\<lparr>ra_session := s', ra_requests := (ra_requests r)[i := q]\<rparr>)"
  unfolding stops_owed_def
proof (simp, intro allI impI)
  fix p
  assume "p < length (se_heap s')"
  then have p: "p < length (se_heap (ra_session r))" by (simp add: step_frame(1) [OF q])
  let ?s = "ra_session r"
  let ?now = "se_Jobs s' (sj_ID (se_heap s' ! p)) = Some p \<or> ToStop \<in> set (sj_calls (se_heap s' ! p))
    \<or> (\<exists>x \<in> set ((ra_requests r)[i := q]). owes_stop p x)"
  have m: "q \<in> set ((ra_requests r)[i := q])" using i by (rule set_update_same)
  consider "se_Jobs ?s (sj_ID (se_heap ?s ! p)) = Some p \<or> owes_stop p (ra_requests r ! i)"
    | "ToStop \<in> set (sj_calls (se_heap ?s ! p))"
    | x where "x \<in> set (ra_requests r)" "owes_stop p x" "x \<noteq> ra_requests r ! i"
    using e p by (auto simp: stops_owed_def)
  then show ?now
  proof cases
    case 1
    show ?thesis using step_stop [OF q p 1] m by (auto simp: step_frame(2) [OF q])
  next
    case 2
    then show ?thesis using step_calls [OF q] by auto
  next
    case (3 x)
    then show ?thesis using set_update_other [OF 3(1,3)] by auto
  qed
qed

text \<open>A request that comes in.\<close>

lemma add_request_simps [simp]:
  "ra_session (add_request q r) = ra_session r" "ra_requests (add_request q r) = ra_requests r @ [q]"
  by (simp_all add: add_request_def)

lemma race_inv_add:
  assumes "race_inv G E r" and "\<forall>p \<in> request_jobs q. p < length (se_heap (ra_session r))"
  shows "race_inv G E (add_request q r)"
  using assms by (auto simp: race_inv_def race_ok_def entries_owed_def stops_owed_def)

lemma made_job_kept:
  assumes "race_inv G E r" and "made_of G E j"
  shows "race_inv G E (add_request (UpSwap (length (se_heap (ra_session r))) l) (r\<lparr>ra_session := (ra_session r)\<lparr>se_heap := se_heap (ra_session r) @ [j]\<rparr>\<rparr>))"
proof -
  let ?s = "ra_session r" and ?n = "length (se_heap (ra_session r))"
  let ?s' = "(ra_session r)\<lparr>se_heap := se_heap (ra_session r) @ [j]\<rparr>"
  have r: "race_ok G E r" "entries_owed E r" "stops_owed r" using assms(1) by (simp_all add: race_inv_def)
  have st: "stored E ?s' = stored E ?s" by (simp add: stored_def fun_eq_iff)
  have o: "owes_entry ?s' jid q = owes_entry ?s jid q" if "q \<in> set (ra_requests r)" for jid q
    using r(1) that by (cases q) (auto simp: race_ok_def nth_append)
  have "race_ok G E (add_request (UpSwap ?n l) (r\<lparr>ra_session := ?s'\<rparr>))"
    using r(1) assms(2) by (auto simp: race_ok_def nth_append less_Suc_eq)
  moreover have "entries_owed E (add_request (UpSwap ?n l) (r\<lparr>ra_session := ?s'\<rparr>))"
    using r(2) o by (auto simp: entries_owed_def st)
  moreover have "stops_owed (add_request (UpSwap ?n l) (r\<lparr>ra_session := ?s'\<rparr>))"
    using r(3) by (auto simp: stops_owed_def nth_append less_Suc_eq)
  ultimately show ?thesis by (simp add: race_inv_def)
qed

lemma begin_update_kept:
  assumes "env_ok G E" and "race_inv G E r" and "m \<in> G"
  shows "race_inv G E (begin_update E m l r)"
proof (cases "en_spawn E m")
  case None
  then show ?thesis using assms(2) by (simp add: begin_update_def race_inv_add)
next
  case (Some j)
  then have "made_of G E j" using assms(1,3) by (auto simp: env_ok_def made_of_def)
  then show ?thesis using made_job_kept [OF assms(2), of j l] Some by (simp add: begin_update_def new_job_ptr_def)
qed

fun ev_manifests :: "race_ev \<Rightarrow> manifest set" where
  "ev_manifests (RvLaunch m) = {m}"
| "ev_manifests (RvUpdate m) = {m}"
| "ev_manifests ev = {}"

lemma race_inv_step:
  assumes E: "env_ok G E" and g: "ev_manifests ev \<subseteq> G" and a: "race_act E ev r = Some r'" and r: "race_inv G E r"
  shows "race_inv G E r'"
proof (cases ev)
  case (RvCall c jid)
  then obtain p where p: "se_Jobs (ra_session r) jid = Some p" "r' = add_request (CallJob p c) r" using a by auto
  have "p < length (se_heap (ra_session r))" using r p(1) by (auto simp: race_inv_def race_ok_def)
  then show ?thesis using race_inv_add [OF r] p(2) by simp
next
  case (RvStep i)
  obtain q s' where q: "i < length (ra_requests r)" "request_step E (ra_requests r ! i) (ra_session r) = Some (q, s')"
      "r' = r\<lparr>ra_session := s', ra_requests := (ra_requests r)[i := q]\<rparr>"
    using race_stepE a RvStep by blast
  show ?thesis
    using r q race_ok_step [OF E _ q(1,2)] entries_owed_step [OF E _ _ q(1,2)] stops_owed_step [OF _ q(1,2)]
    by (simp add: race_inv_def)
qed (use a g begin_update_kept [OF E r] race_inv_add [OF r] in auto)

text \<open>The session as a guarded system, for an environment that works on the manifests in \<open>G\<close>.\<close>

definition env_act :: "manifest set \<Rightarrow> 'd session_env \<Rightarrow> ('d session_env \<Rightarrow> race_ev \<Rightarrow> 'd race \<Rightarrow> 'd race option)
    \<Rightarrow> race_ev \<Rightarrow> 'd race \<Rightarrow> 'd race option" where
  "env_act G E act ev r = (if env_ok G E then act E ev r else None)"

lemma env_act_ok [simp]: "env_ok G E \<Longrightarrow> env_act G E act = act E"
  by (simp add: env_act_def fun_eq_iff)

interpretation races: guarded_system "env_act G E race_act" "\<lambda>ev. ev_manifests ev \<subseteq> G" "race_inv G E" for G E
  by unfold_locales (auto simp: env_act_def split: if_splits intro: race_inv_step)

text \<open>A session in which nothing is under way: every job in it is stored and was made of a manifest in \<open>G\<close>.\<close>

definition settled :: "manifest set \<Rightarrow> 'd session_env \<Rightarrow> 'd session \<Rightarrow> bool" where
  "settled G E s \<longleftrightarrow>
     clean (en_badger E) (en_col E) (se_db s) \<and>
     (\<forall>p < length (se_heap s). made_of G E (se_heap s ! p)
        \<and> (se_Jobs s (sj_ID (se_heap s ! p)) = Some p \<or> ToStop \<in> set (sj_calls (se_heap s ! p)))) \<and>
     (\<forall>jid p. se_Jobs s jid = Some p \<longrightarrow> p < length (se_heap s) \<and> sj_ID (se_heap s ! p) = jid \<and> stored E s jid \<noteq> None)"

lemma settled_race: "settled G E s \<Longrightarrow> race_inv G E \<lparr>ra_session = s, ra_requests = []\<rparr>"
  by (auto simp: settled_def race_inv_def race_ok_def entries_owed_def stops_owed_def)

lemma quiet_settled:
  assumes "race_inv G E r" and "quiet r"
  shows "settled G E (ra_session r)"
proof -
  have "\<not> owes_entry (ra_session r) jid q" "\<not> owes_stop p q" if "q \<in> set (ra_requests r)" for jid p q
    using assms(2) that by (auto simp: quiet_iff)
  then show ?thesis
    using assms(1) unfolding race_inv_def race_ok_def entries_owed_def stops_owed_def settled_def by blast
qed

text \<open>Every request gets to its end: each of its steps is enabled, and it has at most five.\<close>

fun steps_left :: "request \<Rightarrow> nat" where
  "steps_left (UpSwap p l) = 5"
| "steps_left (UpStop p q l) = 4"
| "steps_left (UpReplace p l) = 3"
| "steps_left (UpReady p l) = 2"
| "steps_left (UpStart p) = 1"
| "steps_left (DeDelete jid) = 3"
| "steps_left (DeTake jid) = 2"
| "steps_left (DeStop p) = 1"
| "steps_left (CallJob p c) = 1"
| "steps_left (Over e) = 0"

definition work_left :: "'d race \<Rightarrow> nat" where
  "work_left r = sum_list (map steps_left (ra_requests r))"

lemma step_progress: "request_step E q s = Some (q', s') \<Longrightarrow> steps_left q' < steps_left q"
  by (cases q) (auto simp: Let_def split: option.splits if_splits)

lemma sum_list_update_less:
  "i < length xs \<Longrightarrow> f y < (f (xs ! i) :: nat) \<Longrightarrow> sum_list (map f (xs[i := y])) < sum_list (map f xs)"
proof (induction xs arbitrary: i)
  case (Cons x xs)
  then show ?case by (cases i) auto
qed simp

lemma step_work: "race_act E (RvStep i) r = Some r' \<Longrightarrow> work_left r' < work_left r"
  by (erule race_stepE) (simp add: work_left_def sum_list_update_less step_progress)

lemma work_bounded: "exec (race_act E) (map RvStep is) r = Some r' \<Longrightarrow> length is + work_left r' \<le> work_left r"
proof (induction "is" arbitrary: r)
  case (Cons i "is")
  then obtain r1 where r1: "race_act E (RvStep i) r = Some r1" "exec (race_act E) (map RvStep is) r1 = Some r'"
    by (auto split: option.splits simp del: race_act.simps)
  show ?case using step_work [OF r1(1)] Cons.IH [OF r1(2)] by simp
qed simp

lemma not_quiet_step:
  assumes "env_ok G E" and "race_inv G E r" and "\<not> quiet r"
  shows "\<exists>i r'. race_act E (RvStep i) r = Some r'"
proof -
  obtain q where q: "q \<in> set (ra_requests r)" "\<forall>e. q \<noteq> Over e" using assms(3) by (auto simp: quiet_iff)
  then obtain i where i: "i < length (ra_requests r)" "ra_requests r ! i = q" by (metis in_set_conv_nth)
  have "race_ok G E r" using assms(2) by (simp add: race_inv_def)
  from step_enabled [OF assms(1) race_ok_ready [OF this q(1)] q(2)]
  obtain q' s' where "request_step E q (ra_session r) = Some (q', s')" by blast
  then show ?thesis using i by (intro exI [of _ i]) simp
qed

lemma race_finishes:
  assumes E: "env_ok G E"
  shows "race_inv G E r \<Longrightarrow> \<exists>is r'. exec (race_act E) (map RvStep is) r = Some r' \<and> quiet r'"
proof (induction "work_left r" arbitrary: r rule: less_induct)
  case less
  show ?case
  proof (cases "quiet r")
    case True
    then show ?thesis by (intro exI [of _ "[]"]) simp
  next
    case False
    then obtain i r1 where r1: "race_act E (RvStep i) r = Some r1" using not_quiet_step [OF E less.prems] by blast
    then have "race_inv G E r1" using race_inv_step [OF E _ r1 less.prems] by simp
    then obtain "is" r' where "exec (race_act E) (map RvStep is) r1 = Some r'" "quiet r'"
      using less.hyps [OF step_work [OF r1]] by blast
    then show ?thesis using r1 by (intro exI [of _ "i # is"] exI [of _ r']) (simp del: race_act.simps)
  qed
qed

section \<open>However the requests interleave\<close>


section \<open>Requests that do not overlap on a job\<close>

text \<open>
  The job a request is about. When no request comes in for a job that another is still about, each of
  them finds the job as it should be, whatever the requests for other jobs do in between.
\<close>

fun request_id :: "'d session \<Rightarrow> request \<Rightarrow> string option" where
  "request_id s (UpSwap p l) = Some (sj_ID (se_heap s ! p))"
| "request_id s (UpStop p q l) = Some (sj_ID (se_heap s ! p))"
| "request_id s (UpReplace p l) = Some (sj_ID (se_heap s ! p))"
| "request_id s (UpReady p l) = Some (sj_ID (se_heap s ! p))"
| "request_id s (UpStart p) = Some (sj_ID (se_heap s ! p))"
| "request_id s (DeDelete jid) = Some jid"
| "request_id s (DeTake jid) = Some jid"
| "request_id s (DeStop p) = Some (sj_ID (se_heap s ! p))"
| "request_id s (CallJob p c) = None"
| "request_id s (Over e) = None"

fun ev_id :: "race_ev \<Rightarrow> string option" where
  "ev_id (RvLaunch m) = Some (mf_ID m)"
| "ev_id (RvUpdate m) = Some (mf_ID m)"
| "ev_id (RvDelete jid) = Some jid"
| "ev_id ev = None"

definition busy :: "'d race \<Rightarrow> string \<Rightarrow> bool" where
  "busy r jid \<longleftrightarrow> (\<exists>q \<in> set (ra_requests r). request_id (ra_session r) q = Some jid)"

definition apart_act :: "'d session_env \<Rightarrow> race_ev \<Rightarrow> 'd race \<Rightarrow> 'd race option" where
  "apart_act E ev r = (if case ev_id ev of None \<Rightarrow> False | Some jid \<Rightarrow> busy r jid then None else race_act E ev r)"

definition entry_ok :: "'d session_env \<Rightarrow> 'd session \<Rightarrow> string \<Rightarrow> bool" where
  "entry_ok E s jid \<longleftrightarrow> (case se_Jobs s jid of None \<Rightarrow> idle_entry E s jid | Some p \<Rightarrow> live_job E s jid p)"

lemma consistent_entries: "consistent E s \<longleftrightarrow> clean (en_badger E) (en_col E) (se_db s) \<and> (\<forall>jid. entry_ok E s jid)"
  by (simp add: consistent_def entry_ok_def)

text \<open>What a request has established of its job before its next step.\<close>

fun phase_ok :: "'d session_env \<Rightarrow> 'd session \<Rightarrow> request \<Rightarrow> bool" where
  "phase_ok E s (UpStop p q l) \<longleftrightarrow> se_Jobs s (sj_ID (se_heap s ! p)) = Some p"
| "phase_ok E s (UpReplace p l) \<longleftrightarrow> se_Jobs s (sj_ID (se_heap s ! p)) = Some p"
| "phase_ok E s (UpReady p l) \<longleftrightarrow> entry_ok E s (sj_ID (se_heap s ! p))"
| "phase_ok E s (UpStart p) \<longleftrightarrow> entry_ok E s (sj_ID (se_heap s ! p))"
| "phase_ok E s (DeTake jid) \<longleftrightarrow> stored E s jid = None"
| "phase_ok E s (DeStop p) \<longleftrightarrow> entry_ok E s (sj_ID (se_heap s ! p))"
| "phase_ok E s q \<longleftrightarrow> True"

definition one_each :: "'d race \<Rightarrow> bool" where
  "one_each r \<longleftrightarrow> (\<forall>i < length (ra_requests r). \<forall>j < length (ra_requests r).
     request_id (ra_session r) (ra_requests r ! i) \<noteq> None \<and>
     request_id (ra_session r) (ra_requests r ! i) = request_id (ra_session r) (ra_requests r ! j) \<longrightarrow> i = j)"

definition apart_inv :: "manifest set \<Rightarrow> 'd session_env \<Rightarrow> 'd race \<Rightarrow> bool" where
  "apart_inv G E r \<longleftrightarrow> race_ok G E r \<and> one_each r \<and>
     (\<forall>q \<in> set (ra_requests r). phase_ok E (ra_session r) q) \<and>
     (\<forall>jid. \<not> busy r jid \<longrightarrow> entry_ok E (ra_session r) jid)"

text \<open>A step leaves the other jobs alone, and is about the same job or about none.\<close>

lemma step_others:
  assumes "request_step E q s = Some (q', s')" and "request_id s q \<noteq> Some jid"
    and "stored E s' = stored_after s q (stored E s)"
  shows "se_Jobs s' jid = se_Jobs s jid" and "stored E s' jid = stored E s jid"
  using assms by (cases q; auto simp: Let_def dest: store_frame unstore_frame split: option.splits)+

lemma entry_others:
  assumes "request_step E q s = Some (q', s')" and "request_id s q \<noteq> Some jid"
    and "stored E s' = stored_after s q (stored E s)"
  shows "entry_ok E s' jid = entry_ok E s jid"
  using step_others [OF assms] step_frame [OF assms(1)]
  by (cases "se_Jobs s jid") (simp_all add: entry_ok_def idle_entry_def live_job_def)

lemma id_frame:
  "request_step E q s = Some (q', s') \<Longrightarrow> request_id s' x = request_id s x"
  by (cases x) (simp_all add: step_frame(2))

lemma phase_others:
  assumes "request_step E q s = Some (q', s')" and "request_id s x \<noteq> request_id s q"
    and "stored E s' = stored_after s q (stored E s)" and "phase_ok E s x"
  shows "phase_ok E s' x"
proof (cases "request_id s x")
  case None
  then show ?thesis by (cases x) simp_all
next
  case (Some jid)
  then have "request_id s q \<noteq> Some jid" using assms(2) by simp
  then show ?thesis
    using assms(4) Some step_others [OF assms(1) _ assms(3)] entry_others [OF assms(1) _ assms(3)] step_frame [OF assms(1)]
    by (cases x) auto
qed

lemma step_id:
  assumes "request_step E q s = Some (q', s')" and "\<forall>jid p. se_Jobs s jid = Some p \<longrightarrow> sj_ID (se_heap s ! p) = jid"
  shows "request_id s' q' = request_id s q \<or> request_id s' q' = None"
  using assms by (cases q) (auto simp: Let_def dest: store_frame unstore_frame split: option.splits if_splits)

lemma entry_ok_call [simp]: "entry_ok E (call_job q c s) jid = entry_ok E s jid"
  by (simp add: entry_ok_def cong: option.case_cong)

text \<open>What a request establishes by its step, and what it leaves when it is over.\<close>

lemma step_phase:
  assumes q: "request_step E q s = Some (q', s')" and p: "phase_ok E s q"
    and m: "\<forall>p \<in> request_jobs q. p < length (se_heap s) \<and> made_of G E (se_heap s ! p)"
    and j: "\<forall>jid p. se_Jobs s jid = Some p \<longrightarrow> sj_ID (se_heap s ! p) = jid"
    and st: "stored E s' = stored_after s q (stored E s)"
  shows "phase_ok E s' q'" and "request_id s q = Some jid \<Longrightarrow> request_id s' q' = None \<Longrightarrow> entry_ok E s' jid"
proof -
  have "phase_ok E s' q' \<and> (request_id s q = Some jid \<longrightarrow> request_id s' q' = None \<longrightarrow> entry_ok E s' jid)"
  proof (cases q)
    case (UpSwap p l)
    then show ?thesis using q by (cases "se_Jobs s (sj_ID (se_heap s ! p))") (auto simp: Let_def)
  next
    case (UpStop p q2 l)
    then show ?thesis using q p by auto
  next
    case (UpReplace p l)
    then have s': "store_job E p s = Some s'" "q' = UpReady p l" using q by auto
    have "live_job E s' (sj_ID (se_heap s ! p)) p"
      using m UpReplace st store_frame [OF s'(1)] by (simp add: live_job_def made_of_def)
    then show ?thesis using UpReplace s' p store_frame [OF s'(1)] by (simp add: entry_ok_def)
  next
    case (UpReady p l)
    then show ?thesis using q p by (cases l) auto
  next
    case (UpStart p)
    then show ?thesis using q p by auto
  next
    case (DeDelete k)
    then show ?thesis using q st by auto
  next
    case (DeTake k)
    have e: "stored E s k = None" using DeTake p by simp
    show ?thesis
    proof (cases "se_Jobs s k")
      case None
      then have "s' = s" "q' = Over (Some ErrNotFound)" using q DeTake by auto
      then show ?thesis using None e DeTake by (auto simp: entry_ok_def idle_entry_def)
    next
      case (Some p)
      then have s': "s' = s\<lparr>se_Jobs := (se_Jobs s)(k := None)\<rparr>" "q' = DeStop p" "sj_ID (se_heap s ! p) = k"
        using q DeTake j by auto
      have "stored E s' k = None" using st DeTake e by simp
      then show ?thesis using s' by (simp add: entry_ok_def idle_entry_def)
    qed
  next
    case (DeStop p)
    then show ?thesis using q p by auto
  next
    case (CallJob p c)
    then show ?thesis using q by auto
  qed (use q in simp)
  then show "phase_ok E s' q'" and "request_id s q = Some jid \<Longrightarrow> request_id s' q' = None \<Longrightarrow> entry_ok E s' jid" by auto
qed

lemma one_each_step:
  assumes o: "one_each r" and i: "i < length (ra_requests r)"
    and q: "request_step E (ra_requests r ! i) (ra_session r) = Some (q, s')"
    and d: "request_id s' q = request_id (ra_session r) (ra_requests r ! i) \<or> request_id s' q = None"
  shows "one_each (r\<lparr>ra_session := s', ra_requests := (ra_requests r)[i := q]\<rparr>)"
proof -
  have e: "request_id s' ((ra_requests r)[i := q] ! k) = request_id (ra_session r) (ra_requests r ! k)
      \<or> request_id s' ((ra_requests r)[i := q] ! k) = None" if "k < length (ra_requests r)" for k
    using d that by (cases "k = i") (simp_all add: id_frame [OF q])
  show ?thesis
    unfolding one_each_def
  proof (simp, intro allI impI, elim conjE exE)
    fix a b jid
    assume k: "a < length (ra_requests r)" "b < length (ra_requests r)"
      and h: "request_id s' ((ra_requests r)[i := q] ! a) = request_id s' ((ra_requests r)[i := q] ! b)"
        "request_id s' ((ra_requests r)[i := q] ! a) = Some jid"
    have "request_id (ra_session r) (ra_requests r ! a) = Some jid" "request_id (ra_session r) (ra_requests r ! b) = Some jid"
      using e [OF k(1)] e [OF k(2)] h by auto
    then show "a = b" using o k by (simp add: one_each_def)
  qed
qed

lemma apart_inv_step:
  assumes E: "env_ok G E" and v: "apart_inv G E r" and i: "i < length (ra_requests r)"
    and q: "request_step E (ra_requests r ! i) (ra_session r) = Some (q, s')"
  shows "apart_inv G E (r\<lparr>ra_session := s', ra_requests := (ra_requests r)[i := q]\<rparr>)"
proof -
  let ?s = "ra_session r" and ?x = "ra_requests r ! i"
  let ?r = "r\<lparr>ra_session := s', ra_requests := (ra_requests r)[i := q]\<rparr>"
  have r: "race_ok G E r" and o: "one_each r" and ph: "\<forall>q \<in> set (ra_requests r). phase_ok E ?s q"
    and en: "\<And>jid. \<not> busy r jid \<Longrightarrow> entry_ok E ?s jid" using v by (simp_all add: apart_inv_def)
  have x: "?x \<in> set (ra_requests r)" using i by simp
  have st: "stored E s' = stored_after ?s ?x (stored E ?s)" using step_stored [OF E race_ok_ready [OF r x] q] by simp
  have m: "\<forall>p \<in> request_jobs ?x. p < length (se_heap ?s) \<and> made_of G E (se_heap ?s ! p)"
    using r x by (auto simp: race_ok_def)
  have j: "\<forall>jid p. se_Jobs ?s jid = Some p \<longrightarrow> sj_ID (se_heap ?s ! p) = jid" using r by (simp add: race_ok_def)
  note sp = step_phase [OF q bspec [OF ph x] m j st]
  note d = step_id [OF q j]
  have idx: "k = i" if "k < length (ra_requests r)" "request_id ?s (ra_requests r ! k) = request_id ?s ?x"
      "request_id ?s ?x \<noteq> None" for k
    using o that i unfolding one_each_def by metis
  have "phase_ok E s' y" if y: "y \<in> set ((ra_requests r)[i := q])" for y
  proof -
    obtain k where k: "k < length (ra_requests r)" "y = (ra_requests r)[i := q] ! k" using y by (auto simp: in_set_conv_nth)
    show ?thesis
    proof (cases "k = i")
      case True
      then show ?thesis using sp(1) k by simp
    next
      case False
      then have y': "y = ra_requests r ! k" "y \<in> set (ra_requests r)" using k by simp_all
      show ?thesis
      proof (cases "request_id ?s y = None")
        case True
        then show ?thesis by (cases y) simp_all
      next
        case f: False
        then have "request_id ?s y \<noteq> request_id ?s ?x" using idx [OF k(1)] y'(1) False by auto
        then show ?thesis using phase_others [OF q _ st] ph y'(2) by blast
      qed
    qed
  qed
  moreover have "entry_ok E s' jid" if b: "\<not> busy ?r jid" for jid
  proof (cases "request_id ?s ?x = Some jid")
    case True
    have "request_id s' q \<noteq> Some jid" using b set_update_same [OF i] by (auto simp: busy_def)
    then show ?thesis using sp(2) [OF True] d True by auto
  next
    case False
    have "\<not> busy r jid"
    proof
      assume "busy r jid"
      then obtain y where "y \<in> set (ra_requests r)" "request_id ?s y = Some jid" by (auto simp: busy_def)
      moreover then have "y \<noteq> ?x" using False by auto
      ultimately have "busy ?r jid" using set_update_other [of y "ra_requests r" i q] by (auto simp: busy_def id_frame [OF q])
      then show False using b by simp
    qed
    then show ?thesis using en entry_others [OF q False st] by simp
  qed
  moreover have "one_each ?r" by (rule one_each_step [OF o i q d])
  moreover have "race_ok G E ?r" by (rule race_ok_step [OF E r i q])
  ultimately show ?thesis by (simp add: apart_inv_def)
qed

lemma apart_inv_add:
  assumes v: "apart_inv G E r" and p: "\<forall>p \<in> request_jobs q. p < length (se_heap (ra_session r))"
    and f: "\<forall>jid. request_id (ra_session r) q = Some jid \<longrightarrow> \<not> busy r jid" and ph: "phase_ok E (ra_session r) q"
  shows "apart_inv G E (add_request q r)"
proof -
  have "one_each (add_request q r)"
    unfolding one_each_def
  proof (simp, intro allI impI, elim conjE exE)
    fix a b jid
    let ?qs = "ra_requests r @ [q]"
    assume k: "a < Suc (length (ra_requests r))" "b < Suc (length (ra_requests r))"
      and h: "request_id (ra_session r) (?qs ! a) = request_id (ra_session r) (?qs ! b)"
        "request_id (ra_session r) (?qs ! a) = Some jid"
    have n: "request_id (ra_session r) (ra_requests r ! c) \<noteq> Some jid"
      if "c < length (ra_requests r)" "request_id (ra_session r) q = Some jid" for c
      using f that by (auto simp: busy_def)
    consider "a < length (ra_requests r)" "b < length (ra_requests r)" | "a = length (ra_requests r)" "b < length (ra_requests r)"
      | "a < length (ra_requests r)" "b = length (ra_requests r)" | "a = b"
      using k by linarith
    then show "a = b"
    proof cases
      case 1
      then show ?thesis using v h by (simp add: apart_inv_def one_each_def nth_append)
    qed (use n h in \<open>auto simp: nth_append\<close>)
  qed
  then show ?thesis using v p ph by (auto simp: apart_inv_def race_ok_def busy_def)
qed

text \<open>A job that is made, but is not in the map yet, changes nothing for the others.\<close>

lemma apart_inv_made:
  assumes v: "apart_inv G E r" and j: "made_of G E j"
  shows "apart_inv G E (r\<lparr>ra_session := (ra_session r)\<lparr>se_heap := se_heap (ra_session r) @ [j]\<rparr>\<rparr>)"
    and "request_id ((ra_session r)\<lparr>se_heap := se_heap (ra_session r) @ [j]\<rparr>) x = Some jid \<Longrightarrow> x \<in> set (ra_requests r)
      \<Longrightarrow> request_id (ra_session r) x = Some jid"
proof -
  let ?s = "ra_session r"
  let ?s' = "?s\<lparr>se_heap := se_heap ?s @ [j]\<rparr>"
  have r: "race_ok G E r" using v by (simp add: apart_inv_def)
  have h: "(se_heap ?s @ [j]) ! p = se_heap ?s ! p" if "p < length (se_heap ?s)" for p using that by (simp add: nth_append)
  have st: "stored E ?s' = stored E ?s" by (simp add: stored_def fun_eq_iff)
  have g: "\<forall>p \<in> request_jobs x. p < length (se_heap ?s)" if "x \<in> set (ra_requests r)" for x using r that by (simp add: race_ok_def)
  have rid: "request_id ?s' x = request_id ?s x" if "x \<in> set (ra_requests r)" for x
    using g [OF that] by (cases x) (simp_all add: h)
  then show "request_id ?s' x = Some jid \<Longrightarrow> x \<in> set (ra_requests r) \<Longrightarrow> request_id ?s x = Some jid" by simp
  have en: "entry_ok E ?s' jid" if "entry_ok E ?s jid" for jid
    using that by (cases "se_Jobs ?s jid") (simp_all add: entry_ok_def idle_entry_def live_job_def st h)
  have ph: "phase_ok E ?s' x" if "x \<in> set (ra_requests r)" "phase_ok E ?s x" for x
    using g [OF that(1)] that(2) by (cases x) (simp_all add: h st en)
  have "one_each (r\<lparr>ra_session := ?s'\<rparr>)" using v by (auto simp: apart_inv_def one_each_def rid)
  moreover have "race_ok G E (r\<lparr>ra_session := ?s'\<rparr>)"
    using r j by (auto simp: race_ok_def nth_append less_Suc_eq)
  moreover have "busy (r\<lparr>ra_session := ?s'\<rparr>) jid = busy r jid" for jid by (auto simp: busy_def rid)
  ultimately show "apart_inv G E (r\<lparr>ra_session := ?s'\<rparr>)" using v ph en by (auto simp: apart_inv_def)
qed

lemma apart_inv_begin:
  assumes E: "env_ok G E" and v: "apart_inv G E r" and m: "m \<in> G" and b: "\<not> busy r (mf_ID m)"
  shows "apart_inv G E (begin_update E m l r)"
proof (cases "en_spawn E m")
  case None
  then show ?thesis using apart_inv_add [OF v, of "Over (Some ErrSpawn)"] by (simp add: begin_update_def)
next
  case (Some j)
  then have j: "made_of G E j" "sj_ID j = mf_ID m" using E m by (auto simp: env_ok_def made_of_def)
  let ?s = "ra_session r"
  let ?r = "r\<lparr>ra_session := ?s\<lparr>se_heap := se_heap ?s @ [j]\<rparr>\<rparr>"
  note made = apart_inv_made [OF v j(1)]
  have "\<not> busy ?r (mf_ID m)" using b made(2) by (auto simp: busy_def)
  then show ?thesis
    using apart_inv_add [OF made(1), of "UpSwap (length (se_heap ?s)) l"] Some j(2) by (simp add: begin_update_def new_job_ptr_def)
qed

lemma apart_keeps:
  assumes E: "env_ok G E" and g: "ev_manifests ev \<subseteq> G" and a: "apart_act E ev r = Some r'" and v: "apart_inv G E r"
  shows "apart_inv G E r'"
proof -
  have a: "race_act E ev r = Some r'" and b: "\<And>jid. ev_id ev = Some jid \<Longrightarrow> \<not> busy r jid"
    using a by (auto simp: apart_act_def split: if_splits option.splits)
  show ?thesis
  proof (cases ev)
    case (RvCall c jid)
    then obtain p where p: "se_Jobs (ra_session r) jid = Some p" "r' = add_request (CallJob p c) r" using a by auto
    have "race_ok G E r" using v by (simp add: apart_inv_def)
    then have "p < length (se_heap (ra_session r))" using p(1) by (simp add: race_ok_def)
    then show ?thesis using apart_inv_add [OF v, of "CallJob p c"] p(2) by simp
  next
    case (RvStep i)
    obtain q s' where q: "i < length (ra_requests r)" "request_step E (ra_requests r ! i) (ra_session r) = Some (q, s')"
        "r' = r\<lparr>ra_session := s', ra_requests := (ra_requests r)[i := q]\<rparr>"
      using race_stepE a RvStep by blast
    show ?thesis using apart_inv_step [OF E v q(1,2)] q(3) by simp
  next
    case (RvDelete jid)
    then show ?thesis using a b apart_inv_add [OF v, of "DeDelete jid"] by simp
  next
    case (RvLaunch m)
    then show ?thesis using a b g apart_inv_begin [OF E v, of m] by auto
  next
    case (RvUpdate m)
    then show ?thesis using a b g apart_inv_begin [OF E v, of m] by auto
  qed
qed

interpretation apart: guarded_system "env_act G E apart_act" "\<lambda>ev. ev_manifests ev \<subseteq> G" "apart_inv G E" for G E
  by unfold_locales (auto simp: env_act_def split: if_splits intro: apart_keeps)

lemma consistent_race: "settled G E s \<Longrightarrow> consistent E s \<Longrightarrow> apart_inv G E \<lparr>ra_session = s, ra_requests = []\<rparr>"
  by (auto simp: settled_def apart_inv_def race_ok_def one_each_def consistent_entries)

text \<open>
  C10. As long as no two requests for the same job overlap, a job that no request is under way for is as a
  single request leaves it: it runs with the manifest that is stored under its ID, or neither runs nor
  is stored; and when nothing is under way the whole session is consistent.
\<close>

theorem apart_requests_consistent:
  assumes "env_ok G E" and "settled G E s" and "consistent E s" and "\<forall>ev \<in> set evs. ev_manifests ev \<subseteq> G"
    and "exec (apart_act E) evs \<lparr>ra_session = s, ra_requests = []\<rparr> = Some r"
  shows "(\<forall>jid. \<not> busy r jid \<longrightarrow> entry_ok E (ra_session r) jid) \<and> (quiet r \<longrightarrow> consistent E (ra_session r))"
proof -
  have v: "apart_inv G E r"
    using apart.exec_keeps [of G E evs _ r, OF _ assms(4) consistent_race [OF assms(2,3)]] assms(1,5) by simp
  have "\<not> busy r jid" if "quiet r" for jid
  proof
    assume "busy r jid"
    then obtain q where "q \<in> set (ra_requests r)" "request_id (ra_session r) q = Some jid" by (auto simp: busy_def)
    moreover then obtain e where "q = Over e" using \<open>quiet r\<close> by (auto simp: quiet_iff)
    ultimately show False by simp
  qed
  then show ?thesis using v by (simp add: apart_inv_def race_ok_def consistent_entries)
qed

section \<open>Requests that overlap\<close>

text \<open>
  An environment that keeps manifests apart by the kind of their main task, and what it makes of a
  session after some events.
\<close>

definition kind_manifest :: "string \<Rightarrow> manifest" where
  "kind_manifest k = sample_manifest\<lparr>mf_MainKind := k\<rparr>"

definition kind_env :: "(string \<times> string) list session_env" where
  "kind_env = sample_session_env\<lparr>en_col := (en_col sample_session_env)
     \<lparr>cl_enc_v := (\<lambda>m. Some (mf_MainKind m)), cl_dec_v := (\<lambda>t. Some (kind_manifest (butlast t)))\<rparr>\<rparr>"

definition kind_manifests :: "manifest set" where
  "kind_manifests = {m. m = kind_manifest (mf_MainKind m)}"

lemma kind_env_ok: "env_ok kind_manifests kind_env"
  by (simp add: env_ok_def kind_env_def sample_session_env_def list_badger_laws codec_laws_def col_Open_def kind_manifests_def)

definition race_from_empty :: "race_ev list \<Rightarrow> (string \<times> string) list race" where
  "race_from_empty evs = the (exec (race_act kind_env) evs \<lparr>ra_session = empty_session [], ra_requests = []\<rparr>)"

definition race_shows :: "(string \<times> string) list race \<Rightarrow> bool \<times> nat option \<times> string option \<times> job_call list list" where
  "race_shows r =
     (quiet r, se_Jobs (ra_session r) ''web'',
      (case stored kind_env (ra_session r) ''web'' of Some (PJson m) \<Rightarrow> Some (mf_MainKind m) | _ \<Rightarrow> None),
      map sj_calls (se_heap (ra_session r)))"

text \<open>
  A delete between the steps of a launch: the job is not in the session any more, but it was started
  after it was told to stop, and its manifest is stored, so that it is back after a restart.
\<close>

lemma delete_during_launch:
  "race_shows (race_from_empty ([RvLaunch (kind_manifest ''run''), RvStep 0, RvDelete ''web''] @ replicate 3 (RvStep 1) @ replicate 3 (RvStep 0)))
   = (True, None, Some ''run'', [[ToStop, ToReady, ToStart]])"
  by code_simp

text \<open>Two updates of one job: what runs is the later one, what is stored the earlier.\<close>

lemma overlapping_updates:
  "race_shows (race_from_empty ([RvUpdate (kind_manifest ''run''), RvStep 0, RvUpdate (kind_manifest ''fetch'')]
      @ replicate 4 (RvStep 1) @ replicate 2 (RvStep 0)))
   = (True, Some 1, Some ''run'', [[ToStop, ToReady], [ToReady]])"
  by code_simp

text \<open>Two launches of one job: the displaced one is started after it was told to stop, out of reach.\<close>

lemma overlapping_launches:
  "race_shows (race_from_empty ([RvLaunch (kind_manifest ''run''), RvStep 0, RvLaunch (kind_manifest ''fetch'')]
      @ replicate 5 (RvStep 1) @ replicate 3 (RvStep 0)))
   = (True, Some 1, Some ''run'', [[ToStop, ToReady, ToStart], [ToReady, ToStart]])"
  by code_simp

text \<open>A start that finds the job between its insertion and \<open>Ready\<close> starts it without a context.\<close>

lemma start_before_ready:
  "race_shows (race_from_empty [RvUpdate (kind_manifest ''run''), RvStep 0, RvCall ToStart ''web'', RvStep 1, RvStep 0, RvStep 0])
   = (True, Some 0, Some ''run'', [[ToStart, ToReady]])"
  by code_simp

text \<open>A restart that has found the job before it was deleted starts it again.\<close>

lemma restart_after_delete:
  "race_shows (race_from_empty ([RvUpdate (kind_manifest ''run'')] @ replicate 3 (RvStep 0) @ [RvCall ToRestart ''web'', RvDelete ''web'']
      @ replicate 3 (RvStep 2) @ [RvStep 1]))
   = (True, None, None, [[ToReady, ToStop, ToRestart]])"
  by code_simp

section \<open>Witnesses\<close>

lemma empty_settled: "settled kind_manifests kind_env (empty_session [])" and empty_kind_consistent: "consistent kind_env (empty_session [])"
  by (auto simp: settled_def consistent_def empty_session_def clean_def idle_entry_def stored_def col_map_def col_Get_def list_badger_def
      kind_env_def sample_session_env_def split: option.splits)

lemma kind_in [simp]: "kind_manifest k \<in> kind_manifests"
  by (simp add: kind_manifests_def kind_manifest_def)

definition overlap_events :: "race_ev list" where
  "overlap_events = [RvLaunch (kind_manifest ''run''), RvStep 0, RvDelete ''web''] @ replicate 3 (RvStep 1) @ replicate 3 (RvStep 0)"


definition apart_events :: "race_ev list" where
  "apart_events = [RvLaunch (kind_manifest ''run''), RvStep 0, RvDelete ''api'', RvStep 1] @ replicate 3 (RvStep 0)
     @ [RvStep 1, RvDelete ''web'', RvStep 2, RvStep 2, RvStep 2]"

lemma apart_requests_consistent_witness:
  "\<exists>r. exec (apart_act kind_env) apart_events \<lparr>ra_session = empty_session [], ra_requests = []\<rparr> = Some r
    \<and> quiet r \<and> consistent kind_env (ra_session r)"
proof -
  let ?x = "exec (apart_act kind_env) apart_events (\<lparr>ra_session = empty_session [], ra_requests = []\<rparr> :: (string \<times> string) list race)"
  have "case ?x of None \<Rightarrow> False | Some r \<Rightarrow> quiet r" by code_simp
  then obtain r where r: "?x = Some r" "quiet r" by (auto split: option.splits)
  have g: "\<forall>ev \<in> set apart_events. ev_manifests ev \<subseteq> kind_manifests" by (simp add: apart_events_def)
  show ?thesis using apart_requests_consistent [OF kind_env_ok empty_settled empty_kind_consistent g r(1)] r by blast
qed

end
