(* ===== verification/Proxying.thy ===== *)
theory Proxying
  imports RunTask
begin

text \<open>
  The programs of a task behind its balancer: the runners of \<open>RunTask\<close> and the balancer of
  \<open>LoadBalancer\<close> in one system. \<open>pkg/ipc\<close> dials the address a program was told to serve on,
  \<open>pkg/revproxy/upstream.go\<close> makes an upstream of it, and the runner lists it in the balancer once the
  program answers. The network is a parameter: what answers on an address of a family of sockets.
\<close>

section \<open>Dialling\<close>

text \<open>The two builds of \<open>DialContext\<close>: only the one for Windows passes its context on.\<close>

record ('x, 'e, 'k) network =
  nt_windows :: bool
  nt_Dial :: "string \<Rightarrow> string \<Rightarrow> 'e + 'k"
  nt_DialPipeContext :: "'x \<Rightarrow> string \<Rightarrow> 'e + 'k"

definition DialContext :: "('x, 'e, 'k) network \<Rightarrow> 'x \<Rightarrow> string \<Rightarrow> 'e + 'k" where
  "DialContext N c address = (if nt_windows N then nt_DialPipeContext N c address else nt_Dial N ''unix'' address)"

definition ipc_Dial :: "('x, 'e, 'k) network \<Rightarrow> 'x \<Rightarrow> string \<Rightarrow> 'e + 'k" where
  "ipc_Dial N background address = DialContext N background address"

text \<open>
  The life check of \<open>RunTask\<close> over this network: \<open>answer\<close> is what a connection first answers. Its
  context ends after a second, but nothing that it waits for is given the context.
\<close>

definition dial_answer :: "('x, 'e, 'k) network \<Rightarrow> ('k \<Rightarrow> string) \<Rightarrow> 'x \<Rightarrow> string \<Rightarrow> string option" where
  "dial_answer N answer c adr = (case DialContext N c adr of Inl e \<Rightarrow> None | Inr k \<Rightarrow> Some (answer k))"

lemma unix_ignores_context: "\<not> nt_windows N \<Longrightarrow> DialContext N c adr = DialContext N c' adr"
  by (simp add: DialContext_def)

section \<open>Upstreams\<close>

record ('x, 'e, 'k) upstream =
  us_Name :: string
  us_DialContext :: "'x \<Rightarrow> 'e + 'k"

definition NewUpstream :: "string \<Rightarrow> ('x \<Rightarrow> 'e + 'k) \<Rightarrow> ('x, 'e, 'k) upstream" where
  "NewUpstream name dialer = \<lparr>us_Name = name, us_DialContext = dialer\<rparr>"

definition NewIpcUpstream :: "('x, 'e, 'k) network \<Rightarrow> string \<Rightarrow> string \<Rightarrow> ('x, 'e, 'k) upstream" where
  "NewIpcUpstream N name address = NewUpstream name (\<lambda>c. DialContext N c address)"

text \<open>
  The reverse proxy of an upstream: the director makes the URL one of the host of the request, and the
  transport dials the upstream whatever the address that it is asked for.
\<close>

definition proxy_Director :: "string \<Rightarrow> string \<times> string" where
  "proxy_Director host = (''http'', host)"

definition transport_Dial :: "('x, 'e, 'k) upstream \<Rightarrow> 'x \<Rightarrow> string \<Rightarrow> string \<Rightarrow> 'e + 'k" where
  "transport_Dial u c network adr = us_DialContext u c"

section \<open>The programs and their balancer\<close>

text \<open>
  A task with a proxy: the commands, the languages and the environment its programs start in. A
  program is what a runner knows of the process it has started, with the upstream it has made.
\<close>

record 'c proxy_task =
  pt_exec :: "string \<Rightarrow> string list \<Rightarrow> 'c"
  pt_Languages :: "string \<Rightarrow> (string \<Rightarrow> string list \<Rightarrow> (gerr + 'c)) option"
  pt_environ :: "(string \<times> string) list"
  pt_local :: string
  pt_run :: taskrun

record program =
  pg_Namespace :: string
  pg_ipc :: string
  pg_env :: "(string \<times> string) list"
  pg_runner :: runner
  pg_upstream :: "nat option"

record ('x, 'e, 'k) proxied =
  px_lbs :: lbs
  px_upstreams :: "('x, 'e, 'k) upstream list"
  px_programs :: "program list"

datatype proxied_ev =
    PxLaunch string nat string ctx "gerr option"
  | PxRunner nat runner_ev
  | PxChooses string "nat option" nat
  | PxUpdates nat

text \<open>What a step of a runner does to the balancer.\<close>

definition list_upstream :: "('x, 'e, 'k) network \<Rightarrow> (nat list \<Rightarrow> nat \<Rightarrow> nat list) \<Rightarrow> runner_ev \<Rightarrow> program \<Rightarrow> ('x, 'e, 'k) proxied
    \<Rightarrow> program \<times> ('x, 'e, 'k) proxied" where
  "list_upstream N without ev x p =
     (if ev = RnLifecheck True
      then let u = length (px_upstreams p) in
        (x\<lparr>pg_upstream := Some u\<rparr>,
         p\<lparr>px_upstreams := px_upstreams p @ [NewIpcUpstream N (pg_Namespace x) (pg_ipc x)],
           px_lbs := (px_lbs p)\<lparr>ls_lb := AddUpstream (ls_lb (px_lbs p)) u\<rparr>\<rparr>)
      else if ev = RnRemoves
      then (case pg_upstream x of
              None \<Rightarrow> (x, p)
            | Some u \<Rightarrow> (x, p\<lparr>px_lbs := (px_lbs p)\<lparr>ls_lb := RemoveUpstream without (ls_lb (px_lbs p)) u\<rparr>\<rparr>))
      else (x, p))"

fun proxied_act :: "('x, 'e, 'k) network \<Rightarrow> 'c proxy_task \<Rightarrow> ((nat \<Rightarrow> nat \<Rightarrow> bool) \<Rightarrow> nat list \<Rightarrow> nat) \<Rightarrow> (nat list \<Rightarrow> nat \<Rightarrow> nat list)
    \<Rightarrow> proxied_ev \<Rightarrow> ('x, 'e, 'k) proxied \<Rightarrow> ('x, 'e, 'k) proxied option" where
  "proxied_act N T MinBy without (PxLaunch ns n adr c failed) p =
     (case runner_Launch (pt_exec T) (pt_Languages T) (\<lambda>_ _ _. failed) (pt_environ T) ns n (pt_local T) adr (nt_windows N) c (pt_run T) of
        Launched env r \<Rightarrow>
          Some (p\<lparr>px_programs := px_programs p @ [\<lparr>pg_Namespace = ns, pg_ipc = adr, pg_env = env, pg_runner = r, pg_upstream = None\<rparr>]\<rparr>)
      | _ \<Rightarrow> Some p)"
| "proxied_act N T MinBy without (PxRunner i ev) p =
     (if i < length (px_programs p)
      then map_option (\<lambda>r.
             let (x, p) = list_upstream N without ev ((px_programs p ! i)\<lparr>pg_runner := r\<rparr>) p
             in p\<lparr>px_programs := (px_programs p)[i := x]\<rparr>)
             (runner_act ev (pg_runner (px_programs p ! i)))
      else None)"
| "proxied_act N T MinBy without (PxChooses ip retry draw) p =
     map_option (\<lambda>b. p\<lparr>px_lbs := b\<rparr>) (lb_act MinBy without (NextChooses ip retry draw) (px_lbs p))"
| "proxied_act N T MinBy without (PxUpdates i) p =
     map_option (\<lambda>b. p\<lparr>px_lbs := b\<rparr>) (lb_act MinBy without (NextUpdates i) (px_lbs p))"

definition start_proxied :: "lb_options \<Rightarrow> ('x, 'e, 'k) proxied" where
  "start_proxied opt = \<lparr>px_lbs = lb_start opt, px_upstreams = [], px_programs = []\<rparr>"

section \<open>Whom the balancer knows\<close>

lemma choose_listed:
  assumes "min_by_spec MinBy" and "choose_upstream MinBy b ip retry draw = Some u"
  shows "u \<in> set (lb_Upstreams b)"
proof -
  let ?us = "lb_Upstreams b"
  let ?n = "if lbo_Method (lb_opts b) = ''hash'' then nat (fastHash ip mod int (length ?us)) else draw mod length ?us"
  have ne: "?us \<noteq> []" using assms(2) by (auto simp: choose_upstream_def)
  have n: "?n < length ?us" using ne pos_mod_bound [of "int (length ?us)" "fastHash ip"] by (auto simp: nat_less_iff)
  have m: "MinBy (fewer_conns b retry) ?us \<in> set ?us" using assms(1) fewer_conns_weak ne unfolding min_by_spec_def by blast
  show ?thesis
  proof (cases "length ?us = 1 \<or> lbo_Method (lb_opts b) = ''conn''")
    case True
    then show ?thesis using assms(2) ne m by (auto simp: choose_upstream_def Let_def split: if_splits)
  next
    case False
    then have "u = (if Some (?us ! ?n) = retry then scan_from ?us ?n retry (?us ! ?n) (length ?us - 1) else ?us ! ?n)"
      using assms(2) ne unfolding choose_upstream_def Let_def by simp
    then show ?thesis using scan_from_in [OF ne nth_mem [OF n]] nth_mem [OF n] by metis
  qed
qed

text \<open>Every upstream that a balancer lists, keeps in a session, or has chosen is one of \<open>K\<close>.\<close>

definition lb_within :: "nat set \<Rightarrow> lb \<Rightarrow> bool" where
  "lb_within K b \<longleftrightarrow> set (lb_Upstreams b) \<subseteq> K \<and> (\<forall>k u. lb_session b k = Some u \<longrightarrow> u \<in> K)"

definition lbs_within :: "nat set \<Rightarrow> lbs \<Rightarrow> bool" where
  "lbs_within K st \<longleftrightarrow> lb_within K (ls_lb st)
     \<and> (\<forall>ip retry u s. (ip, retry, Some u, s) \<in> set (ls_pending st) \<longrightarrow> u \<in> K)
     \<and> (\<forall>ip u. (ip, Some u) \<in> set (ls_results st) \<longrightarrow> u \<in> K)"

lemma lbs_within_mono: "lbs_within K st \<Longrightarrow> K \<subseteq> K' \<Longrightarrow> lbs_within K' st"
  unfolding lbs_within_def lb_within_def by blast

lemma session_of_within: "session_of b ip = (s, b') \<Longrightarrow> lb_within K b \<Longrightarrow> lb_within K b'"
proof -
  assume s: "session_of b ip = (s, b')" and w: "lb_within K b"
  have "b' = b \<or> lb_Upstreams b' = lb_Upstreams b \<and> lb_session b' = (lb_session b)(lb_fresh b := None)"
    using s unfolding session_of_def by (cases "sm_Load (lb_sessions b) ip") (auto split: lb_any.splits)
  then show "lb_within K b'" using w by (auto simp: lb_within_def split: if_splits)
qed

lemma next_choose_within:
  assumes M: "min_by_spec MinBy" and n: "next_choose MinBy b ip retry draw = (us, s, b')" and w: "lb_within K b"
  shows "lb_within K b' \<and> (\<forall>u. us = Some u \<longrightarrow> u \<in> K)"
proof (cases "lbo_Sticky (lb_opts b)")
  case True
  obtain k b1 where k: "session_of b ip = (k, b1)" by fastforce
  have w1: "lb_within K b1" by (rule session_of_within [OF k w])
  have c: "choose_upstream MinBy b2 ip retry draw = Some u \<Longrightarrow> lb_within K b2 \<Longrightarrow> u \<in> K" for b2 u
    using choose_listed [OF M] by (auto simp: lb_within_def)
  show ?thesis
  proof (cases "lb_session b1 k")
    case None
    then have "us = choose_upstream MinBy b1 ip retry draw" "b' = b1" using n True k by (auto simp: next_choose_def)
    then show ?thesis using w1 c [OF _ w1] by simp
  next
    case (Some v)
    show ?thesis
    proof (cases "Some v = retry")
      case stale: True
      let ?b2 = "b1\<lparr>lb_session := (lb_session b1)(k := None)\<rparr>"
      have w2: "lb_within K ?b2" using w1 by (simp add: lb_within_def)
      have "us = choose_upstream MinBy ?b2 ip retry draw" "b' = ?b2"
        using n True k Some stale [symmetric] by (auto simp: next_choose_def Let_def)
      then show ?thesis using w2 c [OF _ w2] by simp
    next
      case False
      then have "us = Some v" "b' = b1" using n True k Some by (auto simp: next_choose_def)
      then show ?thesis using w1 Some by (simp add: lb_within_def)
    qed
  qed
next
  case False
  then show ?thesis using n w choose_listed [OF M] by (auto simp: next_choose_def lb_within_def)
qed

lemma next_update_within:
  assumes "next_update us s retry b = (us', b')" and "lb_within K b" and "\<forall>u. us = Some u \<longrightarrow> u \<in> K"
  shows "lb_within K b' \<and> (\<forall>u. us' = Some u \<longrightarrow> u \<in> K)"
  using assms by (auto simp: next_update_def lb_within_def split: option.splits if_splits)

definition without_spec :: "(nat list \<Rightarrow> nat \<Rightarrow> nat list) \<Rightarrow> bool" where
  "without_spec without \<longleftrightarrow> (\<forall>us u. set (without us u) = set us - {u})"

lemma lb_act_within:
  assumes M: "min_by_spec MinBy" and a: "lb_act MinBy without ev st = Some st'" and w: "lbs_within K st"
    and ev: "(\<exists>ip retry draw. ev = NextChooses ip retry draw) \<or> (\<exists>i. ev = NextUpdates i)"
  shows "lbs_within K st' \<and> lb_Upstreams (ls_lb st') = lb_Upstreams (ls_lb st)"
proof (cases ev)
  case (NextChooses ip retry draw)
  obtain us s b where n: "next_choose MinBy (ls_lb st) ip retry draw = (us, s, b)" by (cases "next_choose MinBy (ls_lb st) ip retry draw")
  then have st': "st' = st\<lparr>ls_lb := b, ls_pending := ls_pending st @ [(ip, retry, us, s)]\<rparr>" using a NextChooses by simp
  then show ?thesis using next_choose_within [OF M n] next_choose_frame [OF n] w by (auto simp: lbs_within_def)
next
  case (NextUpdates i)
  then have i: "i < length (ls_pending st)" using a by (simp split: if_splits)
  obtain ip retry us s where p: "ls_pending st ! i = (ip, retry, us, s)" by (cases "ls_pending st ! i")
  obtain us' b where n: "next_update us s retry (ls_lb st) = (us', b)" by fastforce
  have st': "st' = st\<lparr>ls_lb := b, ls_pending := take i (ls_pending st) @ drop (Suc i) (ls_pending st),
      ls_results := ls_results st @ [(ip, us')]\<rparr>"
    using a NextUpdates i p n by simp
  have "(ip, retry, us, s) \<in> set (ls_pending st)" using i p by (metis nth_mem)
  then have u: "\<forall>u. us = Some u \<longrightarrow> u \<in> K" using w unfolding lbs_within_def by blast
  have wb: "lb_within K (ls_lb st)" using w by (simp add: lbs_within_def)
  have sub: "set (ls_pending st') \<subseteq> set (ls_pending st)" by (auto simp: st' dest: in_set_takeD in_set_dropD)
  have r: "set (ls_results st') = insert (ip, us') (set (ls_results st))" by (simp add: st')
  have f: "ls_lb st' = b" by (simp add: st')
  note nw = next_update_within [OF n wb u]
  have "lbs_within K st'"
    unfolding lbs_within_def f r using nw sub w unfolding lbs_within_def by blast
  then show ?thesis using next_update_frame [OF n] f by simp
qed (use ev in simp_all)

lemma lbs_within_add: "lbs_within K st \<Longrightarrow> u \<in> K \<Longrightarrow> lbs_within K (st\<lparr>ls_lb := AddUpstream (ls_lb st) u\<rparr>)"
  by (simp add: lbs_within_def lb_within_def AddUpstream_def)

lemma lbs_within_remove:
  "without_spec without \<Longrightarrow> lbs_within K st \<Longrightarrow> lbs_within K (st\<lparr>ls_lb := RemoveUpstream without (ls_lb st) u\<rparr>)"
  by (auto simp: lbs_within_def lb_within_def RemoveUpstream_def without_spec_def)

text \<open>
  A program with its upstream: the upstream dials the address that the program was told to serve on,
  and is made once, by the life check that ends the wait.
\<close>

definition program_ok :: "('x, 'e, 'k) network \<Rightarrow> ('x, 'e, 'k) upstream list \<Rightarrow> program \<Rightarrow> bool" where
  "program_ok N us x \<longleftrightarrow>
     upstream_checked (pg_runner x) \<and>
     (rn_lb (pg_runner x) \<longrightarrow> child_env (pg_env x) ''GOSU_SERVE'' = Some (pg_ipc x)) \<and>
     (case pg_upstream x of
        None \<Rightarrow> \<not> rn_upstream (pg_runner x) \<and> \<not> rn_removing (pg_runner x)
      | Some u \<Rightarrow> u < length us \<and> us ! u = NewIpcUpstream N (pg_Namespace x) (pg_ipc x) \<and> rn_lb (pg_runner x)
          \<and> (\<exists>c. rn_pc (pg_runner x) = RnRet c))"

definition own_upstreams :: "program list \<Rightarrow> bool" where
  "own_upstreams xs \<longleftrightarrow> (\<forall>i < length xs. \<forall>j < length xs. pg_upstream (xs ! i) \<noteq> None \<and> pg_upstream (xs ! i) = pg_upstream (xs ! j) \<longrightarrow> i = j)"

definition made_upstreams :: "program list \<Rightarrow> nat set" where
  "made_upstreams xs = {u. \<exists>x \<in> set xs. pg_upstream x = Some u}"

definition live_upstreams :: "program list \<Rightarrow> nat set" where
  "live_upstreams xs = {u. \<exists>x \<in> set xs. pg_upstream x = Some u \<and> rn_upstream (pg_runner x)}"

definition proxied_inv :: "('x, 'e, 'k) network \<Rightarrow> ('x, 'e, 'k) proxied \<Rightarrow> bool" where
  "proxied_inv N p \<longleftrightarrow>
     (\<forall>x \<in> set (px_programs p). program_ok N (px_upstreams p) x) \<and> own_upstreams (px_programs p) \<and>
     set (lb_Upstreams (ls_lb (px_lbs p))) = live_upstreams (px_programs p) \<and>
     lbs_within (made_upstreams (px_programs p)) (px_lbs p)"

lemma program_ok_more: "program_ok N us x \<Longrightarrow> program_ok N (us @ vs) x"
  by (auto simp: program_ok_def nth_append split: option.splits)

lemma launched_program:
  assumes "runner_Launch exec_cmd Languages start environ ns n local adr windows c t = Launched env r"
  shows "program_ok N us \<lparr>pg_Namespace = ns, pg_ipc = adr, pg_env = env, pg_runner = r, pg_upstream = None\<rparr>"
  using assms by (auto simp: runner_Launch_def start_runner_def run_env_def Let_def program_ok_def upstream_checked_def child_env_def
      split: run_cmd.splits option.splits)

text \<open>A step of a runner, by what it does to its upstream.\<close>

lemma runner_upstream_frame:
  assumes "runner_act ev r = Some r'" and "ev \<noteq> RnLifecheck True" and "ev \<noteq> RnRemoves"
  shows "rn_upstream r' = rn_upstream r" and "rn_removing r' = rn_removing r"
  using assms by (cases ev; auto split: if_splits)+

lemma runner_ret_kept: "runner_act ev r = Some r' \<Longrightarrow> rn_pc r = RnRet c \<Longrightarrow> rn_pc r' = RnRet c"
  by (cases ev) (auto split: if_splits)

lemma program_ok_step:
  assumes x: "program_ok N us x" and a: "runner_act ev (pg_runner x) = Some r" and n: "ev \<noteq> RnLifecheck True"
  shows "program_ok N us (x\<lparr>pg_runner := r\<rparr>)"
proof (cases "pg_upstream x")
  case None
  have "\<not> rn_upstream r \<and> \<not> rn_removing r"
  proof (cases "ev = RnRemoves")
    case True
    then show ?thesis using a by (auto split: if_splits)
  next
    case False
    then show ?thesis using runner_upstream_frame [OF a n False] x None by (simp add: program_ok_def)
  qed
  then show ?thesis using x None a runner_upstream_checked [OF a] runner_keeps_lb [OF a] by (simp add: program_ok_def)
next
  case (Some u)
  then show ?thesis using x runner_upstream_checked [OF a] runner_keeps_lb [OF a] runner_ret_kept [OF a] by (auto simp: program_ok_def)
qed

lemma bex_nth: "(\<exists>x \<in> set xs. P x) \<longleftrightarrow> (\<exists>j < length xs. P (xs ! j))"
  by (metis in_set_conv_nth)

lemma live_update:
  assumes i: "i < length xs" and o: "own_upstreams xs"
  shows "live_upstreams (xs[i := x]) = (live_upstreams xs - {u. pg_upstream (xs ! i) = Some u})
      \<union> {u. pg_upstream x = Some u \<and> rn_upstream (pg_runner x)}" (is "?l = ?r")
proof (rule set_eqI)
  fix u
  have l: "u \<in> live_upstreams ys \<longleftrightarrow> (\<exists>j < length ys. pg_upstream (ys ! j) = Some u \<and> rn_upstream (pg_runner (ys ! j)))" for ys
    by (simp add: live_upstreams_def bex_nth)
  have d: "j = i" if "j < length xs" "pg_upstream (xs ! j) = Some u" "pg_upstream (xs ! i) = Some u" for j
    using o that i unfolding own_upstreams_def by (metis option.distinct(1))
  show "u \<in> ?l \<longleftrightarrow> u \<in> ?r"
  proof
    assume "u \<in> ?l"
    then obtain j where j: "j < length xs" "pg_upstream (xs[i := x] ! j) = Some u" "rn_upstream (pg_runner (xs[i := x] ! j))"
      using l by auto
    show "u \<in> ?r"
    proof (cases "j = i")
      case True
      then show ?thesis using j by simp
    next
      case False
      then have "pg_upstream (xs ! j) = Some u" "rn_upstream (pg_runner (xs ! j))" using j by simp_all
      then show ?thesis using l [of xs] d [OF j(1)] False j(1) by auto
    qed
  next
    assume "u \<in> ?r"
    then consider "u \<in> live_upstreams xs" "pg_upstream (xs ! i) \<noteq> Some u" | "pg_upstream x = Some u" "rn_upstream (pg_runner x)"
      by auto
    then show "u \<in> ?l"
    proof cases
      case 1
      then obtain j where "j < length xs" "pg_upstream (xs ! j) = Some u" "rn_upstream (pg_runner (xs ! j))" using l [of xs] by auto
      moreover then have "j \<noteq> i" using 1(2) by auto
      ultimately show ?thesis using l [of "xs[i := x]"] by auto
    next
      case 2
      then show ?thesis using l [of "xs[i := x]"] i by auto
    qed
  qed
qed

lemma made_update:
  assumes "i < length xs" and "pg_upstream (xs ! i) = None \<or> pg_upstream x = pg_upstream (xs ! i)"
  shows "made_upstreams xs \<subseteq> made_upstreams (xs[i := x])" and "pg_upstream x = Some u \<Longrightarrow> u \<in> made_upstreams (xs[i := x])"
proof -
  have m: "u \<in> made_upstreams ys \<longleftrightarrow> (\<exists>j < length ys. pg_upstream (ys ! j) = Some u)" for ys u
    by (simp add: made_upstreams_def bex_nth)
  show "made_upstreams xs \<subseteq> made_upstreams (xs[i := x])"
  proof
    fix u assume "u \<in> made_upstreams xs"
    then obtain j where "j < length xs" "pg_upstream (xs ! j) = Some u" using m by auto
    then show "u \<in> made_upstreams (xs[i := x])" unfolding m using assms by (intro exI [of _ j]) (cases "j = i"; auto)
  qed
  show "pg_upstream x = Some u \<Longrightarrow> u \<in> made_upstreams (xs[i := x])" unfolding m using assms(1) by (intro exI [of _ i]) simp
qed

lemma own_update_same:
  assumes "own_upstreams xs" and "i < length xs" and "pg_upstream x = pg_upstream (xs ! i)"
  shows "own_upstreams (xs[i := x])"
proof -
  have "pg_upstream (xs[i := x] ! j) = pg_upstream (xs ! j)" if "j < length xs" for j
    using assms(2,3) that by (cases "j = i") simp_all
  then show ?thesis using assms(1) by (simp add: own_upstreams_def)
qed

lemma own_update_new:
  assumes "own_upstreams xs" and "i < length xs" and "pg_upstream x = Some u" and "u \<notin> made_upstreams xs"
  shows "own_upstreams (xs[i := x])"
  unfolding own_upstreams_def
proof (intro allI impI)
  fix a b
  assume ab: "a < length (xs[i := x])" "b < length (xs[i := x])"
    and h: "pg_upstream (xs[i := x] ! a) \<noteq> None \<and> pg_upstream (xs[i := x] ! a) = pg_upstream (xs[i := x] ! b)"
  have n: "pg_upstream (xs ! j) \<noteq> Some u" if "j < length xs" for j
    using assms(4) that by (auto simp: made_upstreams_def)
  show "a = b"
  proof (cases "a = i \<or> b = i")
    case True
    then show ?thesis using h ab n assms(2,3) by (cases "a = i"; cases "b = i") (auto simp: eq_commute)
  next
    case False
    then have e: "xs[i := x] ! a = xs ! a" "xs[i := x] ! b = xs ! b" by simp_all
    show ?thesis using assms(1) ab h unfolding own_upstreams_def e length_list_update by blast
  qed
qed

text \<open>The three kinds of steps of a runner.\<close>

lemma proxied_inv_checked:
  assumes v: "proxied_inv N p" and i: "i < length (px_programs p)"
    and a: "runner_act (RnLifecheck True) (pg_runner (px_programs p ! i)) = Some r"
    and l: "list_upstream N without (RnLifecheck True) ((px_programs p ! i)\<lparr>pg_runner := r\<rparr>) p = (x, p1)"
  shows "proxied_inv N (p1\<lparr>px_programs := (px_programs p)[i := x]\<rparr>)"
proof -
  let ?x = "px_programs p ! i" and ?u = "length (px_upstreams p)" and ?xs = "px_programs p"
  have x: "program_ok N (px_upstreams p) ?x" using v i by (simp add: proxied_inv_def)
  have pc: "rn_pc (pg_runner ?x) = RnCheck" "rn_pc r = RnRet ChanResult" "rn_upstream r" using a by (auto split: if_splits)
  then have n: "pg_upstream ?x = None" "rn_lb (pg_runner ?x)" using x by (auto simp: program_ok_def upstream_checked_def split: option.splits)
  have x': "x = ?x\<lparr>pg_runner := r, pg_upstream := Some ?u\<rparr>"
    "p1 = p\<lparr>px_upstreams := px_upstreams p @ [NewIpcUpstream N (pg_Namespace ?x) (pg_ipc ?x)],
      px_lbs := (px_lbs p)\<lparr>ls_lb := AddUpstream (ls_lb (px_lbs p)) ?u\<rparr>\<rparr>"
    using l by (auto simp: list_upstream_def Let_def)
  have new: "?u \<notin> made_upstreams ?xs"
    using v by (auto simp: proxied_inv_def made_upstreams_def program_ok_def split: option.splits)
  have "program_ok N (px_upstreams p1) x"
    using x n pc runner_upstream_checked [OF a] runner_keeps_lb [OF a] by (simp add: x' program_ok_def)
  moreover have "\<forall>y \<in> set ?xs. program_ok N (px_upstreams p1) y"
    using v by (simp add: proxied_inv_def x'(2) program_ok_more)
  ultimately have "\<forall>y \<in> set (?xs[i := x]). program_ok N (px_upstreams p1) y"
    using set_update_subset_insert [of ?xs i x] by auto
  moreover have "own_upstreams (?xs[i := x])"
    using own_update_new [OF _ i _ new, of x] v by (simp add: proxied_inv_def x')
  moreover have "live_upstreams (?xs[i := x]) = insert ?u (live_upstreams ?xs)"
    using live_update [OF i, of x] v n pc by (auto simp: proxied_inv_def x')
  moreover have "lbs_within (made_upstreams (?xs[i := x])) (px_lbs p)"
    using lbs_within_mono made_update(1) [OF i, of x] v n(1) unfolding proxied_inv_def by blast
  then have "lbs_within (made_upstreams (?xs[i := x])) (px_lbs p1)"
    using made_update(2) [OF i, of x ?u] n(1) by (simp add: x' lbs_within_add)
  ultimately show ?thesis using v by (simp add: proxied_inv_def x'(2) AddUpstream_def)
qed

lemma proxied_inv_other:
  assumes W: "without_spec without" and v: "proxied_inv N p" and i: "i < length (px_programs p)"
    and n: "ev \<noteq> RnLifecheck True" and a: "runner_act ev (pg_runner (px_programs p ! i)) = Some r"
    and l: "list_upstream N without ev ((px_programs p ! i)\<lparr>pg_runner := r\<rparr>) p = (x, p1)"
  shows "proxied_inv N (p1\<lparr>px_programs := (px_programs p)[i := x]\<rparr>)"
proof -
  let ?x = "px_programs p ! i" and ?xs = "px_programs p"
  have x: "program_ok N (px_upstreams p) ?x" using v i by (simp add: proxied_inv_def)
  have x': "x = ?x\<lparr>pg_runner := r\<rparr>" "px_upstreams p1 = px_upstreams p"
    using l n by (auto simp: list_upstream_def split: if_splits option.splits)
  have "program_ok N (px_upstreams p) x" unfolding x' by (rule program_ok_step [OF x a n])
  then have ok: "\<forall>y \<in> set (?xs[i := x]). program_ok N (px_upstreams p1) y"
    using v set_update_subset_insert [of ?xs i x] by (auto simp: proxied_inv_def x'(2))
  have own: "own_upstreams (?xs[i := x])" using own_update_same [OF _ i] v by (simp add: proxied_inv_def x')
  have mono: "made_upstreams ?xs \<subseteq> made_upstreams (?xs[i := x])" using made_update(1) [OF i, of x] by (simp add: x')
  then have w: "lbs_within (made_upstreams (?xs[i := x])) (px_lbs p)"
    using lbs_within_mono v unfolding proxied_inv_def by blast
  note live = live_update [OF i, of x]
  have o: "own_upstreams ?xs" "set (lb_Upstreams (ls_lb (px_lbs p))) = live_upstreams ?xs" using v by (simp_all add: proxied_inv_def)
  show ?thesis
  proof (cases "ev = RnRemoves")
    case True
    then have f: "rn_removing (pg_runner ?x)" "\<not> rn_upstream r" using a by (auto split: if_splits)
    then obtain u where u: "pg_upstream ?x = Some u" using x by (auto simp: program_ok_def split: option.splits)
    have p1: "px_lbs p1 = (px_lbs p)\<lparr>ls_lb := RemoveUpstream without (ls_lb (px_lbs p)) u\<rparr>"
      using l True u by (auto simp: list_upstream_def)
    have "set (lb_Upstreams (ls_lb (px_lbs p1))) = live_upstreams ?xs - {u}"
      using W o(2) by (simp add: p1 RemoveUpstream_def without_spec_def)
    moreover have "live_upstreams (?xs[i := x]) = live_upstreams ?xs - {u}" using live [OF o(1)] u f by (auto simp: x')
    ultimately show ?thesis using ok own lbs_within_remove [OF W w] by (simp add: proxied_inv_def p1)
  next
    case False
    then have p1: "px_lbs p1 = px_lbs p" using l n by (auto simp: list_upstream_def)
    have e: "u \<in> live_upstreams ?xs \<longleftrightarrow> rn_upstream (pg_runner ?x)" if "pg_upstream ?x = Some u" for u
    proof -
      have "y = ?x" if y: "y \<in> set ?xs" "pg_upstream y = Some u" for y
        using o(1) i y \<open>pg_upstream ?x = Some u\<close> unfolding own_upstreams_def by (metis in_set_conv_nth option.distinct(1))
      then show ?thesis using that i by (auto simp: live_upstreams_def)
    qed
    have "live_upstreams (?xs[i := x]) = live_upstreams ?xs"
      using live [OF o(1)] e runner_upstream_frame(1) [OF a n False] by (auto simp: x')
    then show ?thesis using ok own w o(2) by (simp add: proxied_inv_def p1)
  qed
qed

lemma proxied_inv_step:
  assumes M: "min_by_spec MinBy" and W: "without_spec without" and a: "proxied_act N T MinBy without ev p = Some p'"
    and v: "proxied_inv N p"
  shows "proxied_inv N p'"
proof (cases ev)
  case (PxLaunch ns n adr c failed)
  show ?thesis
  proof (cases "runner_Launch (pt_exec T) (pt_Languages T) (\<lambda>_ _ _. failed) (pt_environ T) ns n (pt_local T) adr (nt_windows N) c (pt_run T)")
    case (Launched env r)
    let ?x = "\<lparr>pg_Namespace = ns, pg_ipc = adr, pg_env = env, pg_runner = r, pg_upstream = None\<rparr>"
    have p': "p' = p\<lparr>px_programs := px_programs p @ [?x]\<rparr>" using a PxLaunch Launched by auto
    have "program_ok N (px_upstreams p) ?x" by (rule launched_program [OF Launched])
    moreover have "own_upstreams (px_programs p @ [?x])"
      using v by (auto simp: proxied_inv_def own_upstreams_def nth_append less_Suc_eq)
    moreover have "live_upstreams (px_programs p @ [?x]) = live_upstreams (px_programs p)"
      "made_upstreams (px_programs p @ [?x]) = made_upstreams (px_programs p)" by (auto simp: live_upstreams_def made_upstreams_def)
    ultimately show ?thesis using v by (auto simp: proxied_inv_def p')
  qed (use a v PxLaunch in simp_all)
next
  case (PxRunner i rev)
  then obtain r where i: "i < length (px_programs p)" and r: "runner_act rev (pg_runner (px_programs p ! i)) = Some r"
    using a by (auto split: if_splits)
  obtain x p1 where l: "list_upstream N without rev ((px_programs p ! i)\<lparr>pg_runner := r\<rparr>) p = (x, p1)" by fastforce
  have "px_programs p1 = px_programs p" using l by (auto simp: list_upstream_def Let_def split: if_splits option.splits)
  then have "p' = p1\<lparr>px_programs := (px_programs p)[i := x]\<rparr>" using a PxRunner i r l by simp
  then show ?thesis using proxied_inv_checked [OF v i] proxied_inv_other [OF W v i _ r l] r l by blast
next
  case (PxChooses ip retry draw)
  then obtain b where b: "lb_act MinBy without (NextChooses ip retry draw) (px_lbs p) = Some b" "p' = p\<lparr>px_lbs := b\<rparr>"
    using a by (auto simp del: lb_act.simps)
  show ?thesis using lb_act_within [OF M b(1), of "made_upstreams (px_programs p)"] v by (simp add: proxied_inv_def b(2))
next
  case (PxUpdates i)
  then obtain b where b: "lb_act MinBy without (NextUpdates i) (px_lbs p) = Some b" "p' = p\<lparr>px_lbs := b\<rparr>"
    using a by (auto simp del: lb_act.simps)
  show ?thesis using lb_act_within [OF M b(1), of "made_upstreams (px_programs p)"] v by (simp add: proxied_inv_def b(2))
qed

text \<open>The system, for library functions that do as documented.\<close>

definition proxied_lib_act :: "('x, 'e, 'k) network \<Rightarrow> 'c proxy_task \<Rightarrow> ((nat \<Rightarrow> nat \<Rightarrow> bool) \<Rightarrow> nat list \<Rightarrow> nat) \<Rightarrow> (nat list \<Rightarrow> nat \<Rightarrow> nat list)
    \<Rightarrow> proxied_ev \<Rightarrow> ('x, 'e, 'k) proxied \<Rightarrow> ('x, 'e, 'k) proxied option" where
  "proxied_lib_act N T MinBy without ev p =
     (if min_by_spec MinBy \<and> without_spec without then proxied_act N T MinBy without ev p else None)"

interpretation proxying: guarded_system "proxied_lib_act N T MinBy without" "\<lambda>_. True" "proxied_inv N" for N T MinBy without
  by unfold_locales (auto simp: proxied_lib_act_def split: if_splits intro: proxied_inv_step)

lemma proxied_lib: "min_by_spec MinBy \<Longrightarrow> without_spec without \<Longrightarrow> proxied_lib_act N T MinBy without = proxied_act N T MinBy without"
  by (simp add: proxied_lib_act_def fun_eq_iff)


text \<open>Two programs of a task, each checked, a request to one of them, and the other one stopped.\<close>

definition sample_network :: "(unit, unit, string) network" where
  "sample_network = \<lparr>nt_windows = False, nt_Dial = (\<lambda>network adr. Inr (network @ '' '' @ adr)), nt_DialPipeContext = (\<lambda>_ _. Inl ())\<rparr>"

definition sample_proxy_task :: "string proxy_task" where
  "sample_proxy_task = \<lparr>pt_exec = (\<lambda>e _. e), pt_Languages = (\<lambda>_. None), pt_environ = [], pt_local = ''http://localhost:24511'',
     pt_run = \<lparr>tr_Foreign = ''run'', tr_Exec = ''serve'', tr_Args = [], tr_Cwd = ''/'', tr_Env = [], tr_N = 2, tr_Proxy = Some sticky_opts\<rparr>\<rparr>"

definition proxied_events :: "proxied_ev list" where
  "proxied_events = [PxLaunch ''web/0'' 0 ''/tmp/gosu-a.sock'' live None, PxLaunch ''web/1'' 1 ''/tmp/gosu-b.sock'' live None,
     PxRunner 0 RnTest, PxRunner 1 RnTest, PxRunner 1 (RnLifecheck True), PxRunner 0 (RnLifecheck True),
     PxChooses ''10.0.0.1'' None 0, PxRunner 0 RnStopping, PxRunner 0 RnRemoves, PxUpdates 0]"


text \<open>
  The life check is meant to take a second at most, but on a Unix socket nothing that it waits for knows
  of its context: whether it ends is up to the program.
\<close>

lemma lifecheck_unbounded:
  "\<not> nt_windows N \<Longrightarrow> lifecheck (dial_answer N answer c) adr = lifecheck (dial_answer N answer c') adr"
  by (simp add: lifecheck_def dial_answer_def unix_ignores_context [of N c adr c'])

end
