(* ===== verification/Supervision.thy ===== *)
theory Supervision
  imports RunTask
begin

text \<open>
  A program under its worker: the goroutines of \<open>pkg/task/work_must.go\<close> and those of
  \<open>processRunner.Launch\<close> in \<open>pkg/task/task_run.go\<close> as one system. They share the context of the worker
  and its stop channel; \<open>exec.CommandContext\<close> kills the process when the context ends, and what the
  runner sends is the exit of the task.
\<close>

section \<open>The composed system\<close>

record supervised =
  su_worker :: must
  su_lb :: bool
  su_windows :: bool
  su_runner :: "runner option"
  su_failed :: "gerr option"
  su_sent :: bool

definition supervise :: "ctx \<Rightarrow> options \<Rightarrow> int \<Rightarrow> bool \<Rightarrow> bool \<Rightarrow> supervised" where
  "supervise base opts now lb windows =
     \<lparr>su_worker = newMustWorker base opts now, su_lb = lb, su_windows = windows, su_runner = None, su_failed = None, su_sent = False\<rparr>"

text \<open>The runner sees the context and the stop channel of its worker.\<close>

definition see_worker :: "must \<Rightarrow> runner \<Rightarrow> runner" where
  "see_worker w r = r\<lparr>rn_ctx := w_ctx w, rn_stopping := w_stopChannel w\<rparr>"

definition set_worker :: "must \<Rightarrow> supervised \<Rightarrow> supervised" where
  "set_worker w s = s\<lparr>su_worker := w, su_runner := map_option (see_worker w) (su_runner s)\<rparr>"

text \<open>What the channel of \<open>TaskRun.Launch\<close> gives, once it gives something.\<close>

definition run_exit :: "supervised \<Rightarrow> gerr option option" where
  "run_exit s =
     (case su_failed s of
        Some e \<Rightarrow> Some (Some e)
      | None \<Rightarrow>
          (case su_runner s of
             None \<Rightarrow> None
           | Some r \<Rightarrow> (case rn_pc r of RnRet (ChanErr e) \<Rightarrow> Some (Some e) | RnRet ChanResult \<Rightarrow> rn_result r | _ \<Rightarrow> None)))"

datatype supervised_ev =
    SuWorker must_ev
  | SuStarts
  | SuStartFails gerr
  | SuRunner runner_ev
  | SuKilled gerr
  | SuSends

fun of_worker :: "must_ev \<Rightarrow> bool" where
  "of_worker (TaskExits e) \<longleftrightarrow> False"
| "of_worker (LaunchReturns ready) \<longleftrightarrow> ready = None"
| "of_worker ev \<longleftrightarrow> True"

fun of_runner :: "runner_ev \<Rightarrow> bool" where
  "of_runner RnStopping \<longleftrightarrow> False"
| "of_runner (RnCancelled e) \<longleftrightarrow> False"
| "of_runner ev \<longleftrightarrow> True"

definition launched_task :: "supervised \<Rightarrow> bool" where
  "launched_task s \<longleftrightarrow> w_pc (su_worker s) \<notin> {NotRun, InLaunch} \<and> su_runner s = None \<and> su_failed s = None"

text \<open>
  A command whose context is over does not start. The process ends by itself (\<open>RnExits\<close>) or by the kill
  that the end of the context brings.
\<close>

fun supervised_act :: "supervised_ev \<Rightarrow> supervised \<Rightarrow> supervised option" where
  "supervised_act (SuWorker ev) s =
     (if of_worker ev then map_option (\<lambda>w. set_worker w s) (must_act ev (su_worker s)) else None)"
| "supervised_act SuStarts s =
     (if launched_task s \<and> w_ctx (su_worker s) = None
      then Some (s\<lparr>su_runner := Some (see_worker (su_worker s) (start_runner (su_lb s) (su_windows s) live))\<rparr>) else None)"
| "supervised_act (SuStartFails e) s = (if launched_task s then Some (s\<lparr>su_failed := Some e\<rparr>) else None)"
| "supervised_act (SuRunner ev) s =
     (case su_runner s of
        None \<Rightarrow> None
      | Some r \<Rightarrow> if of_runner ev then map_option (\<lambda>r. s\<lparr>su_runner := Some r\<rparr>) (runner_act ev r) else None)"
| "supervised_act (SuKilled e) s =
     (case su_runner s of
        None \<Rightarrow> None
      | Some r \<Rightarrow>
          if w_ctx (su_worker s) \<noteq> None
          then map_option (\<lambda>r. s\<lparr>su_runner := Some r\<rparr>) (runner_act (RnExits (Some e)) r) else None)"
| "supervised_act SuSends s =
     (case run_exit s of
        None \<Rightarrow> None
      | Some x \<Rightarrow>
          if su_sent s then None
          else map_option (\<lambda>w. (set_worker w s)\<lparr>su_sent := True\<rparr>) (must_act (TaskExits x) (su_worker s)))"

section \<open>Invariants\<close>

definition seen_by_runner :: "supervised \<Rightarrow> bool" where
  "seen_by_runner s \<longleftrightarrow>
     (\<forall>r. su_runner s = Some r \<longrightarrow> rn_ctx r = w_ctx (su_worker s) \<and> rn_stopping r = w_stopChannel (su_worker s))"

definition runner_sound :: "supervised \<Rightarrow> bool" where
  "runner_sound s \<longleftrightarrow> (\<forall>r. su_runner s = Some r \<longrightarrow> runner_inv r \<and> (rn_signals r = [] \<longrightarrow> rn_watching r))"

definition exit_sound :: "supervised \<Rightarrow> bool" where
  "exit_sound s \<longleftrightarrow>
     (\<forall>x. w_exitReason (su_worker s) = Some x \<longrightarrow> run_exit s = Some x) \<and>
     (\<forall>x. w_pc (su_worker s) = CancelRet x \<longrightarrow>
        x = Some (StatusErr TimeoutExec) \<or> (\<exists>y. run_exit s = Some y \<and> (x = None \<longrightarrow> y = None)))"

definition supervised_inv :: "supervised \<Rightarrow> bool" where
  "supervised_inv s \<longleftrightarrow> must_inv (su_worker s) \<and> seen_by_runner s \<and> runner_sound s \<and> exit_sound s"

text \<open>What the channel gives does not change.\<close>

lemma runner_result_kept: "runner_act ev r = Some r' \<Longrightarrow> rn_result r = Some x \<Longrightarrow> rn_result r' = Some x"
  by (cases ev) (auto split: if_splits)

lemma runner_pc_kept: "runner_act ev r = Some r' \<Longrightarrow> rn_pc r = RnRet c \<Longrightarrow> rn_pc r' = RnRet c"
  by (cases ev) (auto split: if_splits)

lemma run_exit_runner:
  assumes "su_runner s = Some r" and "runner_act ev r = Some r'" and "run_exit s = Some x"
  shows "run_exit (s\<lparr>su_runner := Some r'\<rparr>) = Some x"
proof (cases "su_failed s")
  case None
  then obtain c where c: "rn_pc r = RnRet c" using assms(1,3) by (auto simp: run_exit_def split: run_pc.splits)
  then show ?thesis
    using assms(1,3) None runner_pc_kept [OF assms(2) c] runner_result_kept [OF assms(2)]
    by (auto simp: run_exit_def split: run_chan.splits)
next
  case (Some e)
  then have "x = Some e" using assms(3) by (auto simp: run_exit_def)
  then show ?thesis by (simp add: run_exit_def Some)
qed

lemma see_worker_simps [simp]:
  "rn_pc (see_worker w r) = rn_pc r" "rn_result (see_worker w r) = rn_result r" "rn_exit (see_worker w r) = rn_exit r"
  "rn_signals (see_worker w r) = rn_signals r" "rn_watching (see_worker w r) = rn_watching r"
  "rn_ctx (see_worker w r) = w_ctx w" "rn_stopping (see_worker w r) = w_stopChannel w"
  by (simp_all add: see_worker_def)

lemma run_exit_worker [simp]: "run_exit (set_worker w s) = run_exit s"
  by (cases "su_runner s") (auto simp: run_exit_def set_worker_def split: option.splits run_pc.splits run_chan.splits)

lemma run_exit_sent [simp]: "run_exit (s\<lparr>su_sent := b\<rparr>) = run_exit s"
  by (cases "su_failed s") (simp_all add: run_exit_def)

lemma set_worker_simps [simp]:
  "su_worker (set_worker w s) = w" "su_runner (set_worker w s) = map_option (see_worker w) (su_runner s)"
  "su_failed (set_worker w s) = su_failed s" "su_sent (set_worker w s) = su_sent s"
  by (simp_all add: set_worker_def)

lemma must_exit_kept:
  assumes "must_act ev w = Some w'" and "of_worker ev"
  shows "w_exitReason w' = Some x \<Longrightarrow> w_exitReason w = Some x"
    and "w_pc w' = CancelRet y \<Longrightarrow> w_pc w = CancelRet y \<or> y = Some (StatusErr TimeoutExec)
      \<or> (\<exists>x. w_exitReason w = Some x \<and> (y = None \<longrightarrow> x = None))"
proof -
  have e: "early_exit_error order z \<noteq> None" "exit_error order z = None \<longleftrightarrow> z = None" for order z
    by (simp_all add: early_exit_error_def exit_error_def split: option.splits)
  show "w_exitReason w' = Some x \<Longrightarrow> w_exitReason w = Some x"
    using assms by (cases ev) (auto simp: must_ops split: if_splits option.splits must_pc.splits)
  show "w_pc w' = CancelRet y \<Longrightarrow> w_pc w = CancelRet y \<or> y = Some (StatusErr TimeoutExec)
      \<or> (\<exists>x. w_exitReason w = Some x \<and> (y = None \<longrightarrow> x = None))"
    using assms by (cases ev) (auto simp: must_ops e split: if_splits option.splits must_pc.splits)
qed

lemma runner_watches:
  "runner_act ev r = Some r' \<Longrightarrow> (rn_signals r = [] \<longrightarrow> rn_watching r) \<Longrightarrow> (rn_signals r' = [] \<longrightarrow> rn_watching r')"
  by (cases ev) (auto split: if_splits)

lemma runner_shared: "runner_act ev r = Some r' \<Longrightarrow> of_runner ev \<Longrightarrow> rn_ctx r' = rn_ctx r \<and> rn_stopping r' = rn_stopping r"
  by (cases ev) (auto split: if_splits)

text \<open>Seeing a context that is over, or a stop channel that is closed, keeps what a runner is.\<close>

lemma see_worker_sound:
  assumes "runner_inv r" and "rn_ctx r \<noteq> live \<Longrightarrow> w_ctx w \<noteq> live" and "rn_stopping r \<Longrightarrow> w_stopChannel w"
  shows "runner_inv (see_worker w r)"
  using assms by (auto simp: runner_facts see_worker_def)

lemma must_act_channel: "must_act ev w = Some w' \<Longrightarrow> must_inv w \<Longrightarrow> w_stopChannel w \<Longrightarrow> w_stopChannel w'"
  using must_act_inv [of ev w w'] must_act_stop [of ev w w'] by (simp add: must_inv_def)

lemma supervised_worker_step:
  assumes v: "supervised_inv s" and a: "must_act ev (su_worker s) = Some w"
  shows "must_inv w \<and> seen_by_runner (set_worker w s) \<and> runner_sound (set_worker w s)"
proof -
  have i: "must_inv (su_worker s)" using v by (simp add: supervised_inv_def)
  have "runner_sound (set_worker w s)"
    unfolding runner_sound_def
  proof (intro allI impI)
    fix r' assume "su_runner (set_worker w s) = Some r'"
    then obtain r where r: "su_runner s = Some r" "r' = see_worker w r" by auto
    have f: "runner_inv r" "rn_signals r = [] \<longrightarrow> rn_watching r" "rn_ctx r = w_ctx (su_worker s)" "rn_stopping r = w_stopChannel (su_worker s)"
      using v r(1) by (simp_all add: supervised_inv_def runner_sound_def seen_by_runner_def)
    have "w_ctx w \<noteq> live" if "rn_ctx r \<noteq> live" using must_act_cause [OF a] that f(3) by auto
    moreover have "w_stopChannel w" if "rn_stopping r" using must_act_channel [OF a i] that f(4) by simp
    ultimately show "runner_inv r' \<and> (rn_signals r' = [] \<longrightarrow> rn_watching r')"
      using see_worker_sound [OF f(1)] f(2) r(2) by simp
  qed
  then show ?thesis using must_act_inv [OF a i] by (auto simp: seen_by_runner_def)
qed

lemma supervised_runner_step:
  assumes v: "supervised_inv s" and r: "su_runner s = Some r" and a: "runner_act ev r = Some r'" and o: "of_runner ev"
  shows "supervised_inv (s\<lparr>su_runner := Some r'\<rparr>)"
proof -
  have f: "runner_inv r" "rn_signals r = [] \<longrightarrow> rn_watching r" "rn_ctx r = w_ctx (su_worker s)" "rn_stopping r = w_stopChannel (su_worker s)"
    using v r by (simp_all add: supervised_inv_def runner_sound_def seen_by_runner_def)
  have "runner_inv r'" by (rule runner.keeps [OF _ a f(1)]) simp
  then have "runner_sound (s\<lparr>su_runner := Some r'\<rparr>)" using runner_watches [OF a f(2)] by (simp add: runner_sound_def)
  moreover have "seen_by_runner (s\<lparr>su_runner := Some r'\<rparr>)" using runner_shared [OF a o] f by (simp add: seen_by_runner_def)
  moreover have "exit_sound (s\<lparr>su_runner := Some r'\<rparr>)"
    using v run_exit_runner [OF r a] unfolding supervised_inv_def exit_sound_def by fastforce
  ultimately show ?thesis using v by (simp add: supervised_inv_def)
qed

lemma supervised_inv_step:
  assumes a: "supervised_act ev s = Some s'" and v: "supervised_inv s"
  shows "supervised_inv s'"
proof (cases ev)
  case (SuWorker wev)
  then obtain w where w: "of_worker wev" "must_act wev (su_worker s) = Some w" "s' = set_worker w s"
    using a by (auto split: if_splits simp del: must_act.simps)
  have "exit_sound s'"
    using v must_exit_kept [OF w(2,1)] unfolding supervised_inv_def exit_sound_def w(3) by simp metis
  then show ?thesis using supervised_worker_step [OF v w(2)] w(3) by (simp add: supervised_inv_def)
next
  case SuStarts
  then have l: "launched_task s" "w_ctx (su_worker s) = None"
    and s': "s' = s\<lparr>su_runner := Some (see_worker (su_worker s) (start_runner (su_lb s) (su_windows s) live))\<rparr>"
    using a by (auto split: if_splits)
  have n: "run_exit s = None" using l by (simp add: launched_task_def run_exit_def)
  have "runner_inv (see_worker (su_worker s) (start_runner (su_lb s) (su_windows s) live))"
    by (rule see_worker_sound) (simp_all add: runner_facts start_runner_def)
  then have "runner_sound s'" by (simp add: runner_sound_def s' start_runner_def)
  moreover have "seen_by_runner s'" by (simp add: seen_by_runner_def s')
  moreover have "exit_sound s'" using v n unfolding supervised_inv_def exit_sound_def s' by auto
  ultimately show ?thesis using v by (simp add: supervised_inv_def s')
next
  case (SuStartFails e)
  then have l: "launched_task s" and s': "s' = s\<lparr>su_failed := Some e\<rparr>" using a by (auto split: if_splits)
  have n: "run_exit s = None" using l by (simp add: launched_task_def run_exit_def)
  have "exit_sound s'" using v n unfolding supervised_inv_def exit_sound_def s' by auto
  then show ?thesis using v by (simp add: supervised_inv_def s' seen_by_runner_def runner_sound_def)
next
  case (SuRunner rev)
  then obtain r r' where "su_runner s = Some r" "of_runner rev" "runner_act rev r = Some r'" "s' = s\<lparr>su_runner := Some r'\<rparr>"
    using a by (auto split: option.splits if_splits simp del: runner_act.simps)
  then show ?thesis using supervised_runner_step [OF v] by simp
next
  case (SuKilled e)
  then obtain r r' where k: "su_runner s = Some r" "runner_act (RnExits (Some e)) r = Some r'" "s' = s\<lparr>su_runner := Some r'\<rparr>"
    using a by (auto split: option.splits if_splits simp del: runner_act.simps)
  show ?thesis using supervised_runner_step [OF v k(1,2)] k(3) by simp
next
  case SuSends
  then obtain x w where x: "run_exit s = Some x" "\<not> su_sent s" "must_act (TaskExits x) (su_worker s) = Some w"
      "s' = (set_worker w s)\<lparr>su_sent := True\<rparr>"
    using a by (auto split: option.splits if_splits simp del: must_act.simps)
  have w: "w_exitReason w = Some x" "w_pc w = w_pc (su_worker s)" using x(3) by (auto split: must_pc.splits if_splits)
  have e: "run_exit s' = run_exit s" by (simp add: x(4))
  have "exit_sound s'" using v w x(1) unfolding supervised_inv_def exit_sound_def e by (simp add: x(4))
  then show ?thesis using supervised_worker_step [OF v x(3)] x(4) by (simp add: supervised_inv_def seen_by_runner_def runner_sound_def)
qed

interpretation supervision: guarded_system supervised_act "\<lambda>_. True" supervised_inv
  by unfold_locales (rule supervised_inv_step)

lemma supervise_inv: "supervised_inv (supervise base opts now lb windows)"
  by (simp add: supervised_inv_def supervise_def must_inv_new seen_by_runner_def runner_sound_def exit_sound_def)
    (simp add: newMustWorker_def)

lemma supervised_exec_inv: "exec supervised_act evs (supervise base opts now lb windows) = Some s \<Longrightarrow> supervised_inv s"
  using supervision.exec_keeps [of evs "supervise base opts now lb windows" s] supervise_inv by simp

lemma supervised_opts: "supervised_act ev s = Some s' \<Longrightarrow> w_opts (su_worker s') = w_opts (su_worker s)"
  by (cases ev) (auto split: option.splits if_splits dest: must_act_opts simp del: must_act.simps runner_act.simps)

lemma supervised_exec_opts: "exec supervised_act evs s = Some s' \<Longrightarrow> w_opts (su_worker s') = w_opts (su_worker s)"
  by (induction evs arbitrary: s) (auto split: option.splits dest: supervised_opts simp del: supervised_act.simps)

text \<open>Once its worker has been told to stop, a program can be interrupted, and can be killed when the timeout has passed.\<close>

lemma can_kill:
  assumes "su_runner s = Some r" and "rn_exit r = None" and "w_ctx (su_worker s) \<noteq> None"
  shows "\<exists>s' r'. supervised_act (SuKilled e) s = Some s' \<and> su_runner s' = Some r' \<and> rn_exit r' = Some (Some e)"
  using assms by simp

text \<open>
  C4. A program that ignores its signal does not outlive the stop of its worker: once the worker was told
  to stop, the signal can be sent if it was not; while the context lives an enforcer waits, and as soon
  as the stop timeout has passed two steps, the enforcer's and the kill, end the process; when the
  context is over the kill alone does.
\<close>

theorem stopped_program_ends:
  assumes "exec supervised_act evs (supervise base opts now lb windows) = Some s"
    and "w_stopChannelUsed (su_worker s)" and "su_runner s = Some r" and "rn_exit r = None"
  shows "(rn_signals r = [] \<longrightarrow> (\<exists>s'. supervised_act (SuRunner RnSignals) s = Some s'))
    \<and> (w_ctx (su_worker s) \<noteq> None \<longrightarrow>
         (\<exists>s' r'. supervised_act (SuKilled e) s = Some s' \<and> su_runner s' = Some r' \<and> rn_exit r' = Some (Some e)))
    \<and> (w_ctx (su_worker s) = None \<longrightarrow>
         (\<exists>wait t. w_enforcer (su_worker s) = Some (wait, t) \<and> 0 < StopTimeout opts
           \<and> (t + StopTimeout opts \<le> w_now (su_worker s) \<longrightarrow>
                (\<exists>s' r'. exec supervised_act [SuWorker EnforceTimeout, SuKilled e] s = Some s'
                   \<and> su_runner s' = Some r' \<and> rn_exit r' = Some (Some e)))))"
proof (intro conjI impI)
  have v: "supervised_inv s" by (rule supervised_exec_inv [OF assms(1)])
  have m: "must_inv (su_worker s)" and st: "rn_stopping r" and w: "rn_signals r = [] \<longrightarrow> rn_watching r"
    using v assms(2,3) by (auto simp: supervised_inv_def must_inv_def seen_by_runner_def runner_sound_def)
  have o: "w_opts (su_worker s) = opts"
    using supervised_exec_opts [OF assms(1)] by (simp add: supervise_def newMustWorker_def)
  show "\<exists>s'. supervised_act (SuRunner RnSignals) s = Some s'" if "rn_signals r = []"
    using assms(3) st w that by simp
  show "\<exists>s' r'. supervised_act (SuKilled e) s = Some s' \<and> su_runner s' = Some r' \<and> rn_exit r' = Some (Some e)"
    if "w_ctx (su_worker s) \<noteq> None" by (rule can_kill [OF assms(3,4) that])
  show "\<exists>wait t. w_enforcer (su_worker s) = Some (wait, t) \<and> 0 < StopTimeout opts
      \<and> (t + StopTimeout opts \<le> w_now (su_worker s) \<longrightarrow>
           (\<exists>s' r'. exec supervised_act [SuWorker EnforceTimeout, SuKilled e] s = Some s'
              \<and> su_runner s' = Some r' \<and> rn_exit r' = Some (Some e)))"
    if c: "w_ctx (su_worker s) = None"
  proof -
    obtain wait t where en: "w_enforcer (su_worker s) = Some (wait, t)" "0 < StopTimeout opts"
      using m assms(2) c o by (auto simp: must_inv_def)
    have "\<exists>s' r'. exec supervised_act [SuWorker EnforceTimeout, SuKilled e] s = Some s'
        \<and> su_runner s' = Some r' \<and> rn_exit r' = Some (Some e)" if le: "t + StopTimeout opts \<le> w_now (su_worker s)"
    proof -
      obtain w' where w': "must_act EnforceTimeout (su_worker s) = Some w'" "w_ctx w' = Some (StatusErr TimeoutStop)"
        using enforce_fires [OF en(1) c] le o by blast
      let ?s1 = "set_worker w' s"
      have 1: "supervised_act (SuWorker EnforceTimeout) s = Some ?s1" using w'(1) by (simp del: must_act.simps)
      obtain s' r' where "supervised_act (SuKilled e) ?s1 = Some s'" "su_runner s' = Some r'" "rn_exit r' = Some (Some e)"
        using can_kill [of ?s1 "see_worker w' r" e] assms(3,4) w'(2) by auto
      then show ?thesis using 1 by (simp del: supervised_act.simps)
    qed
    then show ?thesis using en by blast
  qed
qed

definition stubborn_events :: "supervised_ev list" where
  "stubborn_events = [SuWorker CallRun, SuWorker (LaunchReturns None), SuStarts, SuWorker CallStop, SuRunner RnSignals,
     SuWorker (Tick (60 * Second))]"

lemma stopped_program_ends_witness:
  "\<exists>s s' r'. exec supervised_act stubborn_events (supervise None (WithDefaults zero_options) 0 False False) = Some s
    \<and> exec supervised_act [SuWorker EnforceTimeout, SuKilled (Msg ''signal: killed'')] s = Some s'
    \<and> su_runner s' = Some r' \<and> rn_exit r' = Some (Some (Msg ''signal: killed''))"
proof -
  let ?s0 = "supervise None (WithDefaults zero_options) 0 False False"
  obtain s r where s: "exec supervised_act stubborn_events ?s0 = Some s" "w_stopChannelUsed (su_worker s)" "su_runner s = Some r"
      "rn_exit r = None" "w_ctx (su_worker s) = None" "w_enforcer (su_worker s) = Some (True, 0)" "w_now (su_worker s) = 60 * Second"
    by (auto simp: stubborn_events_def supervise_def must_ops launched_task_def start_runner_def set_worker_def see_worker_def
        zero_options_def WithDefaults_def default_stop_def WithCancelOrOk_def dur_IsPositive_def Second_def)
  have t: "StopTimeout (WithDefaults zero_options) \<le> 60 * Second"
    by (simp add: zero_options_def WithDefaults_def default_stop_def Second_def dur_IsPositive_def)
  obtain wait t where e: "w_enforcer (su_worker s) = Some (wait, t)"
      "t + StopTimeout (WithDefaults zero_options) \<le> w_now (su_worker s) \<longrightarrow>
         (\<exists>s' r'. exec supervised_act [SuWorker EnforceTimeout, SuKilled (Msg ''signal: killed'')] s = Some s'
            \<and> su_runner s' = Some r' \<and> rn_exit r' = Some (Some (Msg ''signal: killed'')))"
    using stopped_program_ends [OF s(1,2,3,4), of "Msg ''signal: killed''"] s(5) by blast
  have "t = 0" using e(1) s(6) by simp
  then show ?thesis using e(2) s(1,7) t by auto
qed

text \<open>
  What a worker makes of its program: it takes as the exit of the task what the runner sends, which is
  the exit of the process, and it succeeds by itself only after a process that ended without an error.
\<close>

lemma success_needs_exit:
  assumes "exec supervised_act evs (supervise base opts now lb windows) = Some s" and "w_pc (su_worker s) = CancelRet None"
  shows "\<exists>r. su_runner s = Some r \<and> rn_exit r = Some None"
proof -
  have v: "supervised_inv s" by (rule supervised_exec_inv [OF assms(1)])
  then have x: "run_exit s = Some None" using assms(2) by (auto simp: supervised_inv_def exit_sound_def)
  then obtain r where r: "su_runner s = Some r" "rn_result r = Some None"
    by (auto simp: run_exit_def split: option.splits run_pc.splits run_chan.splits)
  then have "runner_inv r" using v by (simp add: supervised_inv_def runner_sound_def)
  then show ?thesis using r by (auto simp: runner_facts)
qed

text \<open>
  \<open>Run\<close> does not wait for the process when its context ends: after a stop that timed out, or a kill, it
  has returned and the worker is done although the process still runs, so that a restart starts the
  program a second time beside the first.
\<close>

lemma returned_before_exit:
  "\<exists>s r. exec supervised_act [SuWorker CallRun, SuWorker (LaunchReturns None), SuStarts, SuWorker CallKill, SuWorker SelDone]
      (supervise None (WithDefaults zero_options) 0 False False) = Some s
    \<and> w_pc (su_worker s) = Returned (Some (StatusErr Cancelled)) \<and> su_runner s = Some r \<and> rn_exit r = None"
  by (simp add: supervise_def must_ops launched_task_def start_runner_def set_worker_def see_worker_def zero_options_def
      WithDefaults_def WithCancelOrOk_def dur_IsPositive_def cancelOrOk_Cancel_def cancel_cause_def)

end
