(* ===== verification/Go_Duration.thy ===== *)
theory Go_Duration
  imports Units
begin

text \<open>
  The text of a duration: \<open>String\<close> of \<open>time.Duration\<close> and \<open>time.ParseDuration\<close>, which \<open>pkg/util\<close>
  calls for its durations and rates. A duration is written in hours, minutes and seconds, or below a
  second in one smaller unit, with a fraction; the parser adds up any sequence of numbers with units,
  computes the fractions in \<open>float64\<close> and checks for overflow.
\<close>

section \<open>Printing\<close>

text \<open>The loop of \<open>fmtFrac\<close>: the digits from the last to the first, without trailing zeros.\<close>

fun frac_loop :: "nat \<Rightarrow> bool \<Rightarrow> nat \<Rightarrow> string \<Rightarrow> bool \<times> nat \<times> string" where
  "frac_loop 0 print v buf = (print, v, buf)"
| "frac_loop (Suc i) print v buf =
     (let digit = v mod 10; print = (print \<or> digit \<noteq> 0)
      in frac_loop i print (v div 10) (if print then digit_char digit # buf else buf))"

definition fmtFrac :: "nat \<Rightarrow> nat \<Rightarrow> string \<Rightarrow> nat \<times> string" where
  "fmtFrac prec v buf = (case frac_loop prec False v buf of (print, v, buf) \<Rightarrow> (v, if print then CHR ''.'' # buf else buf))"

definition fmtInt :: "nat \<Rightarrow> string \<Rightarrow> string" where
  "fmtInt v buf = format_nat 10 v @ buf"

definition micro_sign :: string where
  "micro_sign = [CHR 0xC2, CHR 0xB5]"

definition small_unit :: "nat \<Rightarrow> nat \<times> string" where
  "small_unit u = (if u < 1000 then (0, ''ns'') else if u < 1000000 then (3, micro_sign @ ''s'') else (6, ''ms''))"

definition format_seconds :: "nat \<Rightarrow> string" where
  "format_seconds u =
     (case fmtFrac 9 u ''s'' of
        (u, buf) \<Rightarrow>
          let buf = fmtInt (u mod 60) buf; u = u div 60 in
          if u = 0 then buf
          else let buf = fmtInt (u mod 60) (CHR ''m'' # buf); u = u div 60 in
            if u = 0 then buf else fmtInt u (CHR ''h'' # buf))"

definition format_small :: "nat \<Rightarrow> string" where
  "format_small u = (case small_unit u of (prec, unit) \<Rightarrow> (case fmtFrac prec u unit of (u, buf) \<Rightarrow> fmtInt u buf))"

definition dur_String :: "duration \<Rightarrow> string" where
  "dur_String d =
     (let u = nat \<bar>d\<bar> in
      if u = 0 then ''0s''
      else (if d < 0 then ''-'' else []) @ (if u < 1000000000 then format_small u else format_seconds u))"

section \<open>Parsing\<close>

fun leadingInt :: "nat \<Rightarrow> string \<Rightarrow> (nat \<times> string) option" where
  "leadingInt x [] = Some (x, [])"
| "leadingInt x (c # s) =
     (if \<not> is_digit c then Some (x, c # s)
      else if x > 2 ^ 63 div 10 then None
      else let x = x * 10 + digit_val c in if x > 2 ^ 63 then None else leadingInt x s)"

fun leadingFraction :: "nat \<Rightarrow> f64 \<Rightarrow> bool \<Rightarrow> string \<Rightarrow> nat \<times> f64 \<times> string" where
  "leadingFraction x scale overflow [] = (x, scale, [])"
| "leadingFraction x scale overflow (c # s) =
     (if \<not> is_digit c then (x, scale, c # s)
      else if overflow \<or> x > (2 ^ 63 - 1) div 10 then leadingFraction x scale True s
      else let y = x * 10 + digit_val c in
        if y > 2 ^ 63 then leadingFraction x scale True s else leadingFraction y (f64_mul scale (Fin 10)) overflow s)"

definition unitMap :: "string \<Rightarrow> nat option" where
  "unitMap u =
     map_of [(''ns'', 1), (''us'', 1000), (micro_sign @ ''s'', 1000), ([CHR 0xCE, CHR 0xBC] @ ''s'', 1000),
             (''ms'', 1000000), (''s'', 1000000000), (''m'', 60000000000), (''h'', 3600000000000)] u"

definition unit_rune :: "char \<Rightarrow> bool" where
  "unit_rune c \<longleftrightarrow> c \<noteq> CHR ''.'' \<and> \<not> is_digit c"

text \<open>One number with its unit: the nanoseconds and the rest. \<open>f\<close> over \<open>scale\<close> is the fraction.\<close>

definition term_value :: "nat \<Rightarrow> nat \<Rightarrow> f64 \<Rightarrow> nat \<Rightarrow> nat option" where
  "term_value v f scale unit =
     (if v > 2 ^ 63 div unit then None
      else let v = v * unit;
               v = (if f > 0 then v + nat (f64_to_int64 (f64_mul (f64_of_int (int f)) (f64_div (f64_of_int (int unit)) scale))) else v)
           in if v > 2 ^ 63 then None else Some v)"

definition parse_term :: "string \<Rightarrow> (nat \<times> string) option" where
  "parse_term s =
     (if s = [] \<or> \<not> (hd s = CHR ''.'' \<or> is_digit (hd s)) then None
      else case leadingInt 0 s of
        None \<Rightarrow> None
      | Some (v, s1) \<Rightarrow>
          let pre = (length s1 \<noteq> length s);
              (f, scale, s2, post) =
                (if s1 \<noteq> [] \<and> hd s1 = CHR ''.''
                 then (case leadingFraction 0 (Fin 1) False (tl s1) of (f, scale, s2) \<Rightarrow> (f, scale, s2, length s2 \<noteq> length (tl s1)))
                 else (0, Fin 1, s1, False));
              u = takeWhile unit_rune s2
          in if \<not> pre \<and> \<not> post then None
             else if u = [] then None
             else (case unitMap u of
                     None \<Rightarrow> None
                   | Some unit \<Rightarrow> map_option (\<lambda>v. (v, dropWhile unit_rune s2)) (term_value v f scale unit)))"

lemma leadingInt_rest: "leadingInt x s = Some (v, s1) \<Longrightarrow> length s1 \<le> length s"
  by (induction x s rule: leadingInt.induct) (auto simp: Let_def split: if_splits)

lemma leadingFraction_rest: "leadingFraction x scale ov s = (f, scale', s2) \<Longrightarrow> length s2 \<le> length s"
  by (induction x scale ov s rule: leadingFraction.induct) (auto simp: Let_def split: if_splits)

lemma takeWhile_shorter: "takeWhile P s \<noteq> [] \<Longrightarrow> length (dropWhile P s) < length s"
  by (cases s) (auto simp: le_imp_less_Suc length_dropWhile_le split: if_splits)

lemma parse_term_rest:
  assumes "parse_term s = Some (v, rest)"
  shows "length rest < length s"
proof -
  obtain v1 s1 where s1: "leadingInt 0 s = Some (v1, s1)" using assms by (auto simp: parse_term_def split: if_splits option.splits)
  let ?fs = "if s1 \<noteq> [] \<and> hd s1 = CHR ''.''
    then (case leadingFraction 0 (Fin 1) False (tl s1) of (f, scale, s2) \<Rightarrow> (f, scale, s2, length s2 \<noteq> length (tl s1)))
    else (0, Fin 1, s1, False)"
  obtain f scale s2 post where fs: "?fs = (f, scale, s2, post)" by (cases ?fs) auto
  have "length s2 \<le> length s1"
  proof (cases "s1 \<noteq> [] \<and> hd s1 = CHR ''.''")
    case True
    obtain f' sc s2' where l: "leadingFraction 0 (Fin 1) False (tl s1) = (f', sc, s2')" by (cases "leadingFraction 0 (Fin 1) False (tl s1)")
    then show ?thesis using fs True leadingFraction_rest [OF l] by auto
  next
    case False
    then show ?thesis using fs by auto
  qed
  moreover have "takeWhile unit_rune s2 \<noteq> []" "rest = dropWhile unit_rune s2"
    using assms unfolding parse_term_def s1 option.case prod.case Let_def fs
    by (auto split: if_splits option.splits)
  then have "length rest < length s2" using takeWhile_shorter [of unit_rune s2] by simp
  ultimately show ?thesis using leadingInt_rest [OF s1] by linarith
qed

function parse_terms :: "nat \<Rightarrow> string \<Rightarrow> nat option" where
  "parse_terms d s =
     (if s = [] then Some d
      else case parse_term s of
        None \<Rightarrow> None
      | Some (v, rest) \<Rightarrow> let d = (d + v) mod 2 ^ 64 in if d > 2 ^ 63 then None else parse_terms d rest)"
  by pat_completeness auto
termination by (relation "measure (\<lambda>(d, s). length s)") (auto dest: parse_term_rest)

declare parse_terms.simps [simp del]

definition ParseDuration :: "string \<Rightarrow> duration option" where
  "ParseDuration s =
     (let signed = (s \<noteq> [] \<and> (hd s = CHR ''-'' \<or> hd s = CHR ''+'')); neg = (signed \<and> hd s = CHR ''-'');
          s = (if signed then tl s else s)
      in if s = ''0'' then Some 0
         else if s = [] then None
         else case parse_terms 0 s of
           None \<Rightarrow> None
         | Some d \<Rightarrow> if neg then Some (wrap64 (- wrap64 (int d))) else if d > 2 ^ 63 - 1 then None else Some (int d))"

section \<open>Reading what was printed\<close>

lemma digits_value: "nat_of_digits s = foldl (\<lambda>n c. n * 10 + digit_val c) 0 s"
  by (simp add: nat_of_digits_def mult.commute)

lemma foldl_digits_mono: "(n :: nat) \<le> foldl (\<lambda>n c. n * 10 + digit_val c) n s"
proof (induction s arbitrary: n)
  case (Cons c s)
  show ?case using Cons.IH [of "n * 10 + digit_val c"] by simp
qed simp

lemma leadingInt_digits:
  assumes "list_all is_digit ds" and "foldl (\<lambda>n c. n * 10 + digit_val c) x ds \<le> 2 ^ 63 div 10" and "s = [] \<or> \<not> is_digit (hd s)"
  shows "leadingInt x (ds @ s) = Some (foldl (\<lambda>n c. n * 10 + digit_val c) x ds, s)"
  using assms(1,2)
proof (induction ds arbitrary: x)
  case Nil
  then show ?case using assms(3) by (cases s) auto
next
  case (Cons c ds)
  have "x * 10 + digit_val c \<le> 2 ^ 63 div 10" "x \<le> 2 ^ 63 div 10"
    using Cons.prems(2) foldl_digits_mono [of "x * 10 + digit_val c" ds] by simp_all
  then show ?case using Cons.IH [of "x * 10 + digit_val c"] Cons.prems by (simp add: Let_def)
qed

lemma power10_exact: "k \<le> 15 \<Longrightarrow> fl (10 ^ k) = Fin (10 ^ k)"
proof -
  assume "k \<le> 15"
  then have "(10 :: int) ^ k \<le> 10 ^ 15" by (intro power_increasing) simp_all
  then have "fl (of_int (10 ^ k)) = Fin (of_int (10 ^ k))" by (intro fl_of_int_exact) simp
  then show "fl (10 ^ k) = Fin (10 ^ k)" by simp
qed

lemma leadingFraction_digits:
  assumes "list_all is_digit ds" and "foldl (\<lambda>n c. n * 10 + digit_val c) x ds \<le> (2 ^ 63 - 1) div 10" and "s = [] \<or> \<not> is_digit (hd s)"
    and "k + length ds \<le> 15"
  shows "leadingFraction x (Fin (10 ^ k)) False (ds @ s) = (foldl (\<lambda>n c. n * 10 + digit_val c) x ds, Fin (10 ^ (k + length ds)), s)"
  using assms(1,2,4)
proof (induction ds arbitrary: x k)
  case Nil
  then show ?case using assms(3) by (cases s) auto
next
  case (Cons c ds)
  have "x * 10 + digit_val c \<le> (2 ^ 63 - 1) div 10" "x \<le> (2 ^ 63 - 1) div 10"
    using Cons.prems(2) foldl_digits_mono [of "x * 10 + digit_val c" ds] by simp_all
  moreover have "f64_mul (Fin (10 ^ k)) (Fin 10) = Fin (10 ^ Suc k)"
    using power10_exact [of "Suc k"] Cons.prems(3) by (simp add: mult.commute)
  ultimately show ?case using Cons.IH [of "x * 10 + digit_val c" "Suc k"] Cons.prems by (simp add: Let_def)
qed

text \<open>The digits of a fraction.\<close>

lemma frac_loop_printing:
  "\<exists>ds. frac_loop i True v buf = (True, v div 10 ^ i, ds @ buf) \<and> length ds = i \<and> list_all is_digit ds \<and> nat_of_digits ds = v mod 10 ^ i"
proof (induction i arbitrary: v buf)
  case 0
  then show ?case by (simp add: nat_of_digits_def)
next
  case (Suc i)
  obtain ds where ds: "frac_loop i True (v div 10) (digit_char (v mod 10) # buf) = (True, v div 10 div 10 ^ i, ds @ digit_char (v mod 10) # buf)"
      "length ds = i" "list_all is_digit ds" "nat_of_digits ds = v div 10 mod 10 ^ i"
    using Suc.IH [of "v div 10" "digit_char (v mod 10) # buf"] by blast
  have "nat_of_digits (ds @ [digit_char (v mod 10)]) = v mod 10 ^ Suc i"
    using ds(4) digit_char_val [of "v mod 10"] by (simp add: mod_mult2_eq)
  then show ?case
    using ds digit_char_val [of "v mod 10"]
    by (intro exI [of _ "ds @ [digit_char (v mod 10)]"]) (simp add: Let_def div_mult2_eq)
qed

lemma frac_loop_silent:
  "\<exists>ds k. frac_loop i False v buf = (v mod 10 ^ i \<noteq> 0, v div 10 ^ i, ds @ buf) \<and> length ds = k \<and> k \<le> i \<and> list_all is_digit ds
     \<and> nat_of_digits ds * 10 ^ (i - k) = v mod 10 ^ i \<and> (v mod 10 ^ i = 0 \<longrightarrow> ds = [])"
proof (induction i arbitrary: v)
  case 0
  then show ?case by (simp add: nat_of_digits_def)
next
  case (Suc i)
  have e: "v mod 10 ^ Suc i = v mod 10 + 10 * (v div 10 mod 10 ^ i)" by (simp add: mod_mult2_eq)
  have q: "v div 10 ^ Suc i = v div 10 div 10 ^ i" by (simp add: div_mult2_eq)
  show ?case
  proof (cases "v mod 10 = 0")
    case True
    obtain ds k where ds: "frac_loop i False (v div 10) buf = (v div 10 mod 10 ^ i \<noteq> 0, v div 10 div 10 ^ i, ds @ buf)" "length ds = k" "k \<le> i"
        "list_all is_digit ds" "nat_of_digits ds * 10 ^ (i - k) = v div 10 mod 10 ^ i" "v div 10 mod 10 ^ i = 0 \<longrightarrow> ds = []"
      using Suc.IH [of "v div 10"] by (elim exE conjE) (rule that)
    have "nat_of_digits ds * 10 ^ (Suc i - k) = 10 * (nat_of_digits ds * 10 ^ (i - k))" using ds(3) by (simp add: Suc_diff_le)
    also have "\<dots> = v mod 10 ^ Suc i" by (simp only: ds(5) e True add_0)
    finally have "nat_of_digits ds * 10 ^ (Suc i - k) = v mod 10 ^ Suc i" .
    moreover have z: "v mod 10 ^ Suc i = 0 \<longleftrightarrow> v div 10 mod 10 ^ i = 0" 
    proof -
      have "v mod 10 ^ Suc i = 10 * (v div 10 mod 10 ^ i)" unfolding e True by (rule add_0)
      then show ?thesis by arith
    qed
    have "frac_loop (Suc i) False v buf = frac_loop i False (v div 10) buf" by (simp only: frac_loop.simps Let_def True) simp
    then have "frac_loop (Suc i) False v buf = (v mod 10 ^ Suc i \<noteq> 0, v div 10 ^ Suc i, ds @ buf)"
      by (simp only: ds(1) q z)
    moreover have "v mod 10 ^ Suc i = 0 \<longrightarrow> ds = []" unfolding z by (rule ds(6))
    ultimately show ?thesis using ds(2,4) le_SucI [OF ds(3)] by (intro exI conjI)
  next
    case False
    obtain ds where ds: "frac_loop i True (v div 10) (digit_char (v mod 10) # buf) = (True, v div 10 div 10 ^ i, ds @ digit_char (v mod 10) # buf)"
        "length ds = i" "list_all is_digit ds" "nat_of_digits ds = v div 10 mod 10 ^ i"
      using frac_loop_printing [of i "v div 10" "digit_char (v mod 10) # buf"] by blast
    let ?ds = "ds @ [digit_char (v mod 10)]"
    have c: "is_digit (digit_char (v mod 10))" "digit_val (digit_char (v mod 10)) = v mod 10" using digit_char_val [of "v mod 10"] by simp_all
    have n: "nat_of_digits ?ds = v mod 10 ^ Suc i" unfolding e nat_of_digits_snoc ds(4) c(2) by simp
    have z: "v mod 10 ^ Suc i \<noteq> 0" unfolding e using False by simp
    have "frac_loop (Suc i) False v buf = frac_loop i True (v div 10) (digit_char (v mod 10) # buf)"
      using False by (simp add: Let_def)
    then have "frac_loop (Suc i) False v buf = (v mod 10 ^ Suc i \<noteq> 0, v div 10 ^ Suc i, ?ds @ buf)"
      unfolding ds(1) q using z by simp
    moreover have "length ?ds = Suc i" "list_all is_digit ?ds" using ds(2,3) c(1) by simp_all
    moreover have "nat_of_digits ?ds * 10 ^ (Suc i - Suc i) = v mod 10 ^ Suc i" using n by simp
    ultimately show ?thesis using z by (intro exI [of _ ?ds] exI [of _ "Suc i"]) simp
  qed
qed

lemma small_exact:
  assumes "n < 10 ^ 9"
  shows "fl (of_int (int n)) = Fin (of_int (int n))" and "f64_to_int64 (Fin (of_int (int n))) = int n"
proof -
  have n: "\<bar>int n\<bar> \<le> 2 ^ 53" using assms by simp
  then show "fl (of_int (int n)) = Fin (of_int (int n))" by (rule fl_of_int_exact)
  show "f64_to_int64 (Fin (of_int (int n))) = int n" using assms by (simp add: rat_trunc_def int64_ok_def)
qed

text \<open>What the parser computes of a fraction of decimal units is exact.\<close>

lemma fraction_exact:
  assumes "k \<le> prec" and "prec \<le> 9" and "f * 10 ^ (prec - k) < 10 ^ prec"
  shows "nat (f64_to_int64 (f64_mul (f64_of_int (int f)) (f64_div (f64_of_int (int (10 ^ prec))) (Fin (10 ^ k))))) = f * 10 ^ (prec - k)"
proof -
  have p: "f64_of_int (int (10 ^ prec)) = Fin (10 ^ prec)" using power10_exact [of prec] assms(2) by (simp add: f64_of_int_def)
  have "(10 :: rat) ^ prec / 10 ^ k = 10 ^ (prec - k)" using assms(1) by (simp add: power_diff)
  then have d: "f64_div (Fin (10 ^ prec)) (Fin (10 ^ k)) = Fin (10 ^ (prec - k))"
    using power10_exact [of "prec - k"] assms(2) by simp
  have le: "(10 :: nat) ^ prec \<le> 10 ^ 9" using assms(2) by (intro power_increasing) simp_all
  have f: "f * 10 ^ (prec - k) < 10 ^ 9" using assms(3) le by linarith
  have "f * 1 \<le> f * 10 ^ (prec - k)" by (intro mult_le_mono2) simp
  then have f1: "f < 10 ^ 9" using f by linarith
  have i: "f64_of_int (int f) = Fin (of_int (int f))" unfolding f64_of_int_def by (rule small_exact(1) [OF f1])
  have "f64_mul (f64_of_int (int f)) (Fin (10 ^ (prec - k))) = fl (of_int (int (f * 10 ^ (prec - k))))" by (simp add: i)
  then have "f64_mul (f64_of_int (int f)) (Fin (10 ^ (prec - k))) = Fin (of_int (int (f * 10 ^ (prec - k))))"
    by (simp only: small_exact(1) [OF f])
  moreover note small_exact(2) [OF f]
  ultimately show ?thesis by (simp only: p d nat_int)
qed

lemma format_nat_value: "foldl (\<lambda>n c. n * 10 + digit_val c) 0 (format_nat 10 n) = n"
  using format_nat_decimal [of n] by (simp add: digits_value)

definition unit_text :: "string \<Rightarrow> nat \<Rightarrow> string \<Rightarrow> bool" where
  "unit_text u unit rest \<longleftrightarrow> u \<noteq> [] \<and> list_all unit_rune u \<and> unitMap u = Some unit \<and> (rest = [] \<or> \<not> unit_rune (hd rest))"

lemma unit_text_split:
  assumes "unit_text u unit rest"
  shows "takeWhile unit_rune (u @ rest) = u" and "dropWhile unit_rune (u @ rest) = rest"
  using assms by (cases rest; simp add: unit_text_def list_all_iff)+

lemma unit_text_head:
  assumes "unit_text u unit rest"
  shows "u @ rest \<noteq> []" and "\<not> is_digit (hd (u @ rest))" and "hd (u @ rest) \<noteq> CHR ''.''"
  using assms by (cases u; simp add: unit_text_def unit_rune_def)+

lemma parse_whole:
  assumes "unit_text u unit rest" and "n \<le> 2 ^ 63 div 10" and "0 < unit" and "n * unit \<le> 2 ^ 63"
  shows "parse_term (fmtInt n (u @ rest)) = Some (n * unit, rest)"
proof -
  have h: "hd (format_nat 10 n @ u @ rest) = hd (format_nat 10 n)" "is_digit (hd (format_nat 10 n))" "format_nat 10 n \<noteq> []"
    using format_nat_decimal [of n] by (cases "format_nat 10 n"; simp)+
  have l: "leadingInt 0 (format_nat 10 n @ u @ rest) = Some (n, u @ rest)"
    using leadingInt_digits [of "format_nat 10 n" 0 "u @ rest"] format_nat_decimal [of n] assms(2) unit_text_head [OF assms(1)]
    by (simp only: format_nat_value) simp
  have "n \<le> 2 ^ 63 div unit" using assms(3,4) by (simp add: less_eq_div_iff_mult_less_eq)
  then have v: "term_value n 0 (Fin 1) unit = Some (n * unit)" using assms(4) by (simp add: term_value_def)
  show ?thesis
    using h v unit_text_split [OF assms(1)] unit_text_head [OF assms(1)] assms(1)
    by (simp add: parse_term_def fmtInt_def l unit_text_def)
qed

lemma fmtFrac_text:
  obtains (whole) "v mod 10 ^ prec = 0" "fmtFrac prec v buf = (v div 10 ^ prec, buf)"
  | (fraction) ds where "fmtFrac prec v buf = (v div 10 ^ prec, CHR ''.'' # ds @ buf)" "ds \<noteq> []" "list_all is_digit ds" "length ds \<le> prec"
      "nat_of_digits ds * 10 ^ (prec - length ds) = v mod 10 ^ prec"
proof -
  obtain ds k where ds: "frac_loop prec False v buf = (v mod 10 ^ prec \<noteq> 0, v div 10 ^ prec, ds @ buf)" "length ds = k" "k \<le> prec"
      "list_all is_digit ds" "nat_of_digits ds * 10 ^ (prec - k) = v mod 10 ^ prec" "v mod 10 ^ prec = 0 \<longrightarrow> ds = []"
    using frac_loop_silent [of prec v buf] by (elim exE conjE) (rule that)
  show ?thesis
  proof (cases "v mod 10 ^ prec = 0")
    case True
    then show ?thesis using whole ds(6) by (simp add: fmtFrac_def ds(1))
  next
    case False
    have "ds \<noteq> []" using False ds(5) by (auto simp: nat_of_digits_def)
    moreover have "fmtFrac prec v buf = (v div 10 ^ prec, CHR ''.'' # ds @ buf)" using False by (simp add: fmtFrac_def ds(1))
    ultimately show ?thesis using fraction ds(2,3,4,5) by blast
  qed
qed

lemma parse_printed:
  assumes "unit_text u (10 ^ prec) rest" and "prec \<le> 9" and "n \<le> 2 ^ 63 div 10" and "n * 10 ^ prec + v mod 10 ^ prec \<le> 2 ^ 63"
  shows "parse_term (fmtInt n (snd (fmtFrac prec v (u @ rest)))) = Some (n * 10 ^ prec + v mod 10 ^ prec, rest)"
proof (cases rule: fmtFrac_text [of v prec "u @ rest"])
  case whole
  then show ?thesis using parse_whole [OF assms(1,3)] assms(4) by simp
next
  case (fraction ds)
  let ?f = "nat_of_digits ds" and ?tail = "CHR ''.'' # ds @ u @ rest"
  have h: "hd (format_nat 10 n @ ?tail) = hd (format_nat 10 n)" "is_digit (hd (format_nat 10 n))" "format_nat 10 n \<noteq> []"
    using format_nat_decimal [of n] by (cases "format_nat 10 n"; simp)+
  have l: "leadingInt 0 (format_nat 10 n @ ?tail) = Some (n, ?tail)"
    using leadingInt_digits [of "format_nat 10 n" 0 ?tail] format_nat_decimal [of n] assms(3)
    by (simp only: format_nat_value) (simp add: is_digit_def)
  have lt: "?f * 10 ^ (prec - length ds) < 10 ^ prec" using fraction(5) by simp
  have le: "(10 :: nat) ^ prec \<le> 10 ^ 9" using assms(2) by (intro power_increasing) simp_all
  have "?f * 1 \<le> ?f * 10 ^ (prec - length ds)" by (intro mult_le_mono2) simp
  then have "?f < 10 ^ 9" using lt le by linarith
  then have "?f \<le> (2 ^ 63 - 1) div 10" by simp
  then have fr: "leadingFraction 0 (Fin 1) False (ds @ u @ rest) = (?f, Fin (10 ^ length ds), u @ rest)"
    using leadingFraction_digits [of ds 0 "u @ rest" 0] fraction(3,4) assms(2) unit_text_head [OF assms(1)]
    by (simp add: digits_value)
  have "n * 10 ^ prec \<le> 2 ^ 63" using assms(4) by linarith
  then have "n \<le> 2 ^ 63 div 10 ^ prec" by (simp add: less_eq_div_iff_mult_less_eq)
  then have v: "term_value n ?f (Fin (10 ^ length ds)) (10 ^ prec) = Some (n * 10 ^ prec + v mod 10 ^ prec)"
    using fraction_exact [OF fraction(4) assms(2) lt] fraction(5) assms(4)
    by (cases "?f = 0") (simp_all add: term_value_def)
  have pt: "fmtInt n (snd (fmtFrac prec v (u @ rest))) = format_nat 10 n @ ?tail" by (simp add: fraction(1) fmtInt_def)
  have "u \<noteq> []" "unitMap u = Some (10 ^ prec)" using assms(1) by (simp_all add: unit_text_def)
  then show ?thesis
    unfolding pt
    by (simp add: parse_term_def h l fr v unit_text_split [OF assms(1)] fraction(2))
qed

lemma parse_terms_step: "parse_term s = Some (v, rest) \<Longrightarrow> s \<noteq> [] \<Longrightarrow> d + v \<le> 2 ^ 63 \<Longrightarrow> parse_terms d s = parse_terms (d + v) rest"
  by (simp add: parse_terms.simps [of d s])

lemma parse_terms_end: "parse_terms d [] = Some d"
  by (simp add: parse_terms.simps [of d "[]"])

lemma fmtInt_head: "fmtInt n buf \<noteq> []" "is_digit (hd (fmtInt n buf))"
  using format_nat_decimal [of n] by (cases "format_nat 10 n"; simp add: fmtInt_def)+

lemma fmtFrac_fst: "fst (fmtFrac prec v buf) = v div 10 ^ prec"
  by (cases rule: fmtFrac_text [of v prec buf]) simp_all

lemma unit_names:
  "unit_text ''ns'' (10 ^ 0) []" "unit_text (micro_sign @ ''s'') (10 ^ 3) []" "unit_text ''ms'' (10 ^ 6) []" "unit_text ''s'' (10 ^ 9) []"
  "rest = [] \<or> is_digit (hd rest) \<Longrightarrow> unit_text ''m'' 60000000000 rest" "rest = [] \<or> is_digit (hd rest) \<Longrightarrow> unit_text ''h'' 3600000000000 rest"
  by (auto simp: unit_text_def unit_rune_def unitMap_def micro_sign_def is_digit_def)

lemma format_small_parsed:
  assumes "u < 10 ^ 9"
  shows "parse_terms 0 (format_small u) = Some u"
proof -
  obtain prec unit where p: "small_unit u = (prec, unit)" by fastforce
  have t: "unit_text unit (10 ^ prec) []" "prec \<le> 9"
    using p unit_names(1,2,3) by (auto simp: small_unit_def split: if_splits)
  have "u div 10 ^ prec \<le> u" by (rule div_le_dividend)
  moreover have "u \<le> 2 ^ 63 div 10" using assms by simp
  ultimately have "u div 10 ^ prec \<le> 2 ^ 63 div 10" by linarith
  then have "parse_term (fmtInt (u div 10 ^ prec) (snd (fmtFrac prec u unit))) = Some (u, [])"
    using parse_printed [OF t, of "u div 10 ^ prec" u] assms by (simp add: div_mult_mod_eq)
  moreover have "format_small u = fmtInt (u div 10 ^ prec) (snd (fmtFrac prec u unit))"
    using fmtFrac_fst [of prec u unit] by (simp add: format_small_def p case_prod_beta)
  ultimately show ?thesis
    using assms by (simp add: parse_terms_step fmtInt_head(1) parse_terms_end)
qed

lemma hms_sum:
  fixes u :: nat
  assumes "q * 10 ^ 9 + r = u" and "m * 60 + s = q" and "h * 60 + m' = m"
  shows "h * 3600000000000 + m' * 60000000000 + (s * 10 ^ 9 + r) = u"
  by (simp add: assms [symmetric] algebra_simps)

lemma format_seconds_parsed:
  assumes "u \<le> 2 ^ 63"
  shows "parse_terms 0 (format_seconds u) = Some u"
proof -
  let ?U = "u div 10 ^ 9"
  let ?s = "fmtInt (?U mod 60) (snd (fmtFrac 9 u ''s''))"
  let ?m = "fmtInt (?U div 60 mod 60) (''m'' @ ?s)"
  let ?h = "fmtInt (?U div 60 div 60) (''h'' @ ?m)"
  have f: "format_seconds u = (if ?U div 60 = 0 then ?s else if ?U div 60 div 60 = 0 then ?m else ?h)"
    using fmtFrac_fst [of 9 u "''s''"] by (simp add: format_seconds_def case_prod_beta Let_def)
  have s: "parse_term ?s = Some (?U mod 60 * 10 ^ 9 + u mod 10 ^ 9, [])"
    using parse_printed [OF unit_names(4), of "?U mod 60" u] assms by simp
  have m: "parse_term ?m = Some (?U div 60 mod 60 * 60000000000, ?s)"
    by (rule parse_whole [OF unit_names(5)]) (simp_all add: fmtInt_head)
  have hb: "?U div 60 div 60 * 3600000000000 \<le> 2 ^ 63" using assms by simp
  have h: "parse_term ?h = Some (?U div 60 div 60 * 3600000000000, ?m)"
    by (rule parse_whole [OF unit_names(6)]) (use hb in \<open>simp_all add: fmtInt_head\<close>)
  have ss: "parse_terms d ?s = Some (d + (?U mod 60 * 10 ^ 9 + u mod 10 ^ 9))" if "d + (?U mod 60 * 10 ^ 9 + u mod 10 ^ 9) \<le> 2 ^ 63" for d
    using parse_terms_step [OF s fmtInt_head(1) that] by (simp add: parse_terms_end)
  have sum: "?U div 60 div 60 * 3600000000000 + ?U div 60 mod 60 * 60000000000 + (?U mod 60 * 10 ^ 9 + u mod 10 ^ 9) = u"
    by (rule hms_sum) (rule div_mult_mod_eq)+
  show ?thesis
  proof (cases "?U div 60 = 0")
    case True
    then show ?thesis using ss [of 0] sum assms f by simp
  next
    case False
    have mm: "parse_terms d ?m = Some (d + ?U div 60 mod 60 * 60000000000 + (?U mod 60 * 10 ^ 9 + u mod 10 ^ 9))"
      if "d + ?U div 60 mod 60 * 60000000000 + (?U mod 60 * 10 ^ 9 + u mod 10 ^ 9) \<le> 2 ^ 63" for d
      using parse_terms_step [OF m fmtInt_head(1), of d] ss [of "d + ?U div 60 mod 60 * 60000000000"] that by simp
    have hh: "parse_terms 0 ?h = Some u"
      using parse_terms_step [OF h fmtInt_head(1), of 0] mm [of "?U div 60 div 60 * 3600000000000"] sum assms hb by simp
    show ?thesis using mm [of 0] hh sum assms f False by simp
  qed
qed

section \<open>The texts of durations and rates\<close>

text \<open>\<open>String\<close>, \<open>MarshalText\<close> and \<open>UnmarshalText\<close> of \<open>ParsableDuration\<close>.\<close>

definition dur_text :: "duration \<Rightarrow> string" where
  "dur_text d = dur_String d"

definition dur_MarshalText :: "duration \<Rightarrow> string" where
  "dur_MarshalText d = dur_text d"

definition dur_UnmarshalText :: "string \<Rightarrow> bool \<times> duration" where
  "dur_UnmarshalText txt = (case ParseDuration txt of None \<Rightarrow> (False, 0) | Some d \<Rightarrow> (True, d))"

definition abs_text :: "nat \<Rightarrow> string" where
  "abs_text u = (if u < 1000000000 then format_small u else format_seconds u)"

lemma abs_text_parsed: "u \<le> 2 ^ 63 \<Longrightarrow> parse_terms 0 (abs_text u) = Some u"
  using format_small_parsed [of u] format_seconds_parsed [of u] by (simp add: abs_text_def)

lemma abs_text_head:
  shows "abs_text u \<noteq> []" and "is_digit (hd (abs_text u))"
proof -
  have "\<exists>n buf. format_small u = fmtInt n buf" by (auto simp: format_small_def case_prod_beta)
  moreover have "\<exists>n buf. format_seconds u = fmtInt n buf" by (auto simp: format_seconds_def case_prod_beta Let_def)
  ultimately obtain n buf where "abs_text u = fmtInt n buf" unfolding abs_text_def by metis
  then show "abs_text u \<noteq> []" "is_digit (hd (abs_text u))" by (simp_all only: fmtInt_head not_False_eq_True)
qed

lemma abs_text_not_zero: "u \<le> 2 ^ 63 \<Longrightarrow> abs_text u \<noteq> ''0''"
proof
  assume "u \<le> 2 ^ 63" and z: "abs_text u = ''0''"
  then have "parse_terms 0 ''0'' = Some u" using abs_text_parsed [of u] by simp
  moreover have "parse_terms 0 ''0'' = None" by (simp add: parse_terms.simps [of 0] parse_term_def is_digit_def digit_val_def)
  ultimately show False by simp
qed

lemma dur_String_abs: "d \<noteq> 0 \<Longrightarrow> dur_String d = (if d < 0 then ''-'' else []) @ abs_text (nat \<bar>d\<bar>)"
  by (simp add: dur_String_def abs_text_def Let_def)

lemma wrap64_negated:
  assumes "int64_ok d" and "d < 0"
  shows "wrap64 (- wrap64 (- d)) = d"
proof (cases "d = - (2 ^ 63)")
  case True
  then show ?thesis by (simp add: wrap64_def)
next
  case False
  then have "int64_ok (- d)" "int64_ok d" using assms by (simp_all add: int64_ok_def)
  then show ?thesis by simp
qed

lemma parsed_of_text:
  assumes "int64_ok d"
  shows "ParseDuration (dur_String d) = Some d"
proof (cases "d = 0")
  case True
  have "parse_term ''0s'' = Some (0, [])"
    by (simp add: parse_term_def is_digit_def digit_val_def unit_rune_def unitMap_def term_value_def micro_sign_def Let_def)
  then have "parse_terms 0 ''0s'' = Some 0" using parse_terms_step [of "''0s''" 0 "[]" 0] by (simp add: parse_terms_end)
  then show ?thesis using True by (simp add: dur_String_def ParseDuration_def)
next
  case False
  let ?u = "nat \<bar>d\<bar>"
  have "\<bar>d\<bar> \<le> 2 ^ 63" using assms unfolding int64_ok_def by linarith
  then have u: "?u \<le> 2 ^ 63" by (simp add: nat_le_iff)
  note a = abs_text_head [of ?u] abs_text_parsed [OF u] abs_text_not_zero [OF u]
  show ?thesis
  proof (cases "d < 0")
    case True
    then have "dur_String d = CHR ''-'' # abs_text ?u" using dur_String_abs [OF False] by simp
    then show ?thesis using a True wrap64_negated [OF assms True] by (simp add: ParseDuration_def)
  next
    case False
    then have "dur_String d = abs_text ?u" using dur_String_abs [OF \<open>d \<noteq> 0\<close>] by simp
    moreover have "hd (abs_text ?u) \<noteq> CHR ''-''" "hd (abs_text ?u) \<noteq> CHR ''+''" using a(2) by (auto simp: is_digit_def)
    ultimately show ?thesis using a False assms by (simp add: ParseDuration_def int64_ok_def)
  qed
qed

lemma abs_text_chars:
  assumes "c \<in> set (abs_text u)"
  shows "is_digit c \<or> c \<in> set ''.nmsh'' \<or> c \<in> set micro_sign"
proof -
  have i: "is_digit c" if "c \<in> set (format_nat 10 n)" for c n
    using that format_nat_decimal [of n] by (simp add: list_all_iff)
  have f: "is_digit c \<or> c = CHR ''.'' \<or> c \<in> set buf" if "c \<in> set (snd (fmtFrac prec v buf))" for c prec v buf
    using that by (cases rule: fmtFrac_text [of v prec buf]) (auto simp: list_all_iff)
  show ?thesis
  proof (cases "u < 1000000000")
    case True
    obtain prec unit where p: "small_unit u = (prec, unit)" by fastforce
    have "set unit \<subseteq> set ''nms'' \<union> set micro_sign" using p by (auto simp: small_unit_def split: if_splits)
    moreover have "c \<in> set (format_nat 10 (fst (fmtFrac prec u unit))) \<or> c \<in> set (snd (fmtFrac prec u unit))"
      using assms True by (simp add: abs_text_def format_small_def p case_prod_beta fmtInt_def)
    ultimately show ?thesis using i [of c "fst (fmtFrac prec u unit)"] f [of c prec u unit] by auto
  next
    case False
    then have "c \<in> set (format_seconds u)" using assms by (simp add: abs_text_def)
    then have "is_digit c \<or> c \<in> set ''mh'' \<or> c \<in> set (snd (fmtFrac 9 u ''s''))"
      using i by (auto simp: format_seconds_def case_prod_beta Let_def fmtInt_def split: if_splits)
    then show ?thesis using f [of c 9 u "''s''"] by auto
  qed
qed

lemma duration_text_no_space:
  shows "dur_String d \<noteq> []" and "c \<in> set (dur_String d) \<Longrightarrow> \<not> is_space c"
proof -
  show "dur_String d \<noteq> []" using abs_text_head(1) by (cases "d = 0") (simp_all add: dur_String_abs, simp add: dur_String_def)
  assume c: "c \<in> set (dur_String d)"
  have "c \<in> set ''0s-'' \<or> is_digit c \<or> c \<in> set ''.nmsh'' \<or> c \<in> set micro_sign"
  proof (cases "d = 0")
    case True
    then show ?thesis using c by (auto simp: dur_String_def)
  next
    case False
    then show ?thesis using c abs_text_chars [of c "nat \<bar>d\<bar>"] by (auto simp: dur_String_abs split: if_splits)
  qed
  then show "\<not> is_space c" by (auto simp: is_space_def is_digit_def micro_sign_def)
qed



end
