(* ===== verification/Kinds.thy ===== *)
theory Kinds
  imports TaskRegistry
begin

text \<open>
  The types behind the registries of \<open>pkg/automarshal/registry.go\<close>: the fields of a wrapper that a
  registry finds by reflection and panics without, the checks of \<open>Define\<close> on the defaults of a kind,
  and the types that \<open>pkg/task\<close> and \<open>pkg/job\<close> register in their \<open>init\<close>s. A type is known by its name,
  a method by its name and signature.
\<close>

section \<open>Types\<close>

datatype go_type =
    StructType string "(string \<times> string) list"
  | OtherType string

type_synonym struct_fields = "(string \<times> string) list"

record type_env =
  te_methods :: "go_type \<Rightarrow> string list"
  te_interface :: "string \<Rightarrow> string list"

definition Implements :: "type_env \<Rightarrow> go_type \<Rightarrow> string \<Rightarrow> bool" where
  "Implements te ty iface \<longleftrightarrow> list_all (\<lambda>m. m \<in> set (te_methods te ty)) (te_interface te iface)"

text \<open>The index of the first field of a type; \<open>None\<close> is the panic.\<close>

fun getFieldWithType :: "struct_fields \<Rightarrow> string \<Rightarrow> nat option" where
  "getFieldWithType [] typ = None"
| "getFieldWithType ((name, t) # fs) typ = (if t = typ then Some 0 else map_option Suc (getFieldWithType fs typ))"

definition idType :: string where
  "idType = ''automarshal.ID''"

record wrapper_fields =
  wf_iface :: nat
  wf_id :: nat

definition registry_fields :: "struct_fields \<Rightarrow> string \<Rightarrow> wrapper_fields option" where
  "registry_fields fs iface =
     (case getFieldWithType fs iface of
        None \<Rightarrow> None
      | Some i \<Rightarrow> (case getFieldWithType fs idType of None \<Rightarrow> None | Some j \<Rightarrow> Some \<lparr>wf_iface = i, wf_id = j\<rparr>))"

text \<open>\<open>Define\<close> with its panics.\<close>

definition Define_checked :: "type_env \<Rightarrow> string \<Rightarrow> 'v registry \<Rightarrow> string \<times> go_type \<times> 'v kind_def \<Rightarrow> 'v registry option" where
  "Define_checked te iface r entry =
     (case entry of (kind, ty, k) \<Rightarrow>
        (case ty of
           OtherType name \<Rightarrow> None
         | StructType name fs \<Rightarrow> if Implements te ty iface then Some (Define r kind k) else None))"

fun define_all :: "type_env \<Rightarrow> string \<Rightarrow> 'v registry \<Rightarrow> (string \<times> go_type \<times> 'v kind_def) list \<Rightarrow> 'v registry option" where
  "define_all te iface r [] = Some r"
| "define_all te iface r (e # es) = (case Define_checked te iface r e of None \<Rightarrow> None | Some r \<Rightarrow> define_all te iface r es)"

text \<open>A wrapper as the values of its fields: what \<open>Unmarshal\<close> sets and \<open>Marshal\<close> reads.\<close>

datatype 'v field = IfaceField "'v option" | IdField ident | OtherField

definition set_result :: "wrapper_fields \<Rightarrow> 'v \<Rightarrow> ident \<Rightarrow> 'v field list \<Rightarrow> 'v field list" where
  "set_result rf v i fs = fs[wf_iface rf := IfaceField (Some v), wf_id rf := IdField i]"

definition marshal_fields :: "wrapper_fields \<Rightarrow> 'v field list \<Rightarrow> 'v holder option" where
  "marshal_fields rf fs =
     (case (fs ! wf_iface rf, fs ! wf_id rf) of (IfaceField v, IdField i) \<Rightarrow> Some (v, i) | _ \<Rightarrow> None)"

section \<open>The types of the program\<close>

definition task_wrapper :: struct_fields where
  "task_wrapper = [(''ITask'', ''task.ITask''), (''ID'', ''automarshal.ID'')]"

definition trigger_wrapper :: struct_fields where
  "trigger_wrapper = [(''ITrigger'', ''job.ITrigger''), (''ID'', ''automarshal.ID'')]"

fun task_type :: "rtask \<Rightarrow> go_type" where
  "task_type RtNoop = StructType ''TaskNoop'' []"
| "task_type (RtWait d) = StructType ''TaskWait'' [(''Duration'', ''util.ParsableDuration'')]"
| "task_type (RtRun t) = StructType ''TaskRun'' [(''Foreign'', ''string''), (''Exec'', ''string''), (''Args'', ''[]string''), (''Cwd'', ''string''),
     (''Env'', ''map[string]string''), (''N'', ''int''), (''Proxy'', ''*revproxy.Options'')]"
| "task_type (RtFetch t) = StructType ''TaskFetch'' [(''Url'', ''string''), (''Method'', ''string''), (''Body'', ''string'')]"
| "task_type (RtPipe m ts) = StructType ''Pipe'' [(''Mode'', ''PipeMode''), (''Subtasks'', ''[]Task'')]"

fun trigger_type :: "trigger \<Rightarrow> go_type" where
  "trigger_type TriggerNever = StructType ''TriggerNever'' []"
| "trigger_type TriggerAlways = StructType ''TriggerAlways'' []"
| "trigger_type TriggerBoot = StructType ''TriggerBoot'' []"
| "trigger_type (TriggerEvery d) = StructType ''TriggerEvery'' [(''Duration'', ''util.ParsableDuration'')]"
| "trigger_type (TriggerOn n) = StructType ''TriggerOn'' [(''Name'', ''string'')]"
| "trigger_type (TriggerOnce n) = StructType ''TriggerOnce'' [(''Name'', ''string'')]"
| "trigger_type (TriggerAny ts) = StructType ''TriggerAny'' [(''List'', ''[]Trigger'')]"

definition inline_method :: string where "inline_method = ''UnmarshalInline(string) error''"
definition launch_method :: string where "launch_method = ''Launch(Controller) <-chan error''"
definition listen_method :: string where "listen_method = ''Listen(func()) func()''"
definition defaults_method :: string where "defaults_method = ''WithDefaults()''"
definition defaultsID_method :: string where "defaultsID_method = ''WithDefaults(automarshal.ID)''"

text \<open>The methods of the pointer to each type.\<close>

definition program_methods :: "(string \<times> string list) list" where
  "program_methods =
     [(''TaskNoop'', [launch_method]),
      (''TaskWait'', [inline_method, launch_method]),
      (''TaskRun'', [launch_method, defaults_method, inline_method]),
      (''TaskFetch'', [inline_method, launch_method]),
      (''Pipe'', [launch_method]),
      (''TriggerNever'', [listen_method, inline_method]),
      (''TriggerAlways'', [listen_method, inline_method]),
      (''TriggerBoot'', [listen_method, inline_method]),
      (''TriggerEvery'', [listen_method, inline_method]),
      (''TriggerOn'', [listen_method, inline_method, defaultsID_method]),
      (''TriggerOnce'', [listen_method, inline_method, defaultsID_method]),
      (''TriggerAny'', [listen_method])]"

definition program_interfaces :: "(string \<times> string list) list" where
  "program_interfaces =
     [(''task.ITask'', [launch_method]), (''job.ITrigger'', [listen_method]), (''foreign.InlineUnmarshaler'', [inline_method]),
      (''automarshal.WithDefaults'', [defaults_method]), (''automarshal.WithDefaultsID'', [defaultsID_method])]"

definition type_name :: "go_type \<Rightarrow> string" where
  "type_name ty = (case ty of StructType name fs \<Rightarrow> name | OtherType name \<Rightarrow> name)"

definition listed_in :: "(string \<times> string list) list \<Rightarrow> string \<Rightarrow> string list" where
  "listed_in l name = (case map_of l name of None \<Rightarrow> [] | Some ms \<Rightarrow> ms)"

definition program_types :: type_env where
  "program_types = \<lparr>te_methods = (\<lambda>ty. listed_in program_methods (type_name ty)), te_interface = listed_in program_interfaces\<rparr>"

section \<open>What the \<open>init\<close>s register\<close>

definition task_entry_of :: "(rtask \<Rightarrow> rtask kind_def) \<Rightarrow> string \<Rightarrow> rtask \<Rightarrow> string \<times> go_type \<times> rtask kind_def" where
  "task_entry_of k kind t = (kind, task_type t, k t)"

definition define_fetch :: "(rtask \<Rightarrow> rtask kind_def) \<Rightarrow> (string \<times> go_type \<times> rtask kind_def) list" where
  "define_fetch k = [task_entry_of k ''fetch'' (RtFetch zero_fetch)]"

definition define_noop :: "(rtask \<Rightarrow> rtask kind_def) \<Rightarrow> (string \<times> go_type \<times> rtask kind_def) list" where
  "define_noop k = [task_entry_of k ''wait'' (RtWait 0), task_entry_of k ''noop'' RtNoop]"

definition define_pipe :: "(rtask \<Rightarrow> rtask kind_def) \<Rightarrow> (string \<times> go_type \<times> rtask kind_def) list" where
  "define_pipe k = task_entry_of k ''pipe'' (RtPipe None []) # map (\<lambda>m. task_entry_of k (PipeMode_String m) (RtPipe (Some m) [])) PipeModes"

definition define_run :: "(rtask \<Rightarrow> rtask kind_def) \<Rightarrow> string list \<Rightarrow> (string \<times> go_type \<times> rtask kind_def) list" where
  "define_run k langs = task_entry_of k ''run'' (RtRun zero_run) # map (\<lambda>lang. task_entry_of k lang (RtRun (zero_run\<lparr>tr_Foreign := lang\<rparr>))) langs"

definition init_tasks :: "type_env \<Rightarrow> (rtask \<Rightarrow> rtask kind_def) \<Rightarrow> string list \<Rightarrow> (string \<Rightarrow> (rtask option \<times> ident) list option)
    \<Rightarrow> rtask registry option" where
  "init_tasks te k langs list_of =
     (case define_all te ''task.ITask'' NewRegistry (define_fetch k @ define_noop k @ define_pipe k) of
        None \<Rightarrow> None
      | Some r \<Rightarrow> define_all te ''task.ITask'' (RegisterNonObject r (CHR ''['') (task_array list_of)) (define_run k langs))"

definition trigger_entry_of :: "(trigger \<Rightarrow> trigger kind_def) \<Rightarrow> string \<Rightarrow> trigger \<Rightarrow> string \<times> go_type \<times> trigger kind_def" where
  "trigger_entry_of k kind t = (kind, trigger_type t, k t)"

definition init_triggers :: "type_env \<Rightarrow> (trigger \<Rightarrow> trigger kind_def) \<Rightarrow> (string \<Rightarrow> trigger list option) \<Rightarrow> trigger registry option" where
  "init_triggers te k list_of =
     (case define_all te ''job.ITrigger'' NewRegistry [trigger_entry_of k ''any'' (TriggerAny [])] of
        None \<Rightarrow> None
      | Some r \<Rightarrow>
          define_all te ''job.ITrigger'' (RegisterNonObject r (CHR ''['') (trigger_array list_of))
            [trigger_entry_of k ''always'' TriggerAlways, trigger_entry_of k ''never'' TriggerNever, trigger_entry_of k ''boot'' TriggerBoot,
             trigger_entry_of k ''on'' (TriggerOn []), trigger_entry_of k ''once'' (TriggerOnce []), trigger_entry_of k ''every'' (TriggerEvery 0)])"

section \<open>The registries are made\<close>

lemma tasks_implement: "Implements program_types (task_type t) ''task.ITask''"
  by (cases t) (simp_all add: Implements_def program_types_def listed_in_def program_methods_def program_interfaces_def type_name_def)

lemma triggers_implement: "Implements program_types (trigger_type t) ''job.ITrigger''"
  by (cases t) (simp_all add: Implements_def program_types_def listed_in_def program_methods_def program_interfaces_def type_name_def)

lemma task_defined: "Define_checked program_types ''task.ITask'' r (task_entry_of k kind t) = Some (Define r kind (k t))"
  using tasks_implement [of t] by (cases t) (simp_all add: Define_checked_def task_entry_of_def)

lemma trigger_defined: "Define_checked program_types ''job.ITrigger'' r (trigger_entry_of k kind t) = Some (Define r kind (k t))"
  using triggers_implement [of t] by (cases t) (simp_all add: Define_checked_def trigger_entry_of_def)

lemma define_all_append:
  "define_all te iface r (es @ es') = (case define_all te iface r es of None \<Rightarrow> None | Some r \<Rightarrow> define_all te iface r es')"
  by (induction es arbitrary: r) (auto split: option.splits)

lemma tasks_defined:
  "define_all program_types ''task.ITask'' r (map (\<lambda>x. task_entry_of k (kind x) (t x)) xs)
     = Some (fold (\<lambda>x r. Define r (kind x) (k (t x))) xs r)"
  by (induction xs arbitrary: r) (simp_all add: task_defined)

text \<open>The optional methods the registries rely on are those of the kinds' types.\<close>

lemma task_hooks:
  "Implements program_types (task_type t) ''foreign.InlineUnmarshaler'' \<longleftrightarrow> k_inline (task_kind pd wd json t) \<noteq> None"
  "Implements program_types (task_type t) ''automarshal.WithDefaultsID'' \<longleftrightarrow> k_defaultsID (task_kind pd wd json t) \<noteq> None"
  by (cases t; simp add: Implements_def program_types_def listed_in_def program_methods_def program_interfaces_def type_name_def
      task_kind_def inline_method_def launch_method_def defaults_method_def defaultsID_method_def)+

lemma trigger_hooks:
  "Implements program_types (trigger_type t) ''foreign.InlineUnmarshaler'' \<longleftrightarrow> k_inline (trigger_kind pd json t) \<noteq> None"
  "Implements program_types (trigger_type t) ''automarshal.WithDefaults'' \<longleftrightarrow> k_withDefaults (trigger_kind pd json t) \<noteq> None"
  by (cases t; simp add: Implements_def program_types_def listed_in_def program_methods_def program_interfaces_def type_name_def
      trigger_kind_def inline_method_def listen_method_def defaults_method_def defaultsID_method_def)+

text \<open>
  The wrappers have the fields that their registries look for, no \<open>Define\<close> of the program panics, and
  the registries that come of it are those that the other theories read with; and a value that is set
  into a wrapper is the value that is printed of it.
\<close>

theorem registries_made:
  "registry_fields task_wrapper ''task.ITask'' = Some \<lparr>wf_iface = 0, wf_id = 1\<rparr>
    \<and> registry_fields trigger_wrapper ''job.ITrigger'' = Some \<lparr>wf_iface = 0, wf_id = 1\<rparr>
    \<and> init_tasks program_types (task_kind pd wd json) langs list_of = Some (TaskRegistry pd wd langs json list_of)
    \<and> init_triggers program_types (trigger_kind pd tjson) triggers_of = Some (TriggerRegistry pd tjson triggers_of)
    \<and> marshal_fields \<lparr>wf_iface = 0, wf_id = 1\<rparr> (set_result \<lparr>wf_iface = 0, wf_id = 1\<rparr> v i [x, y]) = Some (Some v, i)"
proof -
  have w: "registry_fields task_wrapper ''task.ITask'' = Some \<lparr>wf_iface = 0, wf_id = 1\<rparr>"
    "registry_fields trigger_wrapper ''job.ITrigger'' = Some \<lparr>wf_iface = 0, wf_id = 1\<rparr>"
    by (simp_all add: registry_fields_def task_wrapper_def trigger_wrapper_def idType_def)
  have t: "init_tasks program_types (task_kind pd wd json) langs list_of = Some (TaskRegistry pd wd langs json list_of)"
    by (simp add: init_tasks_def define_fetch_def define_noop_def define_pipe_def define_run_def task_defined tasks_defined
        define_all_append TaskRegistry_def define_modes_def define_languages_def Let_def)
  have g: "init_triggers program_types (trigger_kind pd tjson) triggers_of = Some (TriggerRegistry pd tjson triggers_of)"
    by (simp add: init_triggers_def trigger_defined TriggerRegistry_def Let_def)
  have m: "marshal_fields \<lparr>wf_iface = 0, wf_id = 1\<rparr> (set_result \<lparr>wf_iface = 0, wf_id = 1\<rparr> v i [x, y]) = Some (Some v, i)"
    by (simp add: marshal_fields_def set_result_def)
  show ?thesis using w t g m by blast
qed

end
