(* ===== verification/Spec2Isabelle.thy ===== *)
theory Spec2Isabelle
  imports LoadBalancer Events ArgTypes TaskRegistry Config Units
    Javascript Daemon Startup Printing Lifecycle ReaderPos SessionRace Proxying Supervision
    Go_Duration Kinds
begin

text \<open>
  The verification of gosu, a process supervisor in Go: a daemon that keeps jobs, each a tree of tasks
  under workers that stop, time out and retry them, and a command-line client that talks to it. This
  theory imports all the others; below, the program's parts, the theories that model them, what is
  proved, and what is left out. A theory's own opening text says more of its component.

  \<^bold>\<open>How the program is put together.\<close>
  \<open>cmd/gosu/app.go\<close> is one program: whoever gets the lock file (\<open>pkg/session/lock.go\<close>) is the daemon, all
  others are clients. The client (\<open>pkg/client/main.go\<close>) turns a command line into one call, its flags
  being read by \<open>pkg/automarshal\<close>, and sends it over HTTP with a shared secret (\<open>pkg/surpc\<close>,
  \<open>pkg/settings\<close>). The daemon's session (\<open>pkg/session\<close>) finds the method, and launches, updates, deletes
  or controls jobs, which it keeps in memory and in a badger database. A job (\<open>pkg/job\<close>) is started and
  stopped by triggers and by requests, and runs its main task under a worker (\<open>pkg/task\<close>): one that runs
  it once, or one that runs it again under a limit. Tasks are programs, alone or in a cluster behind a
  load balancer (\<open>pkg/revproxy\<close>), HTTP requests, waits, and pipes of tasks; scripts in other languages
  and files of values come through \<open>pkg/foreign\<close>. Loggers (\<open>pkg/clog\<close>), whiteboards and reports go along
  with the workers.

  \<^bold>\<open>How it is modelled.\<close>
  A Go struct is a record, a call a function from state to state, a method with an error a function into
  a sum or an option; a panic is a value too, an option's \<open>None\<close> or a constructor of its own. What
  goroutines do is a partial step function over events (\<open>must_act\<close>, \<open>retry_act\<close>, \<open>pipe_act\<close>, \<open>job_act\<close>,
  \<open>life_act\<close>, \<open>runner_act\<close>, \<open>cluster_act\<close>, \<open>supervised_act\<close>, \<open>proxied_act\<close>, \<open>race_act\<close>, \<open>ticker_act\<close>,
  \<open>buffered_act\<close>, \<open>lock_act\<close>), one event per atomic
  action, channel operation or critical section; \<open>exec\<close> of \<open>Prelude\<close> runs any list of them, so that a
  theorem over \<open>exec\<close> holds of every interleaving. Pointers are numbers into a list or a heap where
  sharing matters (jobs, workers, subscriptions, upstreams, whiteboards). Integers are words where
  they may wrap (retry state, counters, queues, event numbers) and \<open>int\<close> of nanoseconds otherwise.
  Floats are \<open>f64\<close> of \<open>Go_Float\<close>.
  What is not in the repository is a parameter with its documented behaviour as a named hypothesis:
  badger (\<open>badger_laws\<close>), encoding/json (\<open>codec_laws\<close>, \<open>json_reads\<close>), regular expressions, AES and
  SHA-256, the HTTP transports, the operating system's processes, files and clock.

  \<^bold>\<open>Foundations.\<close>
  \<open>Prelude\<close>: words, Go's division, and the interfaces \<open>text_codec\<close> (a pair of encoder and decoder),
  \<open>guarded_system\<close> (an invariant kept by a class of events) and \<open>simulation\<close> (a component that answers
  as its specification does). \<open>Go_Float\<close>, \<open>Go_Strings\<close>, \<open>Go_Context\<close> (\<open>pkg/util/ok.go\<close>, with the interface
  \<open>cancellable\<close>), \<open>Sync_Map\<close> (interface \<open>map_store\<close>), \<open>Duration\<close>, \<open>Rate\<close>, \<open>Units\<close> (\<open>pkg/util/duration.go\<close>,
  \<open>rate.go\<close>, \<open>size.go\<close>, with their text and JSON forms), \<open>Go_Duration\<close> (the printer and the parser of
  durations in the standard library, digit by digit, with their fractions in \<open>f64\<close>: every 64-bit duration
  is read back, and so are the texts of \<open>duration.go\<close> and \<open>rate.go\<close> over it), \<open>Status\<close> (\<open>pkg/task/status.go\<close>) and \<open>Options\<close>
  (\<open>pkg/task/options.go\<close>).

  \<^bold>\<open>Workers.\<close>
  \<open>Must\<close> (\<open>work_must.go\<close>): the stop channel is closed exactly when a stop was signalled and never twice, a
  stop is enforced after its timeout, and what \<open>Run\<close> makes of an exit. \<open>Retry\<close> (\<open>work_retry.go\<close>), over the
  model of the inner worker: the restarts are bounded by the limit per tick, the state that \<open>Stop\<close>
  leaves is final, the back-off lies within its bounds. \<open>Work\<close> (\<open>work.go\<close>, \<open>work_base.go\<close>): the interface
  \<open>worker_interface\<close> and its two workers. \<open>Pipe\<close> (\<open>task_pipe.go\<close>, \<open>task_pipe_mode.go\<close>): the interface
  \<open>pipe_mode\<close>, extended by \<open>fail_fast\<close>, \<open>serial\<close>, \<open>only_success\<close> and \<open>first_wins\<close>, interpreted on the four modes;
  the result of a pipe, one task at a time in an ordered one, and that no pipe gets stuck. \<open>RunTask\<close>
  (\<open>task_run.go\<close>, \<open>task_fetch.go\<close>, \<open>process.go\<close>): the goroutines of one program and of a cluster, and the
  walk over a process and its descendants, cycles included. \<open>Supervision\<close> composes \<open>Must\<close> with the
  goroutines of a program, which share a context and a stop channel: whatever the program does, the stop
  timeout and the kill end it. \<open>Whiteboard\<close> and \<open>Clog\<close> (\<open>pkg/clog\<close>): forks are
  isolated; what a formatter writes does not depend on how its input is cut.

  \<^bold>\<open>Jobs and sessions.\<close>
  \<open>Triggers\<close> (\<open>pkg/job/trigger*.go\<close>) and \<open>Job\<close> (\<open>job.go\<close>): timers, named events, a job and all the workers
  it has made. \<open>Lifecycle\<close> puts them together as \<open>Ready\<close> does: callbacks of triggers interleave with
  everything else that is asked of a job, and it still has at most one live worker. \<open>Database\<close> (\<open>db.go\<close>):
  a collection over badger refines a finite map. \<open>Session\<close> (\<open>session.go\<close>, \<open>service_*.go\<close>, \<open>stream_log.go\<close>):
  what runs is what is stored, a restart restores it, and a deletion by pattern is exact. \<open>SessionRace\<close>: the
  same requests cut at their atomic actions and interleaved, as \<open>net/rpc\<close> serves them; no request waits for
  ever, every displaced job is told to stop, and as long as no two requests for one ID overlap, what runs is
  what is stored; where they overlap, the lemmas behind the theorems show how it goes wrong. \<open>JobRegistry\<close>:
  the job service refines a map from IDs to manifests, with its answers. \<open>Startup\<close>: the directories, the
  database and the processes of an earlier daemon. \<open>Daemon\<close>: one daemon at a time. \<open>Events\<close>
  (\<open>pkg/events\<close>) and \<open>LoadBalancer\<close> (\<open>pkg/revproxy\<close>): registrations, sticky sessions, the choice of an
  upstream, and balanced connection counts. \<open>Proxying\<close> (\<open>upstream.go\<close>, \<open>pkg/ipc/dial*.go\<close>, \<open>task_run.go\<close>)
  puts the programs of a task behind the balancer: it lists the checked programs that are not being stopped,
  and a request reaches the address that its program was told to serve on.

  \<^bold>\<open>Reading values.\<close>
  \<open>ArgReader\<close> (\<open>pkg/automarshal/reader.go\<close>, \<open>pkg/util/runeset.go\<close>) reads the text that remains; it ends on
  every input and reads back what is printed. \<open>ArgTypes\<close>: the type of what it gives. \<open>ReaderPos\<close>: its words
  with the buffer, the position and the loops of the code, and that both read the same. \<open>Registry\<close>
  (\<open>registry.go\<close>, \<open>pkg/foreign\<close>) and \<open>TaskRegistry\<close>: values by kind, from texts, objects, arrays and files. \<open>Kinds\<close>:
  the types behind them, by their fields and methods, and that no registration of the program panics.
  \<open>Javascript\<close> (\<open>pkg/foreign/javascript\<close>): engines, packages, and the value that a script prints.

  \<^bold>\<open>Client and connection.\<close>
  \<open>Client\<close> (\<open>pkg/client/main.go\<close>): flags reach the manifest as they were given. \<open>View\<close>
  (\<open>pkg/client/view/tasks.go\<close>): the list shows each leaf once, in a stable order. \<open>Config\<close>
  (\<open>pkg/settings/settings.go\<close>, \<open>pkg/ipc/address.go\<close>, \<open>pkg/util/rng.go\<close>), \<open>Surpc\<close> (\<open>pkg/surpc\<close>): who may
  call, and the cipher of a connection. \<open>RpcExchange\<close>: a call from one end to the other. \<open>Commands\<close>:
  the whole way of a command, from the shell to the jobs and back. \<open>Printing\<close>: what it prints of the answer.

  \<^bold>\<open>Fuel and bounds.\<close>
  The reader runs on \<open>rd_fuel\<close>, four times the length of its input and four, which \<open>reader_terminates\<close>
  proves to be enough for every input. \<open>size_String\<close> calls itself at most once, so two units are
  enough, except for the least integer, for which the code does not end. \<open>InspectProcess\<close> needs more
  units than there are processes, proved enough for every finite table. All other loops are total
  functions; \<open>ResolveGlobalPackage\<close> makes at most two turns. Orders in which Go leaves a range over a map
  open are arguments, over which the theorems quantify.

  \<^bold>\<open>Interleavings that are not modelled.\<close>
  Each theory interleaves the goroutines of its own component and of those it composes. \<open>JobRegistry\<close> and
  \<open>Commands\<close> take a request to the session as one step, which is what \<open>SessionRace\<close> proves a request that runs
  alone to be. Single operations of \<open>sync.Map\<close> and transactions of badger are atomic. The steps of one
  exchange over HTTP are not interleaved with another's.

  \<^bold>\<open>Not modelled.\<close>
  The colours and borders of the client's table (\<open>view/tasks.go\<close>): calls into terminal libraries, which
  draw what the model gives them. The name of a settings file, which \<open>pkg/settings/settings.go\<close> takes from
  the name of a type: an argument. Listening (\<open>Listen\<close> and \<open>Close\<close> of \<open>lb.go\<close>): one call each into a network
  library. The proxying of \<open>net/http/httputil\<close>, the tuning options of badger, the signals of the operating
  system beyond those the tasks handle, and the work of npm and of the engines behind their command lines.
\<close>

end
